(* ===== verification/Prelude.thy ===== *)
theory Prelude
  imports Main "HOL-Library.Word" "HOL-Library.Multiset"
begin

text \<open>
  The shared vocabulary of the development.

  The theory fixes how the Go language and the parts of its standard library that the program
  uses are represented: the fixed-width integers, run-time panics as values, byte slices, and
  the cursor of \<^verbatim>\<open>bytes.Reader\<close> and \<^verbatim>\<open>bytes.Buffer\<close>. It also holds the generic lemmas on words
  and lists the components share, and the collections (\<open>codec_simps\<close>, \<open>unat_eqs\<close>) that carry the
  component proofs.
\<close>

unbundle bit_operations_syntax

section \<open>Go's integers, byte slices, errors and panics\<close>

type_synonym u8 = "8 word"
type_synonym u16 = "16 word"
type_synonym u32 = "32 word"
type_synonym u64 = "64 word"
type_synonym bytes = "u8 list"

named_theorems codec_simps \<open>a reader applied to what the matching writer wrote\<close>
named_theorems unat_eqs \<open>equations that move a machine word operation to the naturals\<close>

text \<open>
  The values of Go's \<^verbatim>\<open>error\<close> interface that the modelled code can meet: the sentinel errors of
  package \<^verbatim>\<open>io\<close>, the error of \<^verbatim>\<open>bytes.Reader.UnreadByte\<close> at the start of the data, and an error
  with a message made by \<^verbatim>\<open>errors.New\<close>.
\<close>

datatype go_error = EOF | UnexpectedEOF | UnreadAtStart | ErrorString string

text \<open>
  A run-time panic: an explicit \<^verbatim>\<open>panic(...)\<close> of the program (with what it reports), a slice
  allocation of a length the runtime refuses, a slice expression or an index out of range, a nil
  pointer. \<open>PanicLength\<close> is the \<^verbatim>\<open>panic(length)\<close> of packet number truncation, without the
  number it prints. \<open>ImplementationSpecific\<close> marks the conversions of a floating-point number that does not fit
  the integer type, where the language leaves the result to the implementation.
\<close>

datatype panic =
    VarIntTooBig u64
  | MakeSliceLen
  | SliceBounds
  | IndexOutOfRange
  | NilPointer
  | PanicError go_error
  | PanicString string
  | PanicLength
  | ImplementationSpecific

type_synonym 'a res = "panic + 'a"

text \<open>Sequencing of computations that may panic.\<close>

fun bind_res :: "'a res \<Rightarrow> ('a \<Rightarrow> 'b res) \<Rightarrow> 'b res" where
  "bind_res (Inl p) f = Inl p"
| "bind_res (Inr x) f = f x"

lemma bind_res_Inr_iff [simp]: "bind_res m f = Inr y \<longleftrightarrow> (\<exists>x. m = Inr x \<and> f x = Inr y)"
  by (cases m) auto

lemma bind_res_assoc: "bind_res (bind_res m f) g = bind_res m (\<lambda>x. bind_res (f x) g)"
  by (cases m) auto

lemma bind_res_cong [fundef_cong]:
  "m = m' \<Longrightarrow> (\<And>x. m' = Inr x \<Longrightarrow> f x = f' x) \<Longrightarrow> bind_res m f = bind_res m' f'"
  by (cases m') auto

text \<open>Writing several pieces to one buffer, left to right, stopping at the first panic.\<close>

fun cat_res :: "bytes res list \<Rightarrow> bytes res" where
  "cat_res [] = Inr []"
| "cat_res (m # ms) = bind_res m (\<lambda>a. bind_res (cat_res ms) (\<lambda>b. Inr (a @ b)))"

lemma cat_res_append:
  "cat_res (xs @ ys) = bind_res (cat_res xs) (\<lambda>a. bind_res (cat_res ys) (\<lambda>b. Inr (a @ b)))"
proof (induction xs)
  case Nil
  show ?case by (cases "cat_res ys") auto
next
  case (Cons x xs)
  then show ?case
    by (cases x; cases "cat_res xs"; cases "cat_res ys") auto
qed

text \<open>
  \<^verbatim>\<open>make([]byte, n)\<close>: the runtime panics when the length exceeds the largest allocation it
  supports, \<^verbatim>\<open>maxAlloc\<close> of package \<^verbatim>\<open>runtime\<close>, which is $2^{48}$ on the 64-bit platforms the
  program is built for. The fresh slice holds zeros.
\<close>

definition maxAlloc :: nat where
  "maxAlloc = 2 ^ 48"

definition make_bytes :: "nat \<Rightarrow> bytes res" where
  "make_bytes n = (if n \<le> maxAlloc then Inr (replicate n 0) else Inl MakeSliceLen)"

lemma make_bytes_ok [simp]: "n \<le> maxAlloc \<Longrightarrow> make_bytes n = Inr (replicate n 0)"
  by (simp add: make_bytes_def)

lemma make_bytes_too_big [simp]: "maxAlloc < n \<Longrightarrow> make_bytes n = Inl MakeSliceLen"
  by (simp add: make_bytes_def)

text \<open>\<^verbatim>\<open>copy(dst, src)\<close>: as many bytes as the shorter of the two holds.\<close>

definition copy_bytes :: "bytes \<Rightarrow> bytes \<Rightarrow> bytes" where
  "copy_bytes dst src = take (length dst) src @ drop (length src) dst"

lemma length_copy_bytes [simp]: "length (copy_bytes dst src) = length dst"
  by (simp add: copy_bytes_def)

lemma copy_bytes_same_length [simp]: "length dst = length src \<Longrightarrow> copy_bytes dst src = src"
  by (simp add: copy_bytes_def)

lemma nth_copy_bytes:
  "i < length dst \<Longrightarrow> copy_bytes dst src ! i = (if i < length src then src ! i else dst ! i)"
  by (auto simp: copy_bytes_def nth_append min_def)

section \<open>The cursor of a byte reader\<close>

text \<open>
  \<^verbatim>\<open>bytes.Reader\<close> is a slice and a read position. \<open>Reader d t\<close> is the reader whose bytes before
  the position are \<open>rev d\<close> and whose remaining bytes are \<open>t\<close>.
\<close>

datatype reader = Reader (rd_done: bytes) (rd_rest: bytes)

definition NewReader :: "bytes \<Rightarrow> reader" where
  "NewReader b = Reader [] b"

definition rd_Len :: "reader \<Rightarrow> nat" where
  "rd_Len r = length (rd_rest r)"

fun advance :: "nat \<Rightarrow> reader \<Rightarrow> reader" where
  "advance n (Reader d t) = Reader (rev (take n t) @ d) (drop n t)"

text \<open>\<^verbatim>\<open>ReadByte\<close>: the next byte, or \<^verbatim>\<open>io.EOF\<close> with the position unchanged.\<close>

fun ReadByte :: "reader \<Rightarrow> (go_error + u8) \<times> reader" where
  "ReadByte (Reader d []) = (Inl EOF, Reader d [])"
| "ReadByte (Reader d (b # t)) = (Inr b, Reader (b # d) t)"

text \<open>\<^verbatim>\<open>UnreadByte\<close>: one position back, an error at the start.\<close>

fun UnreadByte :: "reader \<Rightarrow> go_error option \<times> reader" where
  "UnreadByte (Reader [] t) = (Some UnreadAtStart, Reader [] t)"
| "UnreadByte (Reader (b # d) t) = (None, Reader d (b # t))"

text \<open>
  \<^verbatim>\<open>Read(dst)\<close>: copies what is left, up to the length of \<open>dst\<close>; \<^verbatim>\<open>io.EOF\<close> when nothing is left.
  The result is the number of bytes read, the error, the slice after the call, and the reader.
\<close>

definition rd_Read :: "bytes \<Rightarrow> reader \<Rightarrow> nat \<times> go_error option \<times> bytes \<times> reader" where
  "rd_Read dst r =
     (if rd_rest r = [] then (0, Some EOF, dst, r)
      else let n = min (length dst) (length (rd_rest r))
           in (n, None, copy_bytes dst (rd_rest r), advance n r))"

text \<open>The common pattern \<^verbatim>\<open>buf := make([]byte, n); buffer.Read(buf)\<close> with the results dropped.\<close>

definition make_Read :: "nat \<Rightarrow> reader \<Rightarrow> (bytes \<times> reader) res" where
  "make_Read n r = bind_res (make_bytes n) (\<lambda>b. case rd_Read b r of (_, _, b', r') \<Rightarrow> Inr (b', r'))"

text \<open>
  \<^verbatim>\<open>io.ReadFull\<close> for a slice of \<open>n\<close> bytes, as \<^verbatim>\<open>binary.Read\<close> calls it: either all bytes are
  there, or the rest is consumed and the error tells whether it was empty.
\<close>

definition ReadFull :: "nat \<Rightarrow> reader \<Rightarrow> (go_error + bytes) \<times> reader" where
  "ReadFull n r =
     (if n \<le> length (rd_rest r) then (Inr (take n (rd_rest r)), advance n r)
      else (Inl (if rd_rest r = [] then EOF else UnexpectedEOF), advance (length (rd_rest r)) r))"

text \<open>
  \<^verbatim>\<open>binary.Read\<close> into a byte slice or array of length \<open>n\<close> that holds zeros, the error dropped: the
  destination keeps its zeros when there are not enough bytes.
\<close>

definition binary_Read_bytes :: "nat \<Rightarrow> reader \<Rightarrow> bytes \<times> reader" where
  "binary_Read_bytes n r =
     (case ReadFull n r of (Inr b, r') \<Rightarrow> (b, r') | (Inl e, r') \<Rightarrow> (replicate n 0, r'))"

lemma make_Read_append [codec_simps]:
  "length b = n \<Longrightarrow> n \<le> maxAlloc \<Longrightarrow>
   make_Read n (Reader d (b @ t)) = Inr (b, Reader (rev b @ d) t)"
  by (auto simp: make_Read_def rd_Read_def copy_bytes_def)

lemma ReadFull_append [codec_simps]:
  "length b = n \<Longrightarrow> ReadFull n (Reader d (b @ t)) = (Inr b, Reader (rev b @ d) t)"
  by (simp add: ReadFull_def)

lemma binary_Read_bytes_append [codec_simps]:
  "length b = n \<Longrightarrow> binary_Read_bytes n (Reader d (b @ t)) = (b, Reader (rev b @ d) t)"
  by (simp add: binary_Read_bytes_def ReadFull_append)

lemma rd_Len_Reader [simp]: "rd_Len (Reader d t) = length t"
  by (simp add: rd_Len_def)

section \<open>Words\<close>

text \<open>Go's conversion of an unsigned integer to a narrower or wider unsigned type is \<open>ucast\<close>.\<close>

lemma u8_less [simp]: "unat (b :: u8) < 256"
  using unsigned_less [of b] by simp

lemma u32_less [simp]: "unat (x :: u32) < 4294967296"
  using unsigned_less [of x] by simp

lemma u64_less [simp]: "unat (x :: u64) < 2 ^ 64"
  using unsigned_less [of x] by simp

lemma u64_bound [simp]: "unat (x :: u64) < 18446744073709551616"
  using unsigned_less [of x] by simp

lemma unat_ucast_u64_u8 [unat_eqs]: "unat (ucast (x :: u64) :: u8) = unat x mod 256"
  by (simp add: unsigned_ucast_eq take_bit_eq_mod)

lemma unat_ucast_u8_u64 [unat_eqs]: "unat (ucast (b :: u8) :: u64) = unat b"
  by (simp add: unsigned_ucast_eq take_bit_eq_mod less_trans [OF u8_less])

lemma unat_ucast_u32_u64 [unat_eqs]: "unat (ucast (x :: u32) :: u64) = unat x"
  by (simp add: unsigned_ucast_eq take_bit_eq_mod less_trans [OF u32_less])

lemma unat_drop_bit [unat_eqs]: "unat (drop_bit n (x :: 'a::len word)) = unat x div 2 ^ n"
  unfolding unat_drop_bit_eq by (simp only: drop_bit_eq_div)

lemma unat_push_bit_u64 [unat_eqs]: "unat (push_bit n (x :: u64)) = (unat x * 2 ^ n) mod 2 ^ 64"
  unfolding unsigned_push_bit_eq by (simp add: take_bit_eq_mod push_bit_eq_mult)

lemma unat_of_nat_u64 [simp]: "n < 18446744073709551616 \<Longrightarrow> unat (of_nat n :: u64) = n"
  by (simp add: unsigned_of_nat take_bit_eq_mod)

lemma unat_add_u64:
  "unat x + unat y < 2 ^ 64 \<Longrightarrow> unat ((x :: u64) + y) = unat x + unat y"
  using unat_add_lem [of x y] by simp

lemma byte_digit:
  fixes n :: nat
  shows "n div 2 ^ a mod 256 * 2 ^ a + n div 2 ^ (a + 8) * 2 ^ (a + 8) = n div 2 ^ a * 2 ^ a"
proof -
  let ?q = "n div 2 ^ a"
  have "n div 2 ^ (a + 8) = ?q div 256"
    by (simp add: power_add div_mult2_eq)
  moreover have "?q mod 256 * 2 ^ a + ?q div 256 * (256 * 2 ^ a) = ?q * 2 ^ a"
    by (metis (no_types) add_mult_distrib mult.assoc mod_div_mult_eq)
  ultimately show ?thesis
    by (simp add: power_add mult.commute)
qed

text \<open>A number from its base-256 digits, for two, four and eight of them.\<close>

lemma bytes2_value: "(n :: nat) mod 256 + n div 256 * 256 = n"
  by (rule mod_div_mult_eq)

lemma bytes4_value:
  "(n :: nat) mod 256 + n div 256 mod 256 * 256 + n div 65536 mod 256 * 65536
     + n div 16777216 * 16777216 = n"
  using bytes2_value [of n] byte_digit [of n 8, simplified] byte_digit [of n 16, simplified]
  by linarith

lemma bytes8_value:
  "(n :: nat) mod 256 + n div 256 mod 256 * 256 + n div 65536 mod 256 * 65536
     + n div 16777216 mod 256 * 16777216 + n div 4294967296 mod 256 * 4294967296
     + n div 1099511627776 mod 256 * 1099511627776
     + n div 281474976710656 mod 256 * 281474976710656
     + n div 72057594037927936 * 72057594037927936 = n"
  using bytes4_value [of n] byte_digit [of n 24, simplified] byte_digit [of n 32, simplified]
    byte_digit [of n 40, simplified] byte_digit [of n 48, simplified]
  by linarith

section \<open>Interface: a wire format with a writer and a reader\<close>

text \<open>
  Every format of the program is a writer \<open>enc\<close>, which appends bytes to a buffer or panics, and a
  reader \<open>dec\<close>, which takes a value off a reader. The law a format promises on its well-formed
  values is that the reader takes exactly what the writer wrote, whatever stands before and behind.
\<close>

locale wire_codec =
  fixes enc :: "'a \<Rightarrow> bytes res"
    and dec :: "reader \<Rightarrow> ('a \<times> reader) option"
    and wf :: "'a \<Rightarrow> bool"
  assumes enc_total: "wf x \<Longrightarrow> \<exists>b. enc x = Inr b"
    and dec_enc: "wf x \<Longrightarrow> enc x = Inr b \<Longrightarrow> dec (Reader d (b @ t)) = Some (x, Reader (rev b @ d) t)"
begin

lemma enc_inj: "wf x \<Longrightarrow> wf y \<Longrightarrow> enc x = enc y \<Longrightarrow> x = y"
  using enc_total dec_enc by (metis Pair_inject option.inject)

text \<open>No encoding is a proper prefix of another one.\<close>

lemma prefix_free:
  assumes "wf x" "wf y" "enc x = Inr b" "enc y = Inr (b @ c)"
  shows "x = y \<and> c = []"
proof -
  have "dec (Reader [] (b @ c)) = Some (x, Reader (rev b) c)"
    using dec_enc [OF assms(1,3), of "[]" c] by simp
  moreover have "dec (Reader [] ((b @ c) @ [])) = Some (y, Reader (rev (b @ c)) [])"
    using dec_enc [OF assms(2,4), of "[]" "[]"] by simp
  ultimately show ?thesis by auto
qed

text \<open>A sequence of values written one after the other.\<close>

fun dec_list :: "nat \<Rightarrow> reader \<Rightarrow> ('a list \<times> reader) option" where
  "dec_list 0 r = Some ([], r)"
| "dec_list (Suc n) r =
     (case dec r of None \<Rightarrow> None
      | Some (x, r') \<Rightarrow> (case dec_list n r' of None \<Rightarrow> None
                        | Some (xs, r'') \<Rightarrow> Some (x # xs, r'')))"

lemma enc_list_total: "\<forall>x \<in> set xs. wf x \<Longrightarrow> \<exists>b. cat_res (map enc xs) = Inr b"
  by (induction xs) (auto dest!: enc_total)

lemma dec_list_enc:
  "\<forall>x \<in> set xs. wf x \<Longrightarrow> cat_res (map enc xs) = Inr b \<Longrightarrow>
   dec_list (length xs) (Reader d (b @ t)) = Some (xs, Reader (rev b @ d) t)"
  by (induction xs arbitrary: b d) (auto simp: dec_enc)

end

section \<open>Interface: a component as a machine with an invariant\<close>

text \<open>
  An agent of the program is a loop that reacts to one event at a time. Its states are those reachable from
  an initial state by the step relation; a property that holds initially and that every step
  keeps holds in all of them.
\<close>

inductive reachable :: "('s \<Rightarrow> bool) \<Rightarrow> ('s \<Rightarrow> 'e \<Rightarrow> 's \<Rightarrow> bool) \<Rightarrow> 's \<Rightarrow> bool"
  for init :: "'s \<Rightarrow> bool" and step :: "'s \<Rightarrow> 'e \<Rightarrow> 's \<Rightarrow> bool" where
  start: "init s \<Longrightarrow> reachable init step s"
| onward: "reachable init step s \<Longrightarrow> step s e s' \<Longrightarrow> reachable init step s'"

locale machine =
  fixes init :: "'s \<Rightarrow> bool"
    and step :: "'s \<Rightarrow> 'e \<Rightarrow> 's \<Rightarrow> bool"
    and inv :: "'s \<Rightarrow> bool"
  assumes inv_init: "init s \<Longrightarrow> inv s"
    and inv_step: "inv s \<Longrightarrow> step s e s' \<Longrightarrow> inv s'"
begin

lemma inv_reachable: "reachable init step s \<Longrightarrow> inv s"
  by (induction rule: reachable.induct) (auto intro: inv_init inv_step)

end

end
