(* ===== verification/VarInt.thy ===== *)
theory VarInt
  imports Prelude
begin

text \<open>
  The variable-length integer of QUIC, \<^verbatim>\<open>lib/varint.go\<close>, and its wrapper type \<^verbatim>\<open>VarInt\<close> of
  \<^verbatim>\<open>common.go\<close>. The main facts: writing never panics below $2^{62}$ and always does above, the
  reader returns what the writer wrote together with the number of bytes, every value the reader
  returns is below $2^{62}$, and a truncated encoding is reported as \<^verbatim>\<open>io.EOF\<close>.
\<close>

section \<open>Definitions\<close>

definition maxVarInt1 :: u64 where "maxVarInt1 = 63"
definition maxVarInt2 :: u64 where "maxVarInt2 = 16383"
definition maxVarInt4 :: u64 where "maxVarInt4 = 1073741823"
definition maxVarInt8 :: u64 where "maxVarInt8 = 4611686018427387903"

definition u64_of_byte :: "u8 \<Rightarrow> nat \<Rightarrow> u64" where
  "u64_of_byte b n = push_bit n (ucast b)"

text \<open>
  \<^verbatim>\<open>ReadVarIntValue\<close>: each \<^verbatim>\<open>b.ReadByte()\<close> may fail, and then the bytes read so far stay consumed.
\<close>

definition ReadVarIntValue :: "reader \<Rightarrow> (go_error + u64 \<times> nat) \<times> reader" where
  "ReadVarIntValue r0 = (case ReadByte r0 of (Inl e, r) \<Rightarrow> (Inl e, r) | (Inr firstByte, r) \<Rightarrow>
   (let len = push_bit (unat (drop_bit 6 (firstByte AND 0xc0))) (1 :: nat);
        b1 = firstByte AND (0xff - 0xc0)
    in if len = 1 then (Inr (ucast b1, 1), r) else
   (case ReadByte r of (Inl e, r) \<Rightarrow> (Inl e, r) | (Inr b2, r) \<Rightarrow>
    if len = 2 then (Inr (ucast b2 + u64_of_byte b1 8, 2), r) else
   (case ReadByte r of (Inl e, r) \<Rightarrow> (Inl e, r) | (Inr b3, r) \<Rightarrow>
   (case ReadByte r of (Inl e, r) \<Rightarrow> (Inl e, r) | (Inr b4, r) \<Rightarrow>
    if len = 4 then
      (Inr (ucast b4 + u64_of_byte b3 8 + u64_of_byte b2 16 + u64_of_byte b1 24, 4), r) else
   (case ReadByte r of (Inl e, r) \<Rightarrow> (Inl e, r) | (Inr b5, r) \<Rightarrow>
   (case ReadByte r of (Inl e, r) \<Rightarrow> (Inl e, r) | (Inr b6, r) \<Rightarrow>
   (case ReadByte r of (Inl e, r) \<Rightarrow> (Inl e, r) | (Inr b7, r) \<Rightarrow>
   (case ReadByte r of (Inl e, r) \<Rightarrow> (Inl e, r) | (Inr b8, r) \<Rightarrow>
     (Inr (ucast b8 + u64_of_byte b7 8 + u64_of_byte b6 16 + u64_of_byte b5 24
           + u64_of_byte b4 32 + u64_of_byte b3 40 + u64_of_byte b2 48 + u64_of_byte b1 56, 8), r)
   )))))))))"

text \<open>\<^verbatim>\<open>EncodeVarInt\<close>; \<open>byte_at i n\<close> is \<^verbatim>\<open>uint8(i >> n)\<close>.\<close>

definition byte_at :: "u64 \<Rightarrow> nat \<Rightarrow> u8" where
  "byte_at i n = ucast (drop_bit n i)"

definition EncodeVarInt :: "u64 \<Rightarrow> bytes res" where
  "EncodeVarInt i =
     (if i \<le> maxVarInt1 then Inr [ucast i]
      else if i \<le> maxVarInt2 then Inr [byte_at i 8 OR 0x40, ucast i]
      else if i \<le> maxVarInt4 then
        Inr [byte_at i 24 OR 0x80, byte_at i 16, byte_at i 8, ucast i]
      else if i \<le> maxVarInt8 then
        Inr [byte_at i 56 OR 0xc0, byte_at i 48, byte_at i 40, byte_at i 32,
             byte_at i 24, byte_at i 16, byte_at i 8, ucast i]
      else Inl (VarIntTooBig i))"

text \<open>\<^verbatim>\<open>WriteVarInt\<close> appends the encoding to the buffer; the model returns what is appended.\<close>

definition WriteVarInt :: "u64 \<Rightarrow> bytes res" where
  "WriteVarInt i = EncodeVarInt i"

definition VarIntLen :: "u64 \<Rightarrow> nat res" where
  "VarIntLen i =
     (if i \<le> maxVarInt1 then Inr 1
      else if i \<le> maxVarInt2 then Inr 2
      else if i \<le> maxVarInt4 then Inr 4
      else if i \<le> maxVarInt8 then Inr 8
      else Inl (VarIntTooBig i))"

text \<open>The type \<^verbatim>\<open>VarInt\<close> of \<^verbatim>\<open>common.go\<close>: a value and the length of its encoding.\<close>

record VarInt =
  vi_Value :: u64
  vi_Length :: nat

definition zero_VarInt :: VarInt where
  "zero_VarInt = \<lparr>vi_Value = 0, vi_Length = 0\<rparr>"

definition NewVarInt :: "u64 \<Rightarrow> VarInt res" where
  "NewVarInt value = bind_res (VarIntLen value) (\<lambda>l. Inr \<lparr>vi_Value = value, vi_Length = l\<rparr>)"

definition ReadVarInt :: "reader \<Rightarrow> (go_error + VarInt) \<times> reader" where
  "ReadVarInt r = (case ReadVarIntValue r of
      (Inl e, r') \<Rightarrow> (Inl e, r')
    | (Inr (i, l), r') \<Rightarrow> (Inr \<lparr>vi_Value = i, vi_Length = l\<rparr>, r'))"

definition VarInt_Encode :: "VarInt \<Rightarrow> bytes res" where
  "VarInt_Encode v = WriteVarInt (vi_Value v)"

text \<open>The pattern \<^verbatim>\<open>x, _, _ = ReadVarIntValue(buffer)\<close>: on an error the value is 0.\<close>

definition rd_var :: "reader \<Rightarrow> u64 \<times> reader" where
  "rd_var r = (case ReadVarIntValue r of (Inr (v, _), r') \<Rightarrow> (v, r') | (Inl e, r') \<Rightarrow> (0, r'))"

text \<open>The pattern \<^verbatim>\<open>x, _ = ReadVarInt(buffer)\<close>.\<close>

definition rd_VarInt :: "reader \<Rightarrow> VarInt \<times> reader" where
  "rd_VarInt r = (case ReadVarInt r of (Inr v, r') \<Rightarrow> (v, r') | (Inl e, r') \<Rightarrow> (zero_VarInt, r'))"

section \<open>The four ranges\<close>

definition fits62 :: "u64 \<Rightarrow> bool" where
  "fits62 i \<longleftrightarrow> unat i < 2 ^ 62"

lemma fits62_iff: "fits62 i \<longleftrightarrow> i \<le> maxVarInt8"
  by (simp add: fits62_def maxVarInt8_def word_le_nat_alt) arith

lemma range1: "i \<le> maxVarInt1 \<longleftrightarrow> unat i < 2 ^ 6"
  and range2: "i \<le> maxVarInt2 \<longleftrightarrow> unat i < 2 ^ 14"
  and range4: "i \<le> maxVarInt4 \<longleftrightarrow> unat i < 2 ^ 30"
  and range8: "i \<le> maxVarInt8 \<longleftrightarrow> unat i < 2 ^ 62"
  by (simp_all add: maxVarInt1_def maxVarInt2_def maxVarInt4_def maxVarInt8_def word_le_nat_alt)
     arith+

lemmas ranges = range1 range2 range4 range8

text \<open>The two length bits of the first byte, by evaluation over all bytes.\<close>

lemma length_bits_or:
  "\<forall>x :: u8. unat x < 64 \<longrightarrow>
     unat (drop_bit 6 (x AND 0xc0)) = 0 \<and> x AND 0x3f = x \<and>
     unat (drop_bit 6 ((x OR 0x40) AND 0xc0)) = 1 \<and> (x OR 0x40) AND 0x3f = x \<and>
     unat (drop_bit 6 ((x OR 0x80) AND 0xc0)) = 2 \<and> (x OR 0x80) AND 0x3f = x \<and>
     unat (drop_bit 6 ((x OR 0xc0) AND 0xc0)) = 3 \<and> (x OR 0xc0) AND 0x3f = x"
  by code_simp

lemma length_bits_cases: "\<forall>x :: u8. unat (drop_bit 6 (x AND 0xc0)) \<in> {0, 1, 2, 3}"
  by code_simp

lemma low6_less: "\<forall>x :: u8. unat (x AND 0x3f) < 64"
  by code_simp

lemma byte_at_small:
  assumes "unat i < 2 ^ n * 64"
  shows "unat (byte_at i n) < 64"
proof -
  have "unat i div 2 ^ n < 64"
    using assms by (simp add: less_mult_imp_div_less mult.commute)
  then show ?thesis
    by (simp add: byte_at_def unat_eqs)
qed

lemma unat_byte_at: "unat (byte_at i n) = unat i div 2 ^ n mod 256"
  by (simp add: byte_at_def unat_eqs)

lemma ucast_byte_of_nat: "(ucast (b :: u8) :: u64) = of_nat (unat b)"
  by simp

section \<open>Round trip\<close>

lemma ReadVarIntValue_1:
  "unat i < 2 ^ 6 \<Longrightarrow> ReadVarIntValue (Reader d (ucast i # t)) = (Inr (i, 1), Reader (ucast i # d) t)"
proof -
  assume "unat i < 2 ^ 6"
  then have u: "unat (ucast i :: u8) = unat i"
    by (simp add: unat_eqs)
  then have "(ucast (ucast i :: u8) :: u64) = i"
    by (simp add: ucast_byte_of_nat)
  moreover have "unat (drop_bit 6 ((ucast i :: u8) AND 0xc0)) = 0 \<and> (ucast i :: u8) AND 0x3f = ucast i"
    using length_bits_or \<open>unat i < 2 ^ 6\<close> u by simp
  ultimately show ?thesis
    by (simp add: ReadVarIntValue_def Let_def)
qed

lemma ReadVarIntValue_2:
  "unat b1 < 64 \<Longrightarrow> ReadVarIntValue (Reader d ((b1 OR 0x40) # b2 # t)) =
     (Inr (of_nat (unat b2 + unat b1 * 256), 2), Reader (b2 # (b1 OR 0x40) # d) t)"
  using length_bits_or [rule_format, of b1] by (simp add: ReadVarIntValue_def u64_of_byte_def push_bit_eq_mult)

lemma ReadVarIntValue_4:
  "unat b1 < 64 \<Longrightarrow> ReadVarIntValue (Reader d ((b1 OR 0x80) # b2 # b3 # b4 # t)) =
     (Inr (of_nat (unat b4 + unat b3 * 256 + unat b2 * 65536 + unat b1 * 16777216), 4),
      Reader (b4 # b3 # b2 # (b1 OR 0x80) # d) t)"
  using length_bits_or [rule_format, of b1]
  by (simp add: ReadVarIntValue_def u64_of_byte_def push_bit_eq_mult)

lemma ReadVarIntValue_8:
  "unat b1 < 64 \<Longrightarrow>
   ReadVarIntValue (Reader d ((b1 OR 0xc0) # b2 # b3 # b4 # b5 # b6 # b7 # b8 # t)) =
     (Inr (of_nat (unat b8 + unat b7 * 256 + unat b6 * 65536 + unat b5 * 16777216
        + unat b4 * 4294967296 + unat b3 * 1099511627776
        + unat b2 * 281474976710656 + unat b1 * 72057594037927936), 8),
      Reader (b8 # b7 # b6 # b5 # b4 # b3 # b2 # (b1 OR 0xc0) # d) t)"
  using length_bits_or [rule_format, of b1]
  by (simp add: ReadVarIntValue_def u64_of_byte_def push_bit_eq_mult)

lemma EncodeVarInt_total: "fits62 i \<Longrightarrow> \<exists>b. EncodeVarInt i = Inr b"
  by (simp add: EncodeVarInt_def fits62_iff)

lemma EncodeVarInt_panic: "\<not> fits62 i \<Longrightarrow> EncodeVarInt i = Inl (VarIntTooBig i)"
  by (simp add: EncodeVarInt_def fits62_def ranges)

lemma EncodeVarInt_fits: "EncodeVarInt i = Inr b \<Longrightarrow> fits62 i"
  by (rule ccontr) (simp add: EncodeVarInt_panic)

lemma u64_of_unat: "n = unat i \<Longrightarrow> (of_nat n :: u64) = i"
  by simp

lemma ReadVarIntValue_EncodeVarInt:
  assumes enc: "EncodeVarInt i = Inr b"
  shows "ReadVarIntValue (Reader d (b @ t)) = (Inr (i, length b), Reader (rev b @ d) t)"
proof -
  consider "unat i < 2 ^ 6" | "\<not> unat i < 2 ^ 6" "unat i < 2 ^ 14"
    | "\<not> unat i < 2 ^ 14" "unat i < 2 ^ 30" | "\<not> unat i < 2 ^ 30" "unat i < 2 ^ 62"
    using EncodeVarInt_fits [OF enc] unfolding fits62_def by blast
  then show ?thesis
  proof cases
    case 1
    then have "b = [ucast i]"
      using enc by (simp add: EncodeVarInt_def ranges)
    with 1 show ?thesis by (simp add: ReadVarIntValue_1)
  next
    case 2
    have b: "b = [byte_at i 8 OR 0x40, ucast i]"
      using enc 2 by (auto simp: EncodeVarInt_def ranges split: if_splits)
    have top: "unat i div 256 < 64" using 2 by simp
    then have "unat (byte_at i 8) < 64" by (simp add: unat_byte_at)
    moreover have "of_nat (unat (ucast i :: u8) + unat (byte_at i 8) * 256) = i"
      using bytes2_value [of "unat i"] top
      by (intro u64_of_unat) (simp only: unat_byte_at unat_eqs, simp)
    ultimately show ?thesis using b by (simp add: ReadVarIntValue_2)
  next
    case 3
    have b: "b = [byte_at i 24 OR 0x80, byte_at i 16, byte_at i 8, ucast i]"
      using enc 3 by (auto simp: EncodeVarInt_def ranges split: if_splits)
    have top: "unat i div 16777216 < 64" using 3 by simp
    then have "unat (byte_at i 24) < 64" by (simp add: unat_byte_at)
    moreover have "of_nat (unat (ucast i :: u8) + unat (byte_at i 8) * 256
        + unat (byte_at i 16) * 65536 + unat (byte_at i 24) * 16777216) = i"
      using bytes4_value [of "unat i"] top
      by (intro u64_of_unat) (simp only: unat_byte_at unat_eqs, simp)
    ultimately show ?thesis using b by (simp add: ReadVarIntValue_4)
  next
    case 4
    have b: "b = [byte_at i 56 OR 0xc0, byte_at i 48, byte_at i 40, byte_at i 32,
             byte_at i 24, byte_at i 16, byte_at i 8, ucast i]"
      using enc 4 by (auto simp: EncodeVarInt_def ranges split: if_splits)
    have top: "unat i div 72057594037927936 < 64" using 4 by simp
    then have "unat (byte_at i 56) < 64" by (simp add: unat_byte_at)
    moreover have "of_nat (unat (ucast i :: u8) + unat (byte_at i 8) * 256
        + unat (byte_at i 16) * 65536 + unat (byte_at i 24) * 16777216
        + unat (byte_at i 32) * 4294967296 + unat (byte_at i 40) * 1099511627776
        + unat (byte_at i 48) * 281474976710656
        + unat (byte_at i 56) * 72057594037927936) = i"
      using bytes8_value [of "unat i"] top
      by (intro u64_of_unat) (simp only: unat_byte_at unat_eqs, simp)
    ultimately show ?thesis using b by (simp add: ReadVarIntValue_8)
  qed
qed

lemma VarIntLen_EncodeVarInt: "EncodeVarInt i = Inr b \<Longrightarrow> VarIntLen i = Inr (length b)"
  by (auto simp: EncodeVarInt_def VarIntLen_def split: if_splits)

lemma VarIntLen_bounds: "VarIntLen i = Inr l \<Longrightarrow> 1 \<le> l \<and> l \<le> 8"
  by (auto simp: VarIntLen_def split: if_splits)

section \<open>What the reader can return\<close>

lemma ReadByte_Inr: "ReadByte r = (Inr b, r') \<longleftrightarrow> (\<exists>d t. r = Reader d (b # t) \<and> r' = Reader (b # d) t)"
  by (cases r rule: ReadByte.cases) auto

lemma ReadByte_Inl: "ReadByte r = (Inl e, r') \<longleftrightarrow> rd_rest r = [] \<and> e = EOF \<and> r' = r"
  by (cases r rule: ReadByte.cases) auto

lemma u64_sum_less62:
  fixes b1 b2 b3 b4 b5 b6 b7 b8 :: u8
  assumes "unat b1 < 64"
  shows "fits62 (of_nat (unat b8 + unat b7 * 256 + unat b6 * 65536 + unat b5 * 16777216
        + unat b4 * 4294967296 + unat b3 * 1099511627776
        + unat b2 * 281474976710656 + unat b1 * 72057594037927936))"
    (is "fits62 (of_nat ?n)")
proof -
  have "?n < 4611686018427387904"
    using assms u8_less [of b8] u8_less [of b7] u8_less [of b6] u8_less [of b5]
      u8_less [of b4] u8_less [of b3] u8_less [of b2] by linarith
  then show ?thesis by (simp add: fits62_def unat_of_nat del: of_nat_add)
qed

lemma first_byte_cases:
  fixes f :: u8
  obtains (one) b1 where "unat b1 < 64" "f = b1"
  | (two) b1 where "unat b1 < 64" "f = b1 OR 0x40"
  | (four) b1 where "unat b1 < 64" "f = b1 OR 0x80"
  | (eight) b1 where "unat b1 < 64" "f = b1 OR 0xc0"
proof -
  have "\<forall>f :: u8. f = f AND 0x3f \<or> f = (f AND 0x3f) OR 0x40 \<or> f = (f AND 0x3f) OR 0x80
    \<or> f = (f AND 0x3f) OR 0xc0" by code_simp
  then show ?thesis using low6_less that by metis
qed

lemma fits62_of_nat: "n < 4611686018427387904 \<Longrightarrow> fits62 (of_nat n)"
  by (simp add: fits62_def unat_of_nat)

text \<open>
  What a read does on every input: \<open>wire_len\<close> is the number of bytes the first byte asks for. With
  fewer bytes left everything is consumed and the error is \<^verbatim>\<open>io.EOF\<close>.
\<close>

definition wire_len :: "u8 \<Rightarrow> nat" where
  "wire_len f = push_bit (unat (drop_bit 6 (f AND 0xc0))) 1"

lemma wire_len_tags:
  "unat b1 < 64 \<Longrightarrow> wire_len b1 = 1 \<and> wire_len (b1 OR 0x40) = 2
     \<and> wire_len (b1 OR 0x80) = 4 \<and> wire_len (b1 OR 0xc0) = 8"
  using length_bits_or [rule_format, of b1] by (simp add: wire_len_def)

lemma ReadVarIntValue_short:
  assumes "length t + 1 < wire_len f"
  shows "ReadVarIntValue (Reader d (f # t)) = (Inl EOF, Reader (rev t @ f # d) [])"
proof (cases f rule: first_byte_cases)
  case (one b1)
  then show ?thesis using assms wire_len_tags [of b1] by simp
next
  case (two b1)
  then show ?thesis
    using assms wire_len_tags [of b1] length_bits_or [rule_format, of b1]
    by (auto simp: ReadVarIntValue_def)
next
  case (four b1)
  then have "length t < 3" using assms wire_len_tags [of b1] by simp
  then have "length t = 0 \<or> length t = 1 \<or> length t = 2" by linarith
  then show ?thesis
    using four length_bits_or [rule_format, of b1]
    by (auto simp: ReadVarIntValue_def length_Suc_conv numeral_2_eq_2)
next
  case (eight b1)
  then have "length t < 7" using assms wire_len_tags [of b1] by simp
  then have "length t = 0 \<or> length t = 1 \<or> length t = 2 \<or> length t = 3 \<or> length t = 4
    \<or> length t = 5 \<or> length t = 6" by linarith
  then show ?thesis
    using eight length_bits_or [rule_format, of b1]
    by (auto simp: ReadVarIntValue_def length_Suc_conv eval_nat_numeral)
qed

lemma advance_2: "advance 2 (Reader d (a # b # t)) = Reader (b # a # d) t"
  and advance_4: "advance 4 (Reader d (a # b # c # e # t)) = Reader (e # c # b # a # d) t"
  and advance_8: "advance 8 (Reader d (b1 # b2 # b3 # b4 # b5 # b6 # b7 # b8 # t)) =
    Reader (b8 # b7 # b6 # b5 # b4 # b3 # b2 # b1 # d) t"
  by (simp_all add: eval_nat_numeral)

lemma ReadVarIntValue_long:
  assumes "wire_len f \<le> length t + 1"
  shows "\<exists>v. ReadVarIntValue (Reader d (f # t)) = (Inr (v, wire_len f), advance (wire_len f) (Reader d (f # t)))
       \<and> fits62 v"
proof (cases f rule: first_byte_cases)
  case (one b1)
  then have "ReadVarIntValue (Reader d (f # t)) = (Inr (ucast f, 1), Reader (f # d) t)"
    using length_bits_or [rule_format, of b1] by (simp add: ReadVarIntValue_def)
  moreover have "fits62 (ucast f)" using one(1,2) by (simp add: fits62_def unat_eqs)
  ultimately show ?thesis using one wire_len_tags [of b1] by simp
next
  case (two b1)
  then obtain b2 t' where "t = b2 # t'"
    using assms wire_len_tags [of b1] by (cases t) auto
  moreover have "unat b2 + unat b1 * 256 < 4611686018427387904"
    using two(1) u8_less [of b2] by linarith
  ultimately show ?thesis using two wire_len_tags [of b1]
    by (simp add: ReadVarIntValue_2 fits62_of_nat advance_2 del: of_nat_add)
next
  case (four b1)
  then have "3 \<le> length t" using assms wire_len_tags [of b1] by simp
  then obtain b2 b3 b4 t' where t: "t = b2 # b3 # b4 # t'"
    by (auto simp: Suc_le_length_iff numeral_3_eq_3)
  have "unat b4 + unat b3 * 256 + unat b2 * 65536 + unat b1 * 16777216 < 4611686018427387904"
    using four(1) u8_less [of b2] u8_less [of b3] u8_less [of b4] by linarith
  then show ?thesis using four t wire_len_tags [of b1]
    by (simp add: ReadVarIntValue_4 fits62_of_nat advance_4 del: of_nat_add)
next
  case (eight b1)
  then have "7 \<le> length t" using assms wire_len_tags [of b1] by simp
  then obtain b2 b3 b4 b5 b6 b7 b8 t' where t: "t = b2 # b3 # b4 # b5 # b6 # b7 # b8 # t'"
    by (auto simp: Suc_le_length_iff eval_nat_numeral)
  have len: "wire_len f = 8" using eight wire_len_tags [of b1] by simp
  show ?thesis
    unfolding len t advance_8 using ReadVarIntValue_8 [OF eight(1), of d b2 b3 b4 b5 b6 b7 b8 t']
      u64_sum_less62 [OF eight(1)] eight(2) by auto
qed

lemma ReadVarIntValue_empty [simp]: "ReadVarIntValue (Reader d []) = (Inl EOF, Reader d [])"
  by (simp add: ReadVarIntValue_def)

lemma ReadVarIntValue_cases:
  obtains (eof) "rd_rest r = []" "ReadVarIntValue r = (Inl EOF, r)"
  | (short) d f t where "r = Reader d (f # t)" "length t + 1 < wire_len f"
      "ReadVarIntValue r = (Inl EOF, Reader (rev t @ f # d) [])"
  | (ok) d f t v where "r = Reader d (f # t)" "wire_len f \<le> length t + 1" "fits62 v"
      "ReadVarIntValue r = (Inr (v, wire_len f), advance (wire_len f) r)"
proof (cases r)
  case (Reader d t)
  show ?thesis
  proof (cases t)
    case Nil
    with Reader eof show ?thesis by simp
  next
    case (Cons f t')
    with Reader show ?thesis
      using short [of d f t'] ok [of d f t'] ReadVarIntValue_short [of t' f d]
        ReadVarIntValue_long [of f t' d] by (cases "wire_len f \<le> length t' + 1") force+
  qed
qed

lemma wire_len_range: "wire_len f \<in> {1, 2, 4, 8}"
  using length_bits_cases [rule_format, of f] by (auto simp: wire_len_def)

lemma ReadVarIntValue_fits: "ReadVarIntValue r = (Inr (v, l), r') \<Longrightarrow> fits62 v"
  by (cases r rule: ReadVarIntValue_cases) auto

lemma ReadVarIntValue_err: "ReadVarIntValue r = (Inl e, r') \<Longrightarrow> e = EOF \<and> rd_rest r' = []"
  by (cases r rule: ReadVarIntValue_cases) auto

lemma fits62_rd_var: "fits62 (fst (rd_var r))"
  by (cases r rule: ReadVarIntValue_cases) (auto simp: rd_var_def fits62_def)

section \<open>Facts for the formats built on variable-length integers\<close>

lemma rd_var_enc [codec_simps]:
  "EncodeVarInt i = Inr b \<Longrightarrow> rd_var (Reader d (b @ t)) = (i, Reader (rev b @ d) t)"
  by (simp add: rd_var_def ReadVarIntValue_EncodeVarInt)

lemma ReadVarInt_enc [codec_simps]:
  "EncodeVarInt i = Inr b \<Longrightarrow>
   ReadVarInt (Reader d (b @ t)) = (Inr \<lparr>vi_Value = i, vi_Length = length b\<rparr>, Reader (rev b @ d) t)"
  by (simp add: ReadVarInt_def ReadVarIntValue_EncodeVarInt)

lemma rd_VarInt_enc [codec_simps]:
  "EncodeVarInt i = Inr b \<Longrightarrow>
   rd_VarInt (Reader d (b @ t)) = (\<lparr>vi_Value = i, vi_Length = length b\<rparr>, Reader (rev b @ d) t)"
  by (simp add: rd_VarInt_def ReadVarInt_enc)

interpretation varint: wire_codec EncodeVarInt
  "\<lambda>r. case ReadVarIntValue r of (Inr (v, _), r') \<Rightarrow> Some (v, r') | _ \<Rightarrow> None" fits62
  by unfold_locales (auto simp: EncodeVarInt_total ReadVarIntValue_EncodeVarInt)

text \<open>A \<^verbatim>\<open>VarInt\<close> is well formed when its length field is the length of its encoding.\<close>

definition wf_VarInt :: "VarInt \<Rightarrow> bool" where
  "wf_VarInt v \<longleftrightarrow> VarIntLen (vi_Value v) = Inr (vi_Length v)"

lemma NewVarInt_wf: "NewVarInt i = Inr v \<Longrightarrow> wf_VarInt v \<and> vi_Value v = i"
  by (auto simp: NewVarInt_def wf_VarInt_def)

interpretation varint_struct: wire_codec VarInt_Encode
  "\<lambda>r. case ReadVarInt r of (Inr v, r') \<Rightarrow> Some (v, r') | _ \<Rightarrow> None" wf_VarInt
proof (unfold_locales, goal_cases)
  case (1 x)
  then show ?case
    by (auto simp: VarInt_Encode_def WriteVarInt_def wf_VarInt_def VarIntLen_def EncodeVarInt_def
        split: if_splits)
next
  case (2 x b d t)
  then show ?case
    using VarIntLen_EncodeVarInt [of "vi_Value x" b]
    by (simp add: VarInt_Encode_def WriteVarInt_def wf_VarInt_def ReadVarInt_enc)
qed

section \<open>Properties\<close>

text \<open>
  C29. A number below $2^{62}$ is written in 1, 2, 4 or 8 bytes, as many as \<^verbatim>\<open>VarIntLen\<close> says, and the reader
  returns that number and that length from them whatever stands before and behind; a larger number is
  refused by a panic of both writer and length function.
\<close>

theorem varint_roundtrip:
  "(fits62 i \<longrightarrow> (\<exists>b. EncodeVarInt i = Inr b \<and> length b \<in> {1, 2, 4, 8} \<and> VarIntLen i = Inr (length b) \<and>
      (\<forall>d t. ReadVarIntValue (Reader d (b @ t)) = (Inr (i, length b), Reader (rev b @ d) t)))) \<and>
   (\<not> fits62 i \<longrightarrow> EncodeVarInt i = Inl (VarIntTooBig i) \<and> VarIntLen i = Inl (VarIntTooBig i))"
proof -
  have "length b \<in> {1, 2, 4, 8}" if "EncodeVarInt i = Inr b" for b
    using that by (auto simp: EncodeVarInt_def split: if_splits)
  moreover have "VarIntLen i = Inl (VarIntTooBig i)" if "\<not> fits62 i"
    using that by (auto simp: VarIntLen_def fits62_def ranges)
  ultimately show ?thesis
    using EncodeVarInt_total EncodeVarInt_panic ReadVarIntValue_EncodeVarInt VarIntLen_EncodeVarInt
    by blast
qed

lemma varint_roundtrip_witness:
  "fits62 15293 \<and> EncodeVarInt 15293 = Inr [0x7b, 0xbd] \<and>
   ReadVarIntValue (Reader [] [0x7b, 0xbd, 7]) = (Inr (15293, 2), Reader [0xbd, 0x7b] [7])"
proof -
  have e: "EncodeVarInt 15293 = Inr [0x7b, 0xbd]"
    by code_simp
  moreover have "fits62 15293" by (simp add: fits62_def)
  ultimately show ?thesis
    using varint_roundtrip [of 15293] by (auto elim!: allE [of _ "[]"] allE [of _ "[7]"])
qed

text \<open>
  What \<^verbatim>\<open>ReadVarIntValue\<close> does on every input: an empty reader is left as it is with \<^verbatim>\<open>io.EOF\<close>; a first
  byte that announces more bytes than there are gives \<^verbatim>\<open>io.EOF\<close> and consumes everything; otherwise exactly
  the announced number of bytes is consumed and the value is below $2^{62}$.
\<close>

lemma varint_reader_total:
  "(case rd_rest r of
      [] \<Rightarrow> ReadVarIntValue r = (Inl EOF, r)
    | f # t \<Rightarrow>
        if length (f # t) < wire_len f then
          ReadVarIntValue r = (Inl EOF, advance (length (f # t)) r)
        else \<exists>v. ReadVarIntValue r = (Inr (v, wire_len f), advance (wire_len f) r) \<and> fits62 v)"
  by (cases r rule: ReadVarIntValue_cases) auto

text \<open>
  Concatenated encodings are unambiguous: two sequences of encodable numbers, of the same or of
  different length, that are written to the same bytes are equal.
\<close>

lemma enc_list_nonempty: "cat_res (map EncodeVarInt xs) = Inr [] \<Longrightarrow> xs = []"
  by (cases xs) (auto simp: EncodeVarInt_def split: if_splits)

lemma varint_sequences_unambiguous:
  "\<forall>x \<in> set xs \<union> set ys. fits62 x \<Longrightarrow>
   cat_res (map EncodeVarInt xs) = cat_res (map EncodeVarInt ys) \<Longrightarrow> xs = ys"
proof (induction xs arbitrary: ys)
  case Nil
  then show ?case using enc_list_nonempty [of ys] by simp
next
  case (Cons x xs)
  obtain b where b: "cat_res (map EncodeVarInt (x # xs)) = Inr b"
    using varint.enc_list_total [of "x # xs"] Cons.prems(1) by auto
  then obtain y zs where ys: "ys = y # zs"
    using Cons.prems(2) enc_list_nonempty [of "x # xs"] by (cases ys) auto
  have b': "cat_res (map EncodeVarInt (y # zs)) = Inr b"
    using b Cons.prems(2) unfolding ys by metis
  obtain b1 b2 c1 c2 where parts: "EncodeVarInt x = Inr b1" "cat_res (map EncodeVarInt xs) = Inr b2"
    "EncodeVarInt y = Inr c1" "cat_res (map EncodeVarInt zs) = Inr c2" "b1 @ b2 = c1 @ c2"
    using b b' by auto
  have fits: "fits62 x" "fits62 y" using Cons.prems(1) by (simp_all add: ys)
  obtain us where "b1 = c1 @ us \<or> c1 = b1 @ us"
    using parts(5) unfolding append_eq_append_conv2 by blast
  then have xy: "x = y"
  proof
    assume "b1 = c1 @ us"
    then show ?thesis using varint.prefix_free [OF fits(2,1) parts(3), of us] parts(1) by blast
  next
    assume "c1 = b1 @ us"
    then show ?thesis using varint.prefix_free [OF fits parts(1), of us] parts(3) by blast
  qed
  then have "b1 = c1" using parts(1,3) by simp
  then have "b2 = c2" using parts(5) by simp
  with Cons.IH [of zs] Cons.prems(1) parts(2,4) ys xy show ?case by simp
qed

lemma varint_sequences_unambiguous_witness:
  "cat_res (map EncodeVarInt [1, 2]) \<noteq> cat_res (map EncodeVarInt [0x102])"
  using varint_sequences_unambiguous [of "[1, 2]" "[0x102]"] by (auto simp: fits62_def)

end
