(* ===== verification/Numbers.thy ===== *)
theory Numbers
  imports VarInt
begin

text \<open>
  Packet numbers, packet number spaces, big-endian integers and connection identifiers, the rest of
  \<^verbatim>\<open>common.go\<close>. The main facts: a truncated packet number is long enough to tell a packet from
  every packet the peer has not acknowledged, it survives the wire, and joining it with the largest
  received packet number restores the original exactly when the two agree above the truncated
  bytes.
\<close>

section \<open>Definitions\<close>

subsection \<open>Big-endian integers\<close>

text \<open>\<^verbatim>\<open>binary.BigEndian.PutUint32\<close> and \<^verbatim>\<open>binary.BigEndian.Uint32\<close>.\<close>

definition PutUint32 :: "u32 \<Rightarrow> bytes" where
  "PutUint32 v = [ucast (drop_bit 24 v), ucast (drop_bit 16 v), ucast (drop_bit 8 v), ucast v]"

definition BE_Uint32 :: "bytes \<Rightarrow> u32" where
  "BE_Uint32 b = ucast (b ! 3) OR push_bit 8 (ucast (b ! 2)) OR push_bit 16 (ucast (b ! 1))
     OR push_bit 24 (ucast (b ! 0))"

definition Uint32ToBEBytes :: "u32 \<Rightarrow> bytes" where
  "Uint32ToBEBytes v = PutUint32 v"

definition Uint24ToBEBytes :: "u32 \<Rightarrow> bytes" where
  "Uint24ToBEBytes v = drop 1 (PutUint32 v)"

definition Uint16ToBEBytes :: "u16 \<Rightarrow> bytes" where
  "Uint16ToBEBytes v = [ucast (drop_bit 8 v), ucast v]"

subsection \<open>Packet numbers\<close>

type_synonym PacketNumber = u64

definition ReadPacketNumber :: "reader \<Rightarrow> PacketNumber \<times> reader" where
  "ReadPacketNumber r = rd_var r"

record TruncatedPN =
  tpn_Value :: u32
  tpn_Length :: nat

text \<open>
  \<open>int_Log2 x\<close> is \<^verbatim>\<open>int(math.Log2(float64(x)))\<close> for a positive \<open>x\<close> below $2^{32}$, where the floating
  point computation is exact enough to be the integer part of the logarithm. From $2^{32}$ on the
  result is at least 32, whatever the rounding, and the caller panics.
\<close>

fun int_Log2 :: "nat \<Rightarrow> nat" where
  "int_Log2 n = (if n \<le> 1 then 0 else Suc (int_Log2 (n div 2)))"

declare int_Log2.simps [simp del]

definition Truncate :: "PacketNumber \<Rightarrow> PacketNumber \<Rightarrow> TruncatedPN res" where
  "Truncate p largestAcknowledged =
     (if p < largestAcknowledged then Inl (PanicString ''PNs should be truncated with a lower PN'')
      else let x = p - largestAcknowledged + 1 in
       if x = 0 then Inl ImplementationSpecific
       else let len = int_Log2 (unat x) div 8 + 1 in
         if len > 4 then Inl PanicLength
         else Inr \<lparr>tpn_Value = ucast p AND drop_bit (8 * (4 - len)) 0xFFFFFFFF, tpn_Length = len\<rparr>)"

definition ReadTruncatedPN :: "reader \<Rightarrow> nat \<Rightarrow> TruncatedPN \<times> reader" where
  "ReadTruncatedPN r len =
     (case rd_Read (replicate len 0) r of (_, _, b, r') \<Rightarrow>
       (\<lparr>tpn_Value = BE_Uint32 (replicate (4 - len) 0 @ b), tpn_Length = len\<rparr>, r'))"

definition TruncatedPN_Encode :: "TruncatedPN \<Rightarrow> bytes" where
  "TruncatedPN_Encode t =
     (if tpn_Length t = 1 then [ucast (tpn_Value t)]
      else if tpn_Length t = 2 then Uint16ToBEBytes (ucast (tpn_Value t))
      else if tpn_Length t = 3 then Uint24ToBEBytes (tpn_Value t)
      else if tpn_Length t = 4 then Uint32ToBEBytes (tpn_Value t)
      else [])"

definition Join :: "TruncatedPN \<Rightarrow> PacketNumber \<Rightarrow> PacketNumber" where
  "Join t p = (p AND push_bit (tpn_Length t * 8) 0xFFFFFFFFFFFFFFFF) OR ucast (tpn_Value t)"

subsection \<open>Packet number spaces\<close>

text \<open>
  The constants of \<^verbatim>\<open>type PNSpace int\<close>. A Go map lookup of a missing key yields the zero value,
  which is \<open>PNSpaceInitial\<close>.
\<close>

datatype PNSpace = PNSpaceInitial | PNSpaceHandshake | PNSpaceAppData | PNSpaceNoSpace

fun PNSpace_String :: "PNSpace \<Rightarrow> string" where
  "PNSpace_String PNSpaceInitial = ''Initial''"
| "PNSpace_String PNSpaceHandshake = ''Handshake''"
| "PNSpace_String PNSpaceAppData = ''Application data''"
| "PNSpace_String PNSpaceNoSpace = []"

subsection \<open>Helpers and connection identifiers\<close>

definition go_Max :: "int \<Rightarrow> int \<Rightarrow> int" where
  "go_Max a b = (if a < b then b else a)"

definition go_Min :: "int \<Rightarrow> int \<Rightarrow> int" where
  "go_Min a b = (if a > b then b else a)"

definition go_min :: "u64 \<Rightarrow> u64 \<Rightarrow> u64" where
  "go_min a b = (if a < b then a else b)"

definition go_max :: "u64 \<Rightarrow> u64 \<Rightarrow> u64" where
  "go_max a b = (if a > b then a else b)"

type_synonym ConnectionID = bytes

definition CIDL :: "ConnectionID \<Rightarrow> u8" where
  "CIDL c = of_nat (length c)"

definition ConnectionID_WriteTo :: "ConnectionID \<Rightarrow> bytes" where
  "ConnectionID_WriteTo c = CIDL c # c"

section \<open>Big-endian round trips\<close>

lemma BE_PutUint32 [simp]: "BE_Uint32 (PutUint32 v) = v"
proof (rule bit_word_eqI)
  fix n assume "n < LENGTH(32)"
  then consider "n < 8" | "8 \<le> n" "n < 16" | "16 \<le> n" "n < 24" | "24 \<le> n" "n < 32" by fastforce
  then show "bit (BE_Uint32 (PutUint32 v)) n = bit v n"
    by cases (auto simp: BE_Uint32_def PutUint32_def bit_simps)
qed

lemma length_PutUint32 [simp]: "length (PutUint32 v) = 4"
  by (simp add: PutUint32_def)

section \<open>Truncation\<close>

lemma int_Log2_bounds: "0 < n \<Longrightarrow> 2 ^ int_Log2 n \<le> n \<and> n < 2 ^ Suc (int_Log2 n)"
proof (induction n rule: int_Log2.induct)
  case (1 n)
  show ?case
  proof (cases "n \<le> 1")
    case True
    with 1 show ?thesis by (simp add: int_Log2.simps [of n])
  next
    case False
    then have "2 ^ int_Log2 (n div 2) \<le> n div 2 \<and> n div 2 < 2 ^ Suc (int_Log2 (n div 2))"
      using 1 by simp
    with False show ?thesis by (simp add: int_Log2.simps [of n]) linarith
  qed
qed

text \<open>
  The length is the least number of bytes whose range exceeds the distance to the largest
  acknowledged packet.
\<close>

lemma Truncate_length:
  assumes "Truncate p la = Inr t"
  shows "tpn_Length t \<in> {1, 2, 3, 4}"
    and "unat p - unat la + 1 < 2 ^ (8 * tpn_Length t)"
    and "2 ^ (8 * (tpn_Length t - 1)) \<le> unat p - unat la + 1"
    and "la \<le> p"
proof -
  let ?x = "p - la + 1"
  let ?k = "int_Log2 (unat ?x)"
  have la: "la \<le> p" and x: "?x \<noteq> 0" and t: "tpn_Length t = ?k div 8 + 1" and le: "?k div 8 + 1 \<le> 4"
    using assms by (auto simp: Truncate_def Let_def split: if_splits)
  show "la \<le> p" by fact
  have ux: "unat ?x = unat p - unat la + 1"
    using la x unatSuc [of "p - la"] by (simp add: unat_sub add.commute)
  have b: "2 ^ ?k \<le> unat ?x \<and> unat ?x < 2 ^ Suc ?k"
    using x by (intro int_Log2_bounds) (simp add: unat_gt_0)
  have "?k < 8 * tpn_Length t" "8 * (tpn_Length t - 1) \<le> ?k" using t by auto
  then have "(2::nat) ^ Suc ?k \<le> 2 ^ (8 * tpn_Length t)" "(2::nat) ^ (8 * (tpn_Length t - 1)) \<le> 2 ^ ?k"
    by (intro power_increasing; simp)+
  with b ux show "unat p - unat la + 1 < 2 ^ (8 * tpn_Length t)"
    "2 ^ (8 * (tpn_Length t - 1)) \<le> unat p - unat la + 1"
    by linarith+
  show "tpn_Length t \<in> {1, 2, 3, 4}" using t le by auto
qed

lemma truncation_mask:
  "n \<in> {1, 2, 3, 4} \<Longrightarrow> drop_bit (8 * (4 - n)) (0xFFFFFFFF :: u32) = mask (8 * n)"
  by (auto simp: mask_eq_exp_minus_1)

lemma Truncate_value:
  assumes "Truncate p la = Inr t"
  shows "ucast (tpn_Value t) = take_bit (8 * tpn_Length t) p"
proof -
  let ?k = "8 * tpn_Length t"
  have len: "tpn_Length t \<in> {1, 2, 3, 4}" by (rule Truncate_length(1) [OF assms])
  have "tpn_Value t = ucast p AND drop_bit (8 * (4 - tpn_Length t)) 0xFFFFFFFF"
    using assms by (auto simp: Truncate_def Let_def split: if_splits)
  also have "\<dots> = take_bit ?k (ucast p)"
    unfolding truncation_mask [OF len] by (simp add: take_bit_eq_mask)
  finally have "tpn_Value t = take_bit ?k (ucast p)" .
  moreover have "?k \<le> 32" using len by auto
  ultimately show ?thesis
    by (auto intro!: bit_word_eqI simp: bit_simps)
qed

text \<open>
  Truncation succeeds exactly on the packet numbers at most $2^{32} - 2$ above the acknowledged one.
\<close>

lemma Truncate_total:
  assumes "la \<le> p" "unat p - unat la + 1 < 2 ^ 32"
  shows "\<exists>t. Truncate p la = Inr t"
proof -
  let ?x = "p - la + 1"
  have ux: "unat ?x = unat p - unat la + 1"
    using assms unat_add_u64 [of "p - la" 1] by (simp add: unat_sub)
  then have "(2::nat) ^ int_Log2 (unat ?x) < 2 ^ 32"
    using assms(2) int_Log2_bounds [of "unat ?x"] by linarith
  then have "int_Log2 (unat ?x) < 32"
    by (rule power_less_imp_less_exp [rotated]) simp
  then have "int_Log2 (unat ?x) div 8 + 1 \<le> 4" by simp
  moreover have "?x \<noteq> 0" using ux by (auto simp flip: unat_gt_0)
  ultimately show ?thesis using assms(1) by (simp add: Truncate_def Let_def)
qed

section \<open>The wire format of a truncated packet number\<close>

definition wf_TruncatedPN :: "TruncatedPN \<Rightarrow> bool" where
  "wf_TruncatedPN t \<longleftrightarrow> tpn_Length t \<in> {1, 2, 3, 4} \<and> unat (tpn_Value t) < 2 ^ (8 * tpn_Length t)"

lemma Truncate_wf: "Truncate p la = Inr t \<Longrightarrow> wf_TruncatedPN t"
proof -
  assume t: "Truncate p la = Inr t"
  have len: "tpn_Length t \<in> {1, 2, 3, 4}" by (rule Truncate_length(1) [OF t])
  have "unat (tpn_Value t) = unat (ucast (tpn_Value t) :: u64)"
    by (simp add: unat_eqs)
  also have "\<dots> = unat (take_bit (8 * tpn_Length t) p)"
    using Truncate_value [OF t] by simp
  also have "\<dots> < 2 ^ (8 * tpn_Length t)"
    by (simp add: unsigned_take_bit_eq)
  finally show ?thesis using len by (simp add: wf_TruncatedPN_def)
qed

text \<open>The bytes of the encoding are the low bytes of the big-endian value.\<close>

lemma TruncatedPN_Encode_drop:
  "wf_TruncatedPN t \<Longrightarrow> TruncatedPN_Encode t = drop (4 - tpn_Length t) (PutUint32 (tpn_Value t))"
  by (auto simp: wf_TruncatedPN_def TruncatedPN_Encode_def PutUint32_def Uint32ToBEBytes_def
      Uint24ToBEBytes_def Uint16ToBEBytes_def intro!: bit_word_eqI simp: bit_simps)

lemma length_TruncatedPN_Encode: "wf_TruncatedPN t \<Longrightarrow> length (TruncatedPN_Encode t) = tpn_Length t"
  by (auto simp: TruncatedPN_Encode_drop wf_TruncatedPN_def)

lemma high_bytes_zero:
  assumes "unat (v :: u32) < 2 ^ (8 * n)" "n \<in> {1, 2, 3, 4}"
  shows "take (4 - n) (PutUint32 v) = replicate (4 - n) 0"
proof -
  have z: "(ucast (drop_bit k v) :: u8) = 0" if "8 * n \<le> k" for k
  proof -
    have "unat v < 2 ^ k"
      using assms(1) that power_increasing [of "8 * n" k "2::nat"] by linarith
    then have "unat (drop_bit k v) = 0" by (simp add: unat_drop_bit)
    then show ?thesis by (simp add: unat_eq_0)
  qed
  show ?thesis using assms(2) z [of 24] z [of 16] z [of 8]
    by (auto simp: PutUint32_def eval_nat_numeral)
qed

lemma ReadTruncatedPN_Encode [codec_simps]:
  assumes "wf_TruncatedPN t"
  shows "ReadTruncatedPN (Reader d (TruncatedPN_Encode t @ u)) (tpn_Length t) =
    (t, Reader (rev (TruncatedPN_Encode t) @ d) u)"
proof -
  let ?n = "tpn_Length t" and ?e = "TruncatedPN_Encode t"
  have len: "length ?e = ?n" and n: "?n \<in> {1, 2, 3, 4}"
    using assms by (auto simp: length_TruncatedPN_Encode wf_TruncatedPN_def)
  have "replicate (4 - ?n) 0 @ ?e = take (4 - ?n) (PutUint32 (tpn_Value t)) @ drop (4 - ?n) (PutUint32 (tpn_Value t))"
    using assms n by (simp add: TruncatedPN_Encode_drop high_bytes_zero wf_TruncatedPN_def)
  then have "BE_Uint32 (replicate (4 - ?n) 0 @ ?e) = tpn_Value t" by simp
  moreover have "?e \<noteq> []" using len n by auto
  ultimately show ?thesis
    using len by (auto simp: ReadTruncatedPN_def rd_Read_def copy_bytes_def)
qed

section \<open>Joining a truncated packet number with the largest received one\<close>

lemma Join_bits:
  assumes "Truncate p la = Inr t"
  shows "bit (Join t q) n = (if n < 8 * tpn_Length t then bit p n else bit q n)"
proof -
  have m: "(0xFFFFFFFFFFFFFFFF :: u64) = - 1" by simp
  have "bit (push_bit (tpn_Length t * 8) (0xFFFFFFFFFFFFFFFF :: u64)) n
      \<longleftrightarrow> 8 * tpn_Length t \<le> n \<and> n < 64"
    unfolding m bit_push_bit_iff bit_minus_1_iff by (auto simp: mult.commute)
  moreover have "bit q n \<Longrightarrow> n < 64" "bit p n \<Longrightarrow> n < 64"
    using bit_imp_le_length by force+
  ultimately show ?thesis
    unfolding Join_def Truncate_value [OF assms] bit_or_iff bit_and_iff bit_take_bit_iff by auto
qed

lemma drop_bit_eq_iff:
  "drop_bit k (a :: u64) = drop_bit k b \<longleftrightarrow> (\<forall>n \<ge> k. bit a n = bit b n)" (is "?L \<longleftrightarrow> ?R")
proof
  assume ?L
  then have "bit a (k + m) = bit b (k + m)" for m
    by (metis bit_drop_bit_eq comp_apply)
  then show ?R by (metis le_add_diff_inverse)
next
  assume ?R
  then show ?L by (intro bit_word_eqI) (simp add: bit_drop_bit_eq del: drop_bit_eq_div)
qed

lemma Join_Truncate_iff:
  assumes "Truncate p la = Inr t"
  shows "Join t q = p \<longleftrightarrow> unat q div 2 ^ (8 * tpn_Length t) = unat p div 2 ^ (8 * tpn_Length t)"
    (is "_ \<longleftrightarrow> ?R")
proof -
  let ?k = "8 * tpn_Length t"
  have "?R \<longleftrightarrow> drop_bit ?k q = drop_bit ?k p"
    by (metis unat_drop_bit word_unat_eq_iff)
  also have "\<dots> \<longleftrightarrow> (\<forall>n \<ge> ?k. bit q n = bit p n)"
    by (rule drop_bit_eq_iff)
  also have "\<dots> \<longleftrightarrow> (\<forall>n. bit (Join t q) n = bit p n)"
    unfolding Join_bits [OF assms] by (auto simp: not_less)
  also have "\<dots> \<longleftrightarrow> Join t q = p"
    by (metis bit_eqI)
  finally show ?thesis by blast
qed

section \<open>Properties\<close>

text \<open>
  C30. A packet number that is at least the largest acknowledged one and at most $2^{32} - 2$ above it can be
  truncated. Its length is the least number of bytes whose range exceeds the distance, it survives the wire,
  and joining it with a packet number \<open>q\<close> gives the original exactly when the two agree above the truncated
  bytes. This is weaker than the window decoding of the QUIC specification.
\<close>

theorem packet_number_transport:
  assumes "la \<le> p" "unat p - unat la + 1 < 2 ^ 32"
  shows "\<exists>t. Truncate p la = Inr t \<and> tpn_Length t \<in> {1, 2, 3, 4} \<and>
     2 ^ (8 * (tpn_Length t - 1)) \<le> unat p - unat la + 1 \<and>
     unat p - unat la + 1 < 2 ^ (8 * tpn_Length t) \<and>
     (\<forall>d u. ReadTruncatedPN (Reader d (TruncatedPN_Encode t @ u)) (tpn_Length t) =
        (t, Reader (rev (TruncatedPN_Encode t) @ d) u)) \<and>
     (\<forall>q. Join t q = p \<longleftrightarrow> unat q div 2 ^ (8 * tpn_Length t) = unat p div 2 ^ (8 * tpn_Length t))"
proof -
  obtain t where t: "Truncate p la = Inr t" using Truncate_total [OF assms] ..
  show ?thesis
    using t Truncate_length [OF t] ReadTruncatedPN_Encode [OF Truncate_wf [OF t]] Join_Truncate_iff [OF t]
    by blast
qed

lemma packet_number_transport_witness:
  "\<exists>t. Truncate 0xac5c02 0xabe8b3 = Inr t \<and> tpn_Length t = 2 \<and>
     Join t 0xaca000 = 0xac5c02 \<and> Join t 0xabe8b3 \<noteq> 0xac5c02"
proof -
  have "(0xabe8b3 :: u64) \<le> 0xac5c02" "unat (0xac5c02 :: u64) - unat (0xabe8b3 :: u64) + 1 < 2 ^ 32"
    by simp_all
  from packet_number_transport [OF this] obtain t where t: "Truncate 0xac5c02 0xabe8b3 = Inr t"
    "tpn_Length t \<in> {1, 2, 3, 4}" "2 ^ (8 * (tpn_Length t - 1)) \<le> (29520 :: nat)"
    "(29520 :: nat) < 2 ^ (8 * tpn_Length t)"
    "\<forall>q. Join t q = 0xac5c02 \<longleftrightarrow> unat q div 2 ^ (8 * tpn_Length t) = 0xac5c02 div 2 ^ (8 * tpn_Length t)"
    by auto
  then have "tpn_Length t = 2" by auto
  with t show ?thesis by auto
qed

text \<open>
  The decoding of packet numbers is not the one the truncation was made for: when the packets up to 255
  have been acknowledged, and received, packet 256 is sent as one byte and decoded as packet 0.
\<close>

lemma join_loses_window:
  "\<exists>t. Truncate 256 255 = Inr t \<and> Join t 255 = 0"
proof -
  have "int_Log2 2 = 1" by (simp add: int_Log2.simps)
  then show ?thesis by (simp add: Truncate_def Join_def)
qed

end
