(* ===== verification/ByteIntervals.thy ===== *)
theory ByteIntervals
  imports Numbers
begin

text \<open>
  The list of gaps of a receive stream, \<^verbatim>\<open>byteInterval\<close> and \<^verbatim>\<open>byteIntervalList\<close> of \<^verbatim>\<open>streams.go\<close>,
  as operations on the sequence of intervals the list holds. The theory \<open>IntervalRing\<close> models the
  doubly linked ring underneath and shows that it computes these operations.

  A stream uses an interval \<^verbatim>\<open>{start, end}\<close> as the byte range from \<^verbatim>\<open>start\<close> up to but not including
  \<^verbatim>\<open>end\<close> (\<open>iv_set\<close>). The lemmas say what each operation does to the set of bytes: \<^verbatim>\<open>Merge\<close> under
  \<^verbatim>\<open>Overlap\<close>, \<^verbatim>\<open>ensureConsistency\<close> and \<^verbatim>\<open>Add\<close> are exact, \<^verbatim>\<open>Exclude\<close> is exact for just the
  positions characterised here.
\<close>

section \<open>Definitions\<close>

record byteInterval =
  iv_start :: u64
  iv_end :: u64

abbreviation iv :: "u64 \<Rightarrow> u64 \<Rightarrow> byteInterval" where
  "iv a b \<equiv> \<lparr>iv_start = a, iv_end = b\<rparr>"

definition In :: "byteInterval \<Rightarrow> u64 \<Rightarrow> bool" where
  "In b offset \<longleftrightarrow> iv_start b \<le> offset \<and> offset \<le> iv_end b"

definition IsBefore :: "byteInterval \<Rightarrow> byteInterval \<Rightarrow> bool" where
  "IsBefore b o' \<longleftrightarrow> iv_end b \<le> iv_start o'"

definition Overlap :: "byteInterval \<Rightarrow> byteInterval \<Rightarrow> bool" where
  "Overlap b o' \<longleftrightarrow>
     (iv_start o' \<le> iv_end b \<and> iv_end o' \<ge> iv_end b) \<or>
     (iv_start b \<le> iv_end o' \<and> iv_end b \<ge> iv_end o') \<or>
     (iv_start b \<le> iv_start o' \<and> iv_end b \<ge> iv_end o') \<or>
     (iv_start o' \<le> iv_start b \<and> iv_end o' \<ge> iv_end b)"

definition Merge :: "byteInterval \<Rightarrow> byteInterval \<Rightarrow> byteInterval" where
  "Merge b o' = iv (go_min (iv_start b) (iv_start o')) (go_max (iv_end b) (iv_end o'))"

definition Exclude :: "byteInterval \<Rightarrow> byteInterval \<Rightarrow> byteInterval list" where
  "Exclude b o' =
     (if iv_start o' > iv_start b \<and> iv_end o' < iv_end b then
        [iv (iv_start b) (iv_start o' - 1), iv (iv_end o' + 1) (iv_end b)]
      else if iv_start o' \<le> iv_start b \<and> iv_end o' < iv_end b then [iv (iv_end o') (iv_end b)]
      else if iv_end o' > iv_end b then [iv (iv_start b) (iv_start o')]
      else [])"

text \<open>
  The loop of \<^verbatim>\<open>ensureConsistency\<close>: \<open>p\<close> is the element before the cursor (\<^verbatim>\<open>nil\<close> at the start), the
  list is what the cursor has not passed. A merged element becomes the new \<open>p\<close>.
\<close>

fun consistency_loop :: "byteInterval option \<Rightarrow> byteInterval list \<Rightarrow> byteInterval list" where
  "consistency_loop None [] = []"
| "consistency_loop (Some p) [] = [p]"
| "consistency_loop None (n # ns) = consistency_loop (Some n) ns"
| "consistency_loop (Some p) (n # ns) =
     (if Overlap p n then consistency_loop (Some (Merge p n)) ns
      else p # consistency_loop (Some n) ns)"

definition ensureConsistency :: "byteInterval list \<Rightarrow> byteInterval list" where
  "ensureConsistency l = consistency_loop None l"

text \<open>The loop of \<^verbatim>\<open>Add\<close>: insert before the first element the interval lies before, else at the end.\<close>

fun add_loop :: "byteInterval \<Rightarrow> byteInterval list \<Rightarrow> byteInterval list" where
  "add_loop b [] = [b]"
| "add_loop b (n # ns) = (if IsBefore b n then b # n # ns else n # add_loop b ns)"

definition Add :: "byteInterval \<Rightarrow> byteInterval list \<Rightarrow> byteInterval list" where
  "Add b l = ensureConsistency (add_loop b l)"

text \<open>The loop of \<^verbatim>\<open>Fill\<close>: each element the interval overlaps is replaced by what \<^verbatim>\<open>Exclude\<close> leaves.\<close>

fun fill_loop :: "byteInterval \<Rightarrow> byteInterval list \<Rightarrow> byteInterval list" where
  "fill_loop b [] = []"
| "fill_loop b (n # ns) = (if Overlap b n then Exclude n b else [n]) @ fill_loop b ns"

definition Fill :: "byteInterval \<Rightarrow> byteInterval list \<Rightarrow> byteInterval list" where
  "Fill b l = ensureConsistency (fill_loop b l)"

section \<open>Bytes of an interval\<close>

definition iv_set :: "byteInterval \<Rightarrow> nat set" where
  "iv_set b = {unat (iv_start b) ..< unat (iv_end b)}"

definition gap_set :: "byteInterval list \<Rightarrow> nat set" where
  "gap_set l = (\<Union>b \<in> set l. iv_set b)"

lemma gap_set_simps [simp]:
  "gap_set [] = {}" "gap_set (b # l) = iv_set b \<union> gap_set l" "gap_set (l @ m) = gap_set l \<union> gap_set m"
  by (auto simp: gap_set_def)

definition iv_ok :: "byteInterval \<Rightarrow> bool" where
  "iv_ok b \<longleftrightarrow> iv_start b \<le> iv_end b"

lemmas iv_nat = word_le_nat_alt word_less_nat_alt go_min_def go_max_def

text \<open>Two intervals overlap, in the sense of the code, when they share a byte or touch.\<close>

lemma Overlap_iff:
  "iv_ok b \<Longrightarrow> iv_ok c \<Longrightarrow>
   Overlap b c \<longleftrightarrow> unat (iv_start b) \<le> unat (iv_end c) \<and> unat (iv_start c) \<le> unat (iv_end b)"
  by (auto simp: Overlap_def iv_ok_def iv_nat)

lemma Merge_set:
  assumes "iv_ok b" "iv_ok c" "Overlap b c"
  shows "iv_set (Merge b c) = iv_set b \<union> iv_set c"
  using assms(1,2) assms(3) [unfolded Overlap_iff [OF assms(1,2)]]
  by (auto simp: Merge_def iv_set_def iv_ok_def iv_nat)

lemma Merge_ok: "iv_ok b \<Longrightarrow> iv_ok c \<Longrightarrow> iv_ok (Merge b c)"
  by (auto simp: Merge_def iv_ok_def iv_nat)

lemma consistency_loop_set:
  "\<forall>b \<in> set l. iv_ok b \<Longrightarrow> (\<forall>q. p = Some q \<longrightarrow> iv_ok q) \<Longrightarrow>
   gap_set (consistency_loop p l) = (case p of None \<Rightarrow> {} | Some q \<Rightarrow> iv_set q) \<union> gap_set l
   \<and> (\<forall>b \<in> set (consistency_loop p l). iv_ok b)"
  by (induction p l rule: consistency_loop.induct) (auto simp: Merge_set Merge_ok)

lemma ensureConsistency_set:
  "\<forall>b \<in> set l. iv_ok b \<Longrightarrow> gap_set (ensureConsistency l) = gap_set l"
  using consistency_loop_set [of l None] by (simp add: ensureConsistency_def)

lemma ensureConsistency_ok:
  "\<forall>b \<in> set l. iv_ok b \<Longrightarrow> \<forall>b \<in> set (ensureConsistency l). iv_ok b"
  using consistency_loop_set [of l None] by (simp add: ensureConsistency_def)

lemma set_add_loop: "set (add_loop b l) = insert b (set l)"
  by (induction b l rule: add_loop.induct) auto

lemma Add_set:
  "iv_ok b \<Longrightarrow> \<forall>c \<in> set l. iv_ok c \<Longrightarrow> gap_set (Add b l) = iv_set b \<union> gap_set l"
  unfolding Add_def by (subst ensureConsistency_set) (auto simp: set_add_loop gap_set_def)

section \<open>When excluding is exact\<close>

text \<open>
  \<^verbatim>\<open>b.Exclude(o)\<close> is exact for an interval \<open>b\<close> with a byte that \<open>o\<close> (non-empty) overlaps just when \<open>o\<close>
  starts at or before \<open>b\<close>, or ends past \<open>b\<close>.
\<close>

lemma Exclude_exact:
  assumes "iv_start b < iv_end b" "iv_start c < iv_end c" "Overlap b c"
    and "iv_start c \<le> iv_start b \<or> iv_end b < iv_end c"
  shows "gap_set (Exclude b c) = iv_set b - iv_set c"
  using assms by (auto simp: Exclude_def iv_set_def Overlap_def iv_nat)

lemma Exclude_inexact:
  assumes "iv_start b < iv_end b" "iv_start c < iv_end c"
    and "iv_start b < iv_start c" "iv_end c \<le> iv_end b"
  shows "unat (iv_start c) - 1 \<in> iv_set b - iv_set c - gap_set (Exclude b c)"
proof -
  have "unat (iv_start c - 1) = unat (iv_start c) - 1"
    using assms(3) by (intro unat_minus_one) auto
  moreover have "unat (iv_end c + 1) = unat (iv_end c) + 1" if "iv_end c < iv_end b"
  proof -
    have "unat (iv_end c) + 1 < 18446744073709551616"
      using that u64_bound [of "iv_end b"] unfolding word_less_nat_alt by linarith
    then show ?thesis by (subst unat_add_u64) auto
  qed
  ultimately show ?thesis
    using assms by (auto simp: Exclude_def iv_set_def iv_nat)
qed

end
