(* ===== verification/IntervalRing.thy ===== *)
theory IntervalRing
  imports ByteIntervals
begin

text \<open>
  The doubly linked ring under \<^verbatim>\<open>byteIntervalList\<close> (\<^verbatim>\<open>streams.go\<close>), with the pointers made explicit.

  A heap maps addresses to elements. A list is known by the address of its sentinel \<^verbatim>\<open>root\<close>, which is
  the address of the list itself since \<^verbatim>\<open>root\<close> is its first field; \<open>None\<close> is \<^verbatim>\<open>nil\<close>. Following \<^verbatim>\<open>nil\<close>
  is the panic \<open>NilPointer\<close>. The loops are partial functions: \<open>None\<close> is a loop that does not end.

  \<open>ring h l xs\<close> says that the elements of list \<open>l\<close> are those at the addresses \<open>xs\<close>, in that order.
  Every operation keeps it, never meets a \<^verbatim>\<open>nil\<close> pointer, ends, and computes the operation of
  theory \<open>ByteIntervals\<close> on the sequence of values.
\<close>

section \<open>The heap\<close>

type_synonym addr = nat
type_synonym ptr = "addr option"

record byteIntervalElement =
  e_next :: ptr
  e_prev :: ptr
  e_list :: ptr
  e_Value :: byteInterval

record heap =
  elems :: "addr \<Rightarrow> byteIntervalElement"
  list_len :: "addr \<Rightarrow> int"
  fresh :: addr

definition zero_elem :: "byteInterval \<Rightarrow> byteIntervalElement" where
  "zero_elem v = \<lparr>e_next = None, e_prev = None, e_list = None, e_Value = v\<rparr>"

fun deref :: "heap \<Rightarrow> ptr \<Rightarrow> byteIntervalElement res" where
  "deref h None = Inl NilPointer"
| "deref h (Some a) = Inr (elems h a)"

fun put :: "ptr \<Rightarrow> (byteIntervalElement \<Rightarrow> byteIntervalElement) \<Rightarrow> heap \<Rightarrow> heap res" where
  "put None f h = Inl NilPointer"
| "put (Some a) f h = Inr (h\<lparr>elems := (elems h)(a := f (elems h a))\<rparr>)"

definition add_len :: "addr \<Rightarrow> int \<Rightarrow> heap \<Rightarrow> heap" where
  "add_len l k h = h\<lparr>list_len := (list_len h)(l := list_len h l + k)\<rparr>"

section \<open>Operations of one step\<close>

definition e_Next :: "heap \<Rightarrow> ptr \<Rightarrow> ptr res" where
  "e_Next h e = bind_res (deref h e) (\<lambda>x.
     Inr (if e_list x \<noteq> None \<and> e_next x \<noteq> e_list x then e_next x else None))"

definition e_Prev :: "heap \<Rightarrow> ptr \<Rightarrow> ptr res" where
  "e_Prev h e = bind_res (deref h e) (\<lambda>x.
     Inr (if e_list x \<noteq> None \<and> e_prev x \<noteq> e_list x then e_prev x else None))"

definition ring_Init :: "addr \<Rightarrow> heap \<Rightarrow> heap" where
  "ring_Init l h = h\<lparr>elems := (elems h)(l := (elems h l)\<lparr>e_next := Some l, e_prev := Some l\<rparr>),
                    list_len := (list_len h)(l := 0)\<rparr>"

definition alloc :: "byteInterval \<Rightarrow> heap \<Rightarrow> addr \<times> heap" where
  "alloc v h = (fresh h, h\<lparr>elems := (elems h)(fresh h := zero_elem v), fresh := fresh h + 1\<rparr>)"

definition NewbyteIntervalList :: "heap \<Rightarrow> addr \<times> heap" where
  "NewbyteIntervalList h =
     (case alloc (iv 0 0) h of (l, h') \<Rightarrow> (l, ring_Init l (h'\<lparr>list_len := (list_len h')(l := 0)\<rparr>)))"

definition ring_Len :: "addr \<Rightarrow> heap \<Rightarrow> int" where
  "ring_Len l h = list_len h l"

definition ring_Front :: "addr \<Rightarrow> heap \<Rightarrow> ptr" where
  "ring_Front l h = (if list_len h l = 0 then None else e_next (elems h l))"

definition ring_Back :: "addr \<Rightarrow> heap \<Rightarrow> ptr" where
  "ring_Back l h = (if list_len h l = 0 then None else e_prev (elems h l))"

definition lazyInit :: "addr \<Rightarrow> heap \<Rightarrow> heap" where
  "lazyInit l h = (if e_next (elems h l) = None then ring_Init l h else h)"

definition ring_insert :: "addr \<Rightarrow> ptr \<Rightarrow> ptr \<Rightarrow> heap \<Rightarrow> heap res" where
  "ring_insert l e at' h =
     bind_res (deref h at') (\<lambda>a. let n = e_next a in
     bind_res (put at' (e_next_update (\<lambda>_. e)) h) (\<lambda>h.
     bind_res (put e (e_prev_update (\<lambda>_. at')) h) (\<lambda>h.
     bind_res (put e (e_next_update (\<lambda>_. n)) h) (\<lambda>h.
     bind_res (put n (e_prev_update (\<lambda>_. e)) h) (\<lambda>h.
     bind_res (put e (e_list_update (\<lambda>_. Some l)) h) (\<lambda>h.
     Inr (add_len l 1 h)))))))"

definition insertValue :: "addr \<Rightarrow> byteInterval \<Rightarrow> ptr \<Rightarrow> heap \<Rightarrow> (ptr \<times> heap) res" where
  "insertValue l v at' h =
     (case alloc v h of (e, h) \<Rightarrow>
      bind_res (ring_insert l (Some e) at' h) (\<lambda>h. Inr (Some e, h)))"

definition ring_remove :: "addr \<Rightarrow> ptr \<Rightarrow> heap \<Rightarrow> heap res" where
  "ring_remove l e h =
     bind_res (deref h e) (\<lambda>x.
     bind_res (put (e_prev x) (e_next_update (\<lambda>_. e_next x)) h) (\<lambda>h.
     bind_res (deref h e) (\<lambda>x.
     bind_res (put (e_next x) (e_prev_update (\<lambda>_. e_prev x)) h) (\<lambda>h.
     bind_res (put e (e_next_update (\<lambda>_. None)) h) (\<lambda>h.
     bind_res (put e (e_prev_update (\<lambda>_. None)) h) (\<lambda>h.
     bind_res (put e (e_list_update (\<lambda>_. None)) h) (\<lambda>h.
     Inr (add_len l (- 1) h))))))))"

definition Remove :: "addr \<Rightarrow> ptr \<Rightarrow> heap \<Rightarrow> (byteInterval \<times> heap) res" where
  "Remove l e h =
     bind_res (deref h e) (\<lambda>x.
     bind_res (if e_list x = Some l then ring_remove l e h else Inr h) (\<lambda>h.
     bind_res (deref h e) (\<lambda>x. Inr (e_Value x, h))))"

definition PushFront :: "addr \<Rightarrow> byteInterval \<Rightarrow> heap \<Rightarrow> (ptr \<times> heap) res" where
  "PushFront l v h = insertValue l v (Some l) (lazyInit l h)"

definition PushBack :: "addr \<Rightarrow> byteInterval \<Rightarrow> heap \<Rightarrow> (ptr \<times> heap) res" where
  "PushBack l v h = (let h = lazyInit l h in insertValue l v (e_prev (elems h l)) h)"

definition InsertBefore :: "addr \<Rightarrow> byteInterval \<Rightarrow> ptr \<Rightarrow> heap \<Rightarrow> (ptr \<times> heap) res" where
  "InsertBefore l v mark h =
     bind_res (deref h mark) (\<lambda>m.
     if e_list m \<noteq> Some l then Inr (None, h) else insertValue l v (e_prev m) h)"

definition InsertAfter :: "addr \<Rightarrow> byteInterval \<Rightarrow> ptr \<Rightarrow> heap \<Rightarrow> (ptr \<times> heap) res" where
  "InsertAfter l v mark h =
     bind_res (deref h mark) (\<lambda>m.
     if e_list m \<noteq> Some l then Inr (None, h) else insertValue l v mark h)"

text \<open>
  The four moves. The call of \<^verbatim>\<open>remove\<close> is evaluated before the field that gives the new position is
  read, which is the order the compiler uses.
\<close>

definition MoveToFront :: "addr \<Rightarrow> ptr \<Rightarrow> heap \<Rightarrow> heap res" where
  "MoveToFront l e h =
     bind_res (deref h e) (\<lambda>x.
     if e_list x \<noteq> Some l \<or> e_next (elems h l) = e then Inr h
     else bind_res (ring_remove l e h) (\<lambda>h. ring_insert l e (Some l) h))"

definition MoveToBack :: "addr \<Rightarrow> ptr \<Rightarrow> heap \<Rightarrow> heap res" where
  "MoveToBack l e h =
     bind_res (deref h e) (\<lambda>x.
     if e_list x \<noteq> Some l \<or> e_prev (elems h l) = e then Inr h
     else bind_res (ring_remove l e h) (\<lambda>h. ring_insert l e (e_prev (elems h l)) h))"

definition MoveBefore :: "addr \<Rightarrow> ptr \<Rightarrow> ptr \<Rightarrow> heap \<Rightarrow> heap res" where
  "MoveBefore l e mark h =
     bind_res (deref h e) (\<lambda>x.
     if e_list x \<noteq> Some l \<or> e = mark then Inr h else
     bind_res (deref h mark) (\<lambda>m.
     if e_list m \<noteq> Some l then Inr h
     else bind_res (ring_remove l e h) (\<lambda>h. bind_res (deref h mark) (\<lambda>m.
          ring_insert l e (e_prev m) h))))"

definition MoveAfter :: "addr \<Rightarrow> ptr \<Rightarrow> ptr \<Rightarrow> heap \<Rightarrow> heap res" where
  "MoveAfter l e mark h =
     bind_res (deref h e) (\<lambda>x.
     if e_list x \<noteq> Some l \<or> e = mark then Inr h else
     bind_res (deref h mark) (\<lambda>m.
     if e_list m \<noteq> Some l then Inr h
     else bind_res (ring_remove l e h) (\<lambda>h. ring_insert l e mark h)))"

section \<open>Loops\<close>

text \<open>
  A loop returns \<open>None\<close> when it does not end. \<open>lift_loop m k\<close> continues a loop body after a step that
  may panic.
\<close>

fun lift_loop :: "'a res \<Rightarrow> ('a \<Rightarrow> 'b res option) \<Rightarrow> 'b res option" where
  "lift_loop (Inl p) k = Some (Inl p)"
| "lift_loop (Inr x) k = k x"

lemma lift_loop_mono [partial_function_mono]:
  assumes "\<And>x. mono_option (\<lambda>f. k f x)"
  shows "mono_option (\<lambda>f. lift_loop m (k f))"
  using assms by (cases m) (auto simp: monotone_def flat_ord_def fun_ord_def)

text \<open>\<^verbatim>\<open>PushBackList\<close> and \<^verbatim>\<open>PushFrontList\<close>: \<open>i\<close> counts the elements of \<^verbatim>\<open>other\<close> still to copy.\<close>

fun pushBack_loop :: "nat \<Rightarrow> addr \<Rightarrow> ptr \<Rightarrow> heap \<Rightarrow> heap res" where
  "pushBack_loop 0 l e h = Inr h"
| "pushBack_loop (Suc i) l e h =
     bind_res (deref h e) (\<lambda>x.
     bind_res (insertValue l (e_Value x) (e_prev (elems h l)) h) (\<lambda>(_, h).
     bind_res (e_Next h e) (\<lambda>e. pushBack_loop i l e h)))"

definition PushBackList :: "addr \<Rightarrow> addr \<Rightarrow> heap \<Rightarrow> heap res" where
  "PushBackList l other h =
     (let h = lazyInit l h
      in pushBack_loop (nat (ring_Len other h)) l (ring_Front other h) h)"

fun pushFront_loop :: "nat \<Rightarrow> addr \<Rightarrow> ptr \<Rightarrow> heap \<Rightarrow> heap res" where
  "pushFront_loop 0 l e h = Inr h"
| "pushFront_loop (Suc i) l e h =
     bind_res (deref h e) (\<lambda>x.
     bind_res (insertValue l (e_Value x) (Some l) h) (\<lambda>(_, h).
     bind_res (e_Prev h e) (\<lambda>e. pushFront_loop i l e h)))"

definition PushFrontList :: "addr \<Rightarrow> addr \<Rightarrow> heap \<Rightarrow> heap res" where
  "PushFrontList l other h =
     (let h = lazyInit l h
      in pushFront_loop (nat (ring_Len other h)) l (ring_Back other h) h)"

partial_function (option) ring_consistency_loop :: "addr \<Rightarrow> ptr \<Rightarrow> ptr \<Rightarrow> heap \<Rightarrow> heap res option" where
  "ring_consistency_loop l p n h =
     (if n = None then Some (Inr h)
      else lift_loop (deref h n) (\<lambda>nx.
        case p of
          None \<Rightarrow> lift_loop (e_Next h n) (\<lambda>n'. ring_consistency_loop l n n' h)
        | Some pa \<Rightarrow>
            if Overlap (e_Value (elems h pa)) (e_Value nx) then
              lift_loop (Remove l p h) (\<lambda>(_, h).
              lift_loop (InsertBefore l (Merge (e_Value (elems h pa)) (e_Value (elems h (the n)))) n h)
                (\<lambda>(p, h).
              lift_loop (Remove l n h) (\<lambda>(_, h).
              lift_loop (e_Next h p) (\<lambda>n. ring_consistency_loop l p n h))))
            else lift_loop (e_Next h n) (\<lambda>n'. ring_consistency_loop l n n' h)))"

definition ring_ensureConsistency :: "addr \<Rightarrow> heap \<Rightarrow> heap res option" where
  "ring_ensureConsistency l h = ring_consistency_loop l None (ring_Front l h) h"

partial_function (option) ring_add_loop ::
  "addr \<Rightarrow> byteInterval \<Rightarrow> ptr \<Rightarrow> heap \<Rightarrow> (ptr \<times> heap) res option" where
  "ring_add_loop l b n h =
     (if n = None then Some (Inr (None, h))
      else lift_loop (deref h n) (\<lambda>x.
        if IsBefore b (e_Value x) then
          lift_loop (InsertBefore l b n h) (\<lambda>(_, h). Some (Inr (n, h)))
        else lift_loop (e_Next h n) (\<lambda>n. ring_add_loop l b n h)))"

definition ring_Add :: "addr \<Rightarrow> byteInterval \<Rightarrow> heap \<Rightarrow> heap res option" where
  "ring_Add l b h =
     (let n = ring_Front l h in
      if n = None then
        lift_loop (PushFront l b h) (\<lambda>(_, h). ring_ensureConsistency l h)
      else
        (case ring_add_loop l b n h of
           None \<Rightarrow> None
         | Some m \<Rightarrow> lift_loop m (\<lambda>(n, h).
             if n = None then lift_loop (PushBack l b h) (\<lambda>(_, h). ring_ensureConsistency l h)
             else ring_ensureConsistency l h)))"

fun insert_all :: "addr \<Rightarrow> byteInterval list \<Rightarrow> ptr \<Rightarrow> heap \<Rightarrow> heap res" where
  "insert_all l [] n h = Inr h"
| "insert_all l (f # fs) n h =
     bind_res (InsertBefore l f n h) (\<lambda>(_, h). insert_all l fs n h)"

partial_function (option) ring_fill_loop ::
  "addr \<Rightarrow> byteInterval \<Rightarrow> ptr \<Rightarrow> heap \<Rightarrow> heap res option" where
  "ring_fill_loop l b n h =
     (if n = None then Some (Inr h)
      else lift_loop (deref h n) (\<lambda>x.
        if Overlap b (e_Value x) then
          lift_loop (insert_all l (Exclude (e_Value x) b) n h) (\<lambda>h.
          lift_loop (e_Next h n) (\<lambda>next.
          lift_loop (Remove l n h) (\<lambda>(_, h). ring_fill_loop l b next h)))
        else lift_loop (e_Next h n) (\<lambda>n. ring_fill_loop l b n h)))"

definition ring_Fill :: "addr \<Rightarrow> byteInterval \<Rightarrow> heap \<Rightarrow> heap res option" where
  "ring_Fill l b h =
     (case ring_fill_loop l b (ring_Front l h) h of
        None \<Rightarrow> None
      | Some m \<Rightarrow> lift_loop m (\<lambda>h. ring_ensureConsistency l h))"


section \<open>Chains of pointers\<close>

text \<open>\<open>lseg N P a xs b\<close>: the pointers \<open>N\<close> lead from \<open>a\<close> through \<open>xs\<close> to \<open>b\<close>, and \<open>P\<close> leads back.\<close>

fun lseg :: "(addr \<Rightarrow> ptr) \<Rightarrow> (addr \<Rightarrow> ptr) \<Rightarrow> addr \<Rightarrow> addr list \<Rightarrow> addr \<Rightarrow> bool" where
  "lseg N P a [] b \<longleftrightarrow> N a = Some b \<and> P b = Some a"
| "lseg N P a (x # xs) b \<longleftrightarrow> N a = Some x \<and> P x = Some a \<and> lseg N P x xs b"

lemma lseg_cong:
  "lseg N P a xs b \<Longrightarrow> \<forall>x \<in> set (a # xs). N' x = N x \<Longrightarrow> \<forall>x \<in> set (xs @ [b]). P' x = P x \<Longrightarrow>
   lseg N' P' a xs b"
  by (induction xs arbitrary: a) auto

lemma lseg_at:
  "lseg N P a (as @ bs) b \<Longrightarrow>
   N (last (a # as)) = Some (hd (bs @ [b])) \<and> P (hd (bs @ [b])) = Some (last (a # as))"
  by (induction as arbitrary: a) (cases bs; auto)+

lemma lseg_insert:
  "lseg N P a (as @ bs) b \<Longrightarrow> distinct (a # as @ bs) \<Longrightarrow> distinct (as @ bs @ [b]) \<Longrightarrow>
   e \<notin> set (a # b # as @ bs) \<Longrightarrow>
   lseg (N(last (a # as) := Some e, e := Some (hd (bs @ [b]))))
     (P(hd (bs @ [b]) := Some e, e := Some (last (a # as)))) a (as @ e # bs) b"
proof (induction as arbitrary: a)
  case Nil
  then show ?case by (cases bs) (auto elim!: lseg_cong)
next
  case (Cons x as)
  have x: "hd (bs @ [b]) \<noteq> x"
    using Cons.prems(3) by (cases bs) auto
  have n: "last (x # as) \<noteq> a"
    using Cons.prems(2) by (metis distinct.simps(2) last_in_set list.discI append_Cons Un_iff set_append)
  have "lseg N P x (as @ bs) b"
    using Cons.prems(1) by simp
  from Cons.IH [OF this] Cons.prems x n show ?case
    by (auto split: if_splits)
qed

lemma lseg_remove:
  "lseg N P a (as @ e # bs) b \<Longrightarrow> distinct (a # as @ e # bs) \<Longrightarrow> distinct (as @ e # bs @ [b]) \<Longrightarrow>
   lseg (N(last (a # as) := Some (hd (bs @ [b])), e := None))
     (P(hd (bs @ [b]) := Some (last (a # as)), e := None)) a (as @ bs) b"
proof (induction as arbitrary: a)
  case Nil
  then show ?case by (cases bs) (auto elim!: lseg_cong)
next
  case (Cons x as)
  have x: "hd (bs @ [b]) \<noteq> x"
    using Cons.prems(3) by (cases bs) auto
  have n: "last (x # as) \<noteq> a"
    using Cons.prems(2) by (metis distinct.simps(2) last_in_set list.discI append_Cons Un_iff set_append)
  have "lseg N P x (as @ e # bs) b"
    using Cons.prems(1) by simp
  from Cons.IH [OF this] Cons.prems x n show ?case
    by (auto split: if_splits)
qed

section \<open>The ring invariant\<close>

definition nxt :: "heap \<Rightarrow> addr \<Rightarrow> ptr" where "nxt h x = e_next (elems h x)"
definition prv :: "heap \<Rightarrow> addr \<Rightarrow> ptr" where "prv h x = e_prev (elems h x)"
definition own :: "heap \<Rightarrow> addr \<Rightarrow> ptr" where "own h x = e_list (elems h x)"
definition val :: "heap \<Rightarrow> addr \<Rightarrow> byteInterval" where "val h x = e_Value (elems h x)"

lemmas heap_sel = nxt_def prv_def own_def val_def

definition ring :: "heap \<Rightarrow> addr \<Rightarrow> addr list \<Rightarrow> bool" where
  "ring h l xs \<longleftrightarrow> distinct (l # xs) \<and> (\<forall>x \<in> set (l # xs). x < fresh h) \<and>
     lseg (nxt h) (prv h) l xs l \<and> (\<forall>x \<in> set xs. own h x = Some l) \<and> list_len h l = int (length xs)"

lemma ring_insert_spec:
  assumes "nxt h a = Some n" "e \<noteq> a" "e \<noteq> n"
  obtains h' where "ring_insert l (Some e) (Some a) h = Inr h'"
    and "nxt h' = (nxt h)(a := Some e, e := Some n)"
    and "prv h' = (prv h)(n := Some e, e := Some a)"
    and "own h' = (own h)(e := Some l)" and "val h' = val h"
    and "list_len h' = (list_len h)(l := list_len h l + 1)" and "fresh h' = fresh h"
  using assms by (fastforce simp: ring_insert_def add_len_def heap_sel fun_eq_iff)

lemma ring_remove_spec:
  assumes "nxt h e = Some n" "prv h e = Some p" "e \<noteq> n" "e \<noteq> p"
  obtains h' where "ring_remove l (Some e) h = Inr h'"
    and "nxt h' = (nxt h)(p := Some n, e := None)"
    and "prv h' = (prv h)(n := Some p, e := None)"
    and "own h' = (own h)(e := None)" and "val h' = val h"
    and "list_len h' = (list_len h)(l := list_len h l - 1)" and "fresh h' = fresh h"
  using assms by (fastforce simp: ring_remove_def add_len_def heap_sel fun_eq_iff)

lemma ring_insert_ring:
  assumes "ring h l (as @ bs)" "e \<notin> set (l # as @ bs)" "e < fresh h"
  obtains h' where "ring_insert l (Some e) (Some (last (l # as))) h = Inr h'"
    and "ring h' l (as @ e # bs)" and "val h' = val h" and "fresh h' = fresh h"
proof -
  let ?a = "last (l # as)" and ?n = "hd (bs @ [l])"
  have seg: "lseg (nxt h) (prv h) l (as @ bs) l" and dist: "distinct (l # as @ bs)"
    using assms(1) by (auto simp: ring_def)
  have "?a \<in> set (l # as)" "?n \<in> set (bs @ [l])"
    by (rule last_in_set, simp) (rule hd_in_set, simp)
  then have ne: "e \<noteq> ?a" "e \<noteq> ?n"
    using assms(2) by (auto simp del: last.simps)
  obtain h' where h': "ring_insert l (Some e) (Some ?a) h = Inr h'"
    "nxt h' = (nxt h)(?a := Some e, e := Some ?n)" "prv h' = (prv h)(?n := Some e, e := Some ?a)"
    "own h' = (own h)(e := Some l)" "val h' = val h"
    "list_len h' = (list_len h)(l := list_len h l + 1)" "fresh h' = fresh h"
    using ring_insert_spec [OF conjunct1 [OF lseg_at [OF seg]] ne] by metis
  have "lseg (nxt h') (prv h') l (as @ e # bs) l"
    unfolding h'(2,3) using dist assms(2) by (intro lseg_insert [OF seg]) auto
  then have "ring h' l (as @ e # bs)"
    using assms h' by (auto simp: ring_def)
  with h' show ?thesis using that by blast
qed

lemma ring_remove_ring:
  assumes "ring h l (as @ e # bs)"
  obtains h' where "ring_remove l (Some e) h = Inr h'"
    and "ring h' l (as @ bs)" and "val h' = val h" and "fresh h' = fresh h"
proof -
  let ?a = "last (l # as)" and ?n = "hd (bs @ [l])"
  have seg: "lseg (nxt h) (prv h) l (as @ e # bs) l" and dist: "distinct (l # as @ e # bs)"
    using assms(1) by (auto simp: ring_def)
  have "?a \<in> set (l # as)" "?n \<in> set (bs @ [l])"
    by (rule last_in_set, simp) (rule hd_in_set, simp)
  then have ne: "e \<noteq> ?n" "e \<noteq> ?a"
    using dist by (auto simp del: last.simps)
  have ptrs: "nxt h e = Some ?n" "prv h e = Some ?a"
    using lseg_at [OF seg] lseg_at [of "nxt h" "prv h" l "as @ [e]" bs l] seg by auto
  obtain h' where h': "ring_remove l (Some e) h = Inr h'"
    "nxt h' = (nxt h)(?a := Some ?n, e := None)" "prv h' = (prv h)(?n := Some ?a, e := None)"
    "own h' = (own h)(e := None)" "val h' = val h"
    "list_len h' = (list_len h)(l := list_len h l - 1)" "fresh h' = fresh h"
    using ring_remove_spec [OF ptrs ne] by metis
  have "lseg (nxt h') (prv h') l (as @ bs) l"
    unfolding h'(2,3) using dist by (intro lseg_remove [OF seg]) auto
  then have "ring h' l (as @ bs)"
    using assms h' by (auto simp: ring_def)
  with h' show ?thesis using that by blast
qed

section \<open>The operations on a ring\<close>

lemma ring_ptrs:
  assumes "ring h l (as @ x # bs)"
  shows "nxt h x = Some (hd (bs @ [l]))" "prv h x = Some (last (l # as))" "own h x = Some l"
    "x < fresh h" "x \<noteq> l"
  using assms lseg_at [of "nxt h" "prv h" l as "x # bs" l]
    lseg_at [of "nxt h" "prv h" l "as @ [x]" bs l]
  by (auto simp: ring_def)

lemma e_Next_ring:
  "ring h l (as @ x # bs) \<Longrightarrow> e_Next h (Some x) = Inr (case bs of [] \<Rightarrow> None | y # _ \<Rightarrow> Some y)"
  using ring_ptrs [of h l as x bs]
  by (cases bs) (auto simp: e_Next_def heap_sel ring_def)

lemma e_Prev_ring:
  assumes "ring h l (as @ x # bs)"
  shows "e_Prev h (Some x) = Inr (if as = [] then None else Some (last as))"
proof -
  have "last as \<noteq> l" if "as \<noteq> []"
    using last_in_set [OF that] assms by (auto simp: ring_def)
  then show ?thesis
    using ring_ptrs [OF assms] by (auto simp: e_Prev_def heap_sel)
qed

lemma ring_Front_ring:
  "ring h l xs \<Longrightarrow> ring_Front l h = (case xs of [] \<Rightarrow> None | x # _ \<Rightarrow> Some x)"
  by (cases xs) (auto simp: ring_def ring_Front_def nxt_def)

lemma ring_Back_ring:
  "ring h l xs \<Longrightarrow> ring_Back l h = (if xs = [] then None else Some (last xs))"
  using lseg_at [of "nxt h" "prv h" l xs "[]" l]
  by (auto simp: ring_def ring_Back_def prv_def)

lemma ring_Len_ring: "ring h l xs \<Longrightarrow> ring_Len l h = int (length xs)"
  by (simp add: ring_def ring_Len_def)

lemma lazyInit_ring: "ring h l xs \<Longrightarrow> lazyInit l h = h"
  by (cases xs) (auto simp: ring_def lazyInit_def nxt_def)

lemma NewbyteIntervalList_ring:
  "NewbyteIntervalList h = (l, h') \<Longrightarrow> ring h' l []"
  by (auto simp: NewbyteIntervalList_def alloc_def ring_Init_def ring_def heap_sel)

lemma ring_alloc:
  assumes "ring h l xs" "alloc v h = (e, h')"
  shows "ring h' l xs" "e \<notin> set (l # xs)" "e < fresh h'" "val h' = (val h)(e := v)" "e = fresh h"
    "fresh h' = Suc (fresh h)"
proof -
  have e: "e = fresh h" "h' = h\<lparr>elems := (elems h)(e := zero_elem v), fresh := fresh h + 1\<rparr>"
    using assms(2) by (auto simp: alloc_def)
  show n: "e \<notin> set (l # xs)"
    using assms(1) e by (auto simp: ring_def)
  have "lseg (nxt h') (prv h') l xs l"
    by (rule lseg_cong [of "nxt h" "prv h"]) (use assms(1) n e in \<open>auto simp: ring_def heap_sel\<close>)
  then show "ring h' l xs"
    using assms(1) n e by (auto simp: ring_def heap_sel less_Suc_eq)
qed (use assms(2) in \<open>auto simp: alloc_def val_def zero_elem_def fun_eq_iff\<close>)

text \<open>A new element with value \<open>v\<close> behind the first \<open>length as\<close> elements.\<close>

lemma insertValue_ring:
  assumes "ring h l (as @ bs)"
  obtains e h' where "insertValue l v (Some (last (l # as))) h = Inr (Some e, h')"
    and "ring h' l (as @ e # bs)" and "val h' = (val h)(e := v)" and "e \<notin> set (l # as @ bs)"
    and "e = fresh h" and "fresh h' = Suc (fresh h)"
proof -
  obtain e h1 where a: "alloc v h = (e, h1)" by (cases "alloc v h")
  note al = ring_alloc [OF assms a]
  obtain h' where "ring_insert l (Some e) (Some (last (l # as))) h1 = Inr h'"
    "ring h' l (as @ e # bs)" "val h' = val h1" "fresh h' = fresh h1"
    using ring_insert_ring [OF al(1-3)] by blast
  with a al that show ?thesis by (auto simp: insertValue_def)
qed

lemma InsertBefore_ring:
  assumes "ring h l (as @ x # bs)"
  obtains e h' where "InsertBefore l v (Some x) h = Inr (Some e, h')"
    and "ring h' l (as @ e # x # bs)" and "val h' = (val h)(e := v)" and "e \<notin> set (l # as @ x # bs)"
    and "e = fresh h" and "fresh h' = Suc (fresh h)"
  using insertValue_ring [OF assms, of v] ring_ptrs [OF assms]
  by (auto simp: InsertBefore_def heap_sel)

lemma InsertAfter_ring:
  assumes "ring h l (as @ x # bs)"
  obtains e h' where "InsertAfter l v (Some x) h = Inr (Some e, h')"
    and "ring h' l (as @ x # e # bs)" and "val h' = (val h)(e := v)" and "e \<notin> set (l # as @ x # bs)"
proof (rule insertValue_ring [of h l "as @ [x]" bs v])
qed (use assms ring_ptrs [OF assms] that in \<open>auto simp: InsertAfter_def heap_sel\<close>)

lemma PushFront_ring:
  assumes "ring h l xs"
  obtains e h' where "PushFront l v h = Inr (Some e, h')"
    and "ring h' l (e # xs)" and "val h' = (val h)(e := v)" and "e \<notin> set (l # xs)"
proof (rule insertValue_ring [of h l "[]" xs v])
qed (use assms lazyInit_ring [OF assms] that in \<open>auto simp: PushFront_def\<close>)

lemma PushBack_ring:
  assumes "ring h l xs"
  obtains e h' where "PushBack l v h = Inr (Some e, h')"
    and "ring h' l (xs @ [e])" and "val h' = (val h)(e := v)" and "e \<notin> set (l # xs)"
proof -
  have "prv h l = Some (last (l # xs))"
    using lseg_at [of "nxt h" "prv h" l xs "[]" l] assms by (simp add: ring_def)
  then show ?thesis
    using insertValue_ring [of h l xs "[]" v] assms lazyInit_ring [OF assms] that
    by (auto simp: PushBack_def prv_def)
qed

lemma Remove_ring:
  assumes "ring h l (as @ x # bs)"
  obtains h' where "Remove l (Some x) h = Inr (val h x, h')"
    and "ring h' l (as @ bs)" and "val h' = val h" and "fresh h' = fresh h"
  using ring_remove_ring [OF assms] ring_ptrs [OF assms]
  by (auto simp: Remove_def heap_sel fun_eq_iff elim!: allE [of _ x])

text \<open>The four moves keep the elements and put the moved one where they say.\<close>

lemma move_ring:
  assumes "ring h l xs" "xs = as @ x # bs" "as @ bs = cs @ ds"
  obtains h1 h' where "ring_remove l (Some x) h = Inr h1"
    and "ring h1 l (as @ bs)" and "ring_insert l (Some x) (Some (last (l # cs))) h1 = Inr h'"
    and "ring h' l (cs @ x # ds)" and "val h' = val h"
proof -
  obtain h1 where h1: "ring_remove l (Some x) h = Inr h1" "ring h1 l (as @ bs)" "val h1 = val h"
    "fresh h1 = fresh h"
    using ring_remove_ring [of h l as x bs] assms(1,2) by metis
  have "x \<notin> set (l # cs @ ds)" "x < fresh h1"
    using assms h1 by (auto simp: ring_def simp flip: assms(3))
  with ring_insert_ring [of h1 l cs ds x] h1 that assms(3) show ?thesis by metis
qed

lemma MoveToFront_ring:
  assumes "ring h l (as @ x # bs)"
  obtains h' where "MoveToFront l (Some x) h = Inr h'" "ring h' l (x # as @ bs)" "val h' = val h"
proof (cases "as = []")
  case True
  with assms ring_Front_ring [OF assms] that show ?thesis
    by (auto simp: MoveToFront_def ring_def nxt_def)
next
  case False
  then have "nxt h l \<noteq> Some x"
    using assms by (cases as) (auto simp: ring_def)
  then show ?thesis
    using move_ring [OF assms refl, of "[]" "as @ bs"] ring_ptrs [OF assms] that
    by (auto simp: MoveToFront_def heap_sel)
qed

lemma ring_root_prev:
  "ring h l xs \<Longrightarrow> e_prev (elems h l) = Some (last (l # xs))"
  using lseg_at [of "nxt h" "prv h" l xs "[]" l] by (simp add: ring_def prv_def)

lemma MoveToBack_ring:
  assumes "ring h l (as @ x # bs)"
  obtains h' where "MoveToBack l (Some x) h = Inr h'" "ring h' l (as @ bs @ [x])" "val h' = val h"
proof (cases "bs = []")
  case True
  with assms ring_root_prev [OF assms] ring_ptrs [OF assms] that show ?thesis
    by (auto simp: MoveToBack_def heap_sel)
next
  case False
  then have "last bs \<noteq> x"
    using assms last_in_set [OF False] by (auto simp: ring_def)
  then have "e_prev (elems h l) \<noteq> Some x"
    using ring_root_prev [OF assms] False by auto
  then show ?thesis
    using move_ring [OF assms refl, of "as @ bs" "[]"] ring_ptrs [OF assms] ring_root_prev that
    by (fastforce simp: MoveToBack_def heap_sel)
qed

lemma MoveBefore_ring:
  assumes "ring h l (as @ x # bs)" "as @ bs = cs @ m # ds"
  obtains h' where "MoveBefore l (Some x) (Some m) h = Inr h'" "ring h' l (cs @ x # m # ds)"
    "val h' = val h"
proof -
  have "m \<in> set (as @ bs)"
    unfolding assms(2) by simp
  then have "m \<noteq> x" "own h m = Some l"
    using assms(1) by (auto simp: ring_def)
  moreover obtain h1 h' where h': "ring_remove l (Some x) h = Inr h1" "ring h1 l (cs @ m # ds)"
    "ring_insert l (Some x) (Some (last (l # cs))) h1 = Inr h'" "ring h' l (cs @ x # m # ds)"
    "val h' = val h"
    using move_ring [OF assms(1) refl assms(2)] assms(2) by metis
  ultimately show ?thesis
    using ring_ptrs [OF assms(1)] ring_ptrs [OF h'(2)] that
    by (auto simp: MoveBefore_def heap_sel)
qed

lemma MoveAfter_ring:
  assumes "ring h l (as @ x # bs)" "as @ bs = cs @ m # ds"
  obtains h' where "MoveAfter l (Some x) (Some m) h = Inr h'" "ring h' l (cs @ m # x # ds)"
    "val h' = val h"
proof -
  have "m \<in> set (as @ bs)"
    unfolding assms(2) by simp
  then have "m \<noteq> x" "own h m = Some l"
    using assms(1) by (auto simp: ring_def)
  moreover obtain h1 h' where h': "ring_remove l (Some x) h = Inr h1"
    "ring_insert l (Some x) (Some (last (l # cs @ [m]))) h1 = Inr h'"
    "ring h' l ((cs @ [m]) @ x # ds)" "val h' = val h"
    using move_ring [OF assms(1) refl, of "cs @ [m]" ds] assms(2)
    by (metis append.assoc append_Cons append_Nil)
  ultimately show ?thesis
    using ring_ptrs [OF assms(1)] that
    by (auto simp: MoveAfter_def heap_sel)
qed

section \<open>The loops on a ring\<close>

definition cursor :: "addr list \<Rightarrow> ptr" where
  "cursor xs = (case xs of [] \<Rightarrow> None | x # _ \<Rightarrow> Some x)"

lemma cursor_simps [simp]: "cursor [] = None" "cursor (x # xs) = Some x"
  by (simp_all add: cursor_def)

lemmas cursor_ring = e_Next_ring [folded cursor_def] ring_Front_ring [folded cursor_def]

abbreviation vals :: "heap \<Rightarrow> addr list \<Rightarrow> byteInterval list" where
  "vals h xs \<equiv> map (val h) xs"

lemma ring_consistency_loop_step:
  assumes "ring h l (as @ pa # x # ns)" "Overlap (val h pa) (val h x)"
  obtains e h' where
    "ring_consistency_loop l (Some pa) (Some x) h = ring_consistency_loop l (Some e) (cursor ns) h'"
    "ring h' l (as @ e # ns)" "val h' = (val h)(e := Merge (val h pa) (val h x))"
    "e \<notin> set (as @ pa # x # ns)"
proof -
  obtain h1 where h1: "Remove l (Some pa) h = Inr (val h pa, h1)" "ring h1 l (as @ x # ns)"
    "val h1 = val h" "fresh h1 = fresh h"
    using Remove_ring [OF assms(1)] by metis
  obtain e h2 where h2: "InsertBefore l (Merge (val h pa) (val h x)) (Some x) h1 = Inr (Some e, h2)"
    "ring h2 l (as @ e # x # ns)" "val h2 = (val h1)(e := Merge (val h pa) (val h x))" "e = fresh h"
    using InsertBefore_ring [OF h1(2), of "Merge (val h pa) (val h x)"] h1(4) by metis
  obtain h3 where h3: "Remove l (Some x) h2 = Inr (val h2 x, h3)" "ring h3 l ((as @ [e]) @ ns)"
    "val h3 = val h2"
    using Remove_ring [of h2 l "as @ [e]" x ns] h2(2) by auto
  have next_e: "e_Next h3 (Some e) = Inr (cursor ns)"
    using cursor_ring(1) [of h3 l as e ns] h3(2) by simp
  have vs: "e_Value (elems h1 pa) = val h pa" "e_Value (elems h1 x) = val h x"
    "e_Value (elems h pa) = val h pa" "e_Value (elems h x) = val h x"
    using h1(3) by (auto simp: val_def fun_eq_iff)
  have "e \<notin> set (as @ pa # x # ns)"
    using assms(1) h2(4) by (auto simp: ring_def)
  moreover have "ring_consistency_loop l (Some pa) (Some x) h
      = ring_consistency_loop l (Some e) (cursor ns) h3"
    by (subst ring_consistency_loop.simps) (simp add: assms(2) h1(1) h2(1) h3(1) next_e vs)
  ultimately show ?thesis
    using that h1 h2 h3 by auto
qed

lemma ring_consistency_loop_Some:
  "ring h l (as @ pa # ns) \<Longrightarrow>
   \<exists>h' ys. ring_consistency_loop l (Some pa) (cursor ns) h = Some (Inr h') \<and> ring h' l (as @ ys) \<and>
     vals h' ys = consistency_loop (Some (val h pa)) (vals h ns) \<and> vals h' as = vals h as"
proof (induction ns arbitrary: as pa h)
  case Nil
  then show ?case
    by (auto simp: ring_consistency_loop.simps intro!: exI [of _ "[pa]"])
next
  case (Cons x ns)
  show ?case
  proof (cases "Overlap (val h pa) (val h x)")
    case True
    obtain e h' where e:
      "ring_consistency_loop l (Some pa) (Some x) h = ring_consistency_loop l (Some e) (cursor ns) h'"
      "ring h' l (as @ e # ns)" "val h' = (val h)(e := Merge (val h pa) (val h x))"
      "e \<notin> set (as @ pa # x # ns)"
      using ring_consistency_loop_step [OF Cons.prems True] by metis
    have "vals h' ns = vals h ns" "vals h' as = vals h as" "val h' e = Merge (val h pa) (val h x)"
      using e(3,4) by auto
    with Cons.IH [OF e(2)] True e(1) show ?thesis
      by (simp del: map_eq_conv)
  next
    case False
    have "e_Next h (Some x) = Inr (cursor ns)"
      using cursor_ring(1) [of h l "as @ [pa]" x ns] Cons.prems by simp
    then have "ring_consistency_loop l (Some pa) (Some x) h
        = ring_consistency_loop l (Some x) (cursor ns) h"
      using False by (subst ring_consistency_loop.simps) (simp add: val_def)
    moreover obtain h' ys where
      "ring_consistency_loop l (Some x) (cursor ns) h = Some (Inr h')"
      "ring h' l ((as @ [pa]) @ ys)" "vals h' ys = consistency_loop (Some (val h x)) (vals h ns)"
      "vals h' (as @ [pa]) = vals h (as @ [pa])"
      using Cons.IH [of h "as @ [pa]" x] Cons.prems by (auto simp del: map_eq_conv)
    ultimately show ?thesis
      using False by (auto simp del: map_eq_conv intro!: exI [of _ "pa # ys"])
  qed
qed

lemma ring_ensureConsistency_ring:
  assumes "ring h l xs"
  shows "\<exists>h' ys. ring_ensureConsistency l h = Some (Inr h') \<and> ring h' l ys \<and>
     vals h' ys = ensureConsistency (vals h xs)"
proof (cases xs)
  case Nil
  with assms show ?thesis
    by (auto simp: ring_ensureConsistency_def cursor_ring ensureConsistency_def
        ring_consistency_loop.simps)
next
  case (Cons x ns)
  have "e_Next h (Some x) = Inr (cursor ns)"
    using cursor_ring(1) [of h l "[]" x ns] assms Cons by simp
  then have "ring_ensureConsistency l h = ring_consistency_loop l (Some x) (cursor ns) h"
    using assms Cons
    by (simp add: ring_ensureConsistency_def cursor_ring ring_consistency_loop.simps [of l None])
  then show ?thesis
    using ring_consistency_loop_Some [of h l "[]" x ns] assms Cons
    by (simp add: ensureConsistency_def)
qed

lemma ring_add_loop_ring:
  "ring h l (as @ ns) \<Longrightarrow>
   (if \<exists>n \<in> set ns. IsBefore b (val h n)
    then \<exists>n h' ys. ring_add_loop l b (cursor ns) h = Some (Inr (Some n, h')) \<and> ring h' l (as @ ys) \<and>
           vals h' ys = add_loop b (vals h ns) \<and> vals h' as = vals h as
    else ring_add_loop l b (cursor ns) h = Some (Inr (None, h)) \<and> add_loop b (vals h ns) = vals h ns @ [b])"
proof (induction ns arbitrary: as)
  case Nil
  then show ?case by (simp add: ring_add_loop.simps)
next
  case (Cons x ns)
  show ?case
  proof (cases "IsBefore b (val h x)")
    case True
    obtain e h' where e: "InsertBefore l b (Some x) h = Inr (Some e, h')"
      "ring h' l (as @ e # x # ns)" "val h' = (val h)(e := b)" "e \<notin> set (l # as @ x # ns)"
      using InsertBefore_ring [OF Cons.prems, of b] by metis
    then have "vals h' (e # x # ns) = b # vals h (x # ns)" "vals h' as = vals h as"
      by auto
    with e True show ?thesis
      by (auto simp: ring_add_loop.simps [of l b "Some x"] val_def [symmetric] simp del: map_eq_conv
          intro!: exI [of _ "e # x # ns"])
  next
    case False
    have "e_Next h (Some x) = Inr (cursor ns)"
      using cursor_ring(1) [OF Cons.prems] .
    then have step: "ring_add_loop l b (Some x) h = ring_add_loop l b (cursor ns) h"
      using False by (subst ring_add_loop.simps) (simp add: val_def)
    from Cons.prems have "ring h l ((as @ [x]) @ ns)" by simp
    from Cons.IH [OF this] step False show ?thesis
      by (force simp: simp del: map_eq_conv split: if_splits)
  qed
qed

lemma ring_Add_ring:
  assumes "ring h l xs"
  shows "\<exists>h' ys. ring_Add l b h = Some (Inr h') \<and> ring h' l ys \<and> vals h' ys = Add b (vals h xs)"
proof (cases "\<exists>n \<in> set xs. IsBefore b (val h n)")
  case True
  then obtain n h1 ys where "ring_add_loop l b (cursor xs) h = Some (Inr (Some n, h1))"
    "ring h1 l ys" "vals h1 ys = add_loop b (vals h xs)"
    using ring_add_loop_ring [of h l "[]" xs b] assms by auto
  moreover have "ring_Front l h = cursor xs" "cursor xs \<noteq> None"
    using True cursor_ring(2) [OF assms] by (cases xs; auto)+
  ultimately show ?thesis
    using ring_ensureConsistency_ring [of h1 l ys] by (auto simp: ring_Add_def Add_def Let_def)
next
  case False
  then have loop: "ring_add_loop l b (cursor xs) h = Some (Inr (None, h))"
    "add_loop b (vals h xs) = vals h xs @ [b]"
    using ring_add_loop_ring [of h l "[]" xs b] assms by auto
  obtain e h1 where h1: "PushBack l b h = Inr (Some e, h1)" "ring h1 l (xs @ [e])"
    "val h1 = (val h)(e := b)" "e \<notin> set (l # xs)"
    using PushBack_ring [OF assms, of b] by metis
  obtain f h2 where h2: "PushFront l b h = Inr (Some f, h2)" "ring h2 l (f # xs)"
    "val h2 = (val h)(f := b)"
    using PushFront_ring [OF assms, of b] by metis
  have "vals h1 (xs @ [e]) = vals h xs @ [b]"
    using h1(3,4) by auto
  with loop h1 h2 ring_ensureConsistency_ring [OF h1(2)] ring_ensureConsistency_ring [OF h2(2)]
  show ?thesis
    by (cases xs) (auto simp: ring_Add_def Add_def cursor_ring(2) [OF assms] simp del: map_eq_conv)
qed

lemma insert_all_ring:
  "ring h l (as @ x # bs) \<Longrightarrow>
   \<exists>h' es. insert_all l fs (Some x) h = Inr h' \<and> ring h' l (as @ es @ x # bs) \<and> vals h' es = fs \<and>
     (\<forall>y \<in> set (as @ x # bs). val h' y = val h y)"
proof (induction fs arbitrary: as h)
  case Nil
  then show ?case by auto
next
  case (Cons f fs)
  obtain e h1 where e: "InsertBefore l f (Some x) h = Inr (Some e, h1)"
    "ring h1 l ((as @ [e]) @ x # bs)" "val h1 = (val h)(e := f)" "e \<notin> set (l # as @ x # bs)"
    using InsertBefore_ring [OF Cons.prems, of f] by (metis append.assoc append_Cons append_Nil)
  from Cons.IH [OF e(2)] obtain h' es where
    "insert_all l fs (Some x) h1 = Inr h'" "ring h' l ((as @ [e]) @ es @ x # bs)" "vals h' es = fs"
    "\<forall>y \<in> set ((as @ [e]) @ x # bs). val h' y = val h1 y"
    by blast
  with e show ?case
    by (auto intro!: exI [of _ "e # es"])
qed

lemma ring_fill_loop_ring:
  "ring h l (as @ ns) \<Longrightarrow>
   \<exists>h' ys. ring_fill_loop l b (cursor ns) h = Some (Inr h') \<and> ring h' l (as @ ys) \<and>
     vals h' ys = fill_loop b (vals h ns) \<and> (\<forall>y \<in> set as. val h' y = val h y)"
proof (induction ns arbitrary: as h)
  case Nil
  then show ?case by (auto simp: ring_fill_loop.simps)
next
  case (Cons x ns)
  show ?case
  proof (cases "Overlap b (val h x)")
    case True
    obtain h1 es where h1: "insert_all l (Exclude (val h x) b) (Some x) h = Inr h1"
      "ring h1 l ((as @ es) @ x # ns)" "vals h1 es = Exclude (val h x) b"
      "\<forall>y \<in> set (as @ x # ns). val h1 y = val h y"
      using insert_all_ring [OF Cons.prems, of "Exclude (val h x) b"] by auto
    obtain h2 where h2: "Remove l (Some x) h1 = Inr (val h1 x, h2)" "ring h2 l ((as @ es) @ ns)"
      "val h2 = val h1"
      using Remove_ring [OF h1(2)] by metis
    have "ring_fill_loop l b (Some x) h = ring_fill_loop l b (cursor ns) h2"
      using True h1(1) h2(1) cursor_ring(1) [OF h1(2)]
      by (subst ring_fill_loop.simps) (simp add: val_def [symmetric])
    moreover obtain h' ys where h': "ring_fill_loop l b (cursor ns) h2 = Some (Inr h')"
      "ring h' l ((as @ es) @ ys)" "vals h' ys = fill_loop b (vals h2 ns)"
      "\<forall>y \<in> set (as @ es). val h' y = val h2 y"
      using Cons.IH [OF h2(2)] by blast
    moreover have "vals h2 ns = vals h ns" "vals h' es = vals h1 es"
      using h1(4) h2(3) h'(4) by auto
    ultimately show ?thesis
      using True h1 h2 by (auto simp: simp del: map_eq_conv intro!: exI [of _ "es @ ys"])
  next
    case False
    have "e_Next h (Some x) = Inr (cursor ns)"
      using cursor_ring(1) [OF Cons.prems] .
    then have "ring_fill_loop l b (Some x) h = ring_fill_loop l b (cursor ns) h"
      using False by (subst ring_fill_loop.simps) (simp add: val_def)
    moreover obtain h' ys where "ring_fill_loop l b (cursor ns) h = Some (Inr h')"
      "ring h' l ((as @ [x]) @ ys)" "vals h' ys = fill_loop b (vals h ns)"
      "\<forall>y \<in> set (as @ [x]). val h' y = val h y"
      using Cons.IH [of h "as @ [x]"] Cons.prems by auto
    ultimately show ?thesis
      using False by (auto simp: simp del: map_eq_conv intro!: exI [of _ "x # ys"])
  qed
qed

lemma ring_Fill_ring:
  assumes "ring h l xs"
  shows "\<exists>h' ys. ring_Fill l b h = Some (Inr h') \<and> ring h' l ys \<and> vals h' ys = Fill b (vals h xs)"
proof -
  obtain h1 ys where "ring_fill_loop l b (cursor xs) h = Some (Inr h1)" "ring h1 l ys"
    "vals h1 ys = fill_loop b (vals h xs)"
    using ring_fill_loop_ring [of h l "[]" xs b] assms by auto
  with ring_ensureConsistency_ring [of h1 l ys] show ?thesis
    by (simp add: ring_Fill_def Fill_def cursor_ring(2) [OF assms])
qed

section \<open>The interface of a gap store\<close>

text \<open>
  What a stream relies on: the two operations end without a panic and act on the sequence of
  intervals as \<^verbatim>\<open>Add\<close> and \<^verbatim>\<open>Fill\<close> do. Any number of calls then does.
\<close>

datatype gap_op = AddOp byteInterval | FillOp byteInterval

fun run_ops :: "(byteInterval \<Rightarrow> 's \<Rightarrow> 's res option) \<Rightarrow> (byteInterval \<Rightarrow> 's \<Rightarrow> 's res option) \<Rightarrow>
    gap_op list \<Rightarrow> 's \<Rightarrow> 's res option" where
  "run_ops add fill [] s = Some (Inr s)"
| "run_ops add fill (AddOp b # ops) s =
     (case add b s of None \<Rightarrow> None | Some m \<Rightarrow> lift_loop m (run_ops add fill ops))"
| "run_ops add fill (FillOp b # ops) s =
     (case fill b s of None \<Rightarrow> None | Some m \<Rightarrow> lift_loop m (run_ops add fill ops))"

fun run_list :: "gap_op list \<Rightarrow> byteInterval list \<Rightarrow> byteInterval list" where
  "run_list [] l = l"
| "run_list (AddOp b # ops) l = run_list ops (Add b l)"
| "run_list (FillOp b # ops) l = run_list ops (Fill b l)"

locale gap_store =
  fixes Inv :: "'s \<Rightarrow> bool"
    and abs :: "'s \<Rightarrow> byteInterval list"
    and add :: "byteInterval \<Rightarrow> 's \<Rightarrow> 's res option"
    and fill :: "byteInterval \<Rightarrow> 's \<Rightarrow> 's res option"
  assumes add_ok: "Inv s \<Longrightarrow> \<exists>s'. add b s = Some (Inr s') \<and> Inv s' \<and> abs s' = Add b (abs s)"
    and fill_ok: "Inv s \<Longrightarrow> \<exists>s'. fill b s = Some (Inr s') \<and> Inv s' \<and> abs s' = Fill b (abs s)"
begin

lemma run_refines:
  "Inv s \<Longrightarrow> \<exists>s'. run_ops add fill ops s = Some (Inr s') \<and> Inv s' \<and> abs s' = run_list ops (abs s)"
proof (induction ops arbitrary: s)
  case (Cons x ops)
  show ?case
  proof (cases x)
    case (AddOp b)
    with add_ok [OF Cons.prems, of b] obtain s' where
      "add b s = Some (Inr s')" "Inv s'" "abs s' = Add b (abs s)" by blast
    with AddOp Cons.IH [of s'] show ?thesis by simp
  next
    case (FillOp b)
    with fill_ok [OF Cons.prems, of b] obtain s' where
      "fill b s = Some (Inr s')" "Inv s'" "abs s' = Fill b (abs s)" by blast
    with FillOp Cons.IH [of s'] show ?thesis by simp
  qed
qed simp

end

text \<open>The values of a list front to back, the traversal of \<^verbatim>\<open>Println\<close>.\<close>

fun walk :: "nat \<Rightarrow> heap \<Rightarrow> ptr \<Rightarrow> byteInterval list" where
  "walk (Suc k) h (Some x) =
     e_Value (elems h x) # (case e_Next h (Some x) of Inl _ \<Rightarrow> [] | Inr n \<Rightarrow> walk k h n)"
| "walk _ h _ = []"

definition ring_values :: "addr \<Rightarrow> heap \<Rightarrow> byteInterval list" where
  "ring_values l h = walk (nat (ring_Len l h)) h (ring_Front l h)"

lemma walk_ring: "ring h l (as @ xs) \<Longrightarrow> walk (length xs) h (cursor xs) = vals h xs"
proof (induction xs arbitrary: as)
  case (Cons x xs)
  then show ?case
    using Cons.IH [of "as @ [x]"] cursor_ring(1) [OF Cons.prems] by (simp add: val_def)
qed simp

lemma ring_values_ring: "ring h l xs \<Longrightarrow> ring_values l h = vals h xs"
  using walk_ring [of h l "[]" xs] by (simp add: ring_values_def ring_Len_ring cursor_ring(2))

interpretation ring_store: gap_store "\<lambda>h. \<exists>xs. ring h l xs" "ring_values l" "ring_Add l" "ring_Fill l"
  for l
proof
  fix s b
  assume "\<exists>xs. ring s l xs"
  then obtain xs where xs: "ring s l xs" ..
  show "\<exists>s'. ring_Add l b s = Some (Inr s') \<and> (\<exists>xs. ring s' l xs) \<and>
      ring_values l s' = Add b (ring_values l s)"
    using ring_Add_ring [OF xs, of b] ring_values_ring xs by metis
  show "\<exists>s'. ring_Fill l b s = Some (Inr s') \<and> (\<exists>xs. ring s' l xs) \<and>
      ring_values l s' = Fill b (ring_values l s)"
    using ring_Fill_ring [OF xs, of b] ring_values_ring xs by metis
qed

section \<open>Properties\<close>

text \<open>
  C4. On a list that \<^verbatim>\<open>NewbyteIntervalList\<close> made, in any heap, every sequence of calls of \<^verbatim>\<open>Add\<close> and
  \<^verbatim>\<open>Fill\<close> ends, follows no nil pointer, and leaves in the ring the intervals that the same calls
  compute on plain sequences.
\<close>

theorem gap_ring_refines:
  assumes "NewbyteIntervalList h = (l, h0)"
  shows "\<exists>h'. run_ops (ring_Add l) (ring_Fill l) ops h0 = Some (Inr h') \<and>
     ring_values l h' = run_list ops []"
proof -
  have r: "ring h0 l []" by (rule NewbyteIntervalList_ring [OF assms])
  then have "ring_values l h0 = []" using ring_values_ring by fastforce
  with ring_store.run_refines [of h0 l ops] r show ?thesis by auto
qed

definition empty_heap :: heap where
  "empty_heap = \<lparr>elems = (\<lambda>_. zero_elem (iv 0 0)), list_len = (\<lambda>_. 0), fresh = 0\<rparr>"

lemma gap_ring_refines_witness:
  "\<exists>h'. run_ops (ring_Add 0) (ring_Fill 0) [AddOp (iv 0 10), AddOp (iv 20 30), FillOp (iv 0 5)]
       (snd (NewbyteIntervalList empty_heap)) = Some (Inr h') \<and>
     ring_values 0 h' = [iv 5 10, iv 20 30]"
proof -
  have "NewbyteIntervalList empty_heap = (0, snd (NewbyteIntervalList empty_heap))"
    by (simp add: NewbyteIntervalList_def alloc_def empty_heap_def)
  from gap_ring_refines [OF this, of "[AddOp (iv 0 10), AddOp (iv 20 30), FillOp (iv 0 5)]"]
  show ?thesis
    by (simp add: Add_def Fill_def ensureConsistency_def IsBefore_def Overlap_def Exclude_def)
qed

end
