(* ===== verification/Streams.thy ===== *)
theory Streams
  imports IntervalRing
begin

text \<open>
  Streams: \<^verbatim>\<open>streams.go\<close> and the broadcaster wrapper of \<^verbatim>\<open>utils.go\<close>.

  A stream reassembles the data of STREAM and CRYPTO frames. The broadcaster it hands the data to
  is third-party code: the model keeps the sequence of what was submitted and whether the wrapper
  was closed. The gap list is used through its sequence of intervals, which theory
  \<open>IntervalRing\<close> shows the ring to implement.

  The main result is about \<^verbatim>\<open>addToRead\<close> (\<open>addToRead_inv\<close>): as long as retransmissions fill a gap
  from its start, or reach past its end, what has been handed to the reader is a prefix of
  the sender's data, no bytes are invented, the stream is closed at the final size and nothing is
  submitted afterwards. The other retransmissions break this, which the last section shows on concrete
  frames.
\<close>

section \<open>The broadcaster wrapper\<close>

record 'a Broadcaster =
  submitted :: "'a list"
  channels :: nat
  isClosed :: bool

definition NewBroadcaster :: "'a Broadcaster" where
  "NewBroadcaster = \<lparr>submitted = [], channels = 0, isClosed = False\<rparr>"

definition RegisterNewChan :: "'a Broadcaster \<Rightarrow> 'a Broadcaster" where
  "RegisterNewChan b = b\<lparr>channels := channels b + 1\<rparr>"

definition Submit :: "'a \<Rightarrow> 'a Broadcaster \<Rightarrow> 'a Broadcaster" where
  "Submit x b = b\<lparr>submitted := submitted b @ [x]\<rparr>"

definition Broadcaster_Close :: "'a Broadcaster \<Rightarrow> 'a Broadcaster" where
  "Broadcaster_Close b = (if isClosed b then b else b\<lparr>isClosed := True\<rparr>)"

section \<open>Stream identifiers\<close>

datatype StreamsType = BidiStreams | UniStreams

fun StreamsType_String :: "StreamsType \<Rightarrow> string" where
  "StreamsType_String BidiStreams = ''bidirectional streams''"
| "StreamsType_String UniStreams = ''unidirectional streams''"

definition IsBidi :: "u64 \<Rightarrow> bool" where "IsBidi streamId \<longleftrightarrow> streamId AND 2 = 0"
definition IsUni :: "u64 \<Rightarrow> bool" where "IsUni streamId \<longleftrightarrow> streamId AND 2 = 2"
definition IsClient :: "u64 \<Rightarrow> bool" where "IsClient streamId \<longleftrightarrow> streamId AND 1 = 0"
definition IsServer :: "u64 \<Rightarrow> bool" where "IsServer streamId \<longleftrightarrow> streamId AND 1 = 1"

definition IsBidiClient :: "u64 \<Rightarrow> bool" where "IsBidiClient i \<longleftrightarrow> IsBidi i \<and> IsClient i"
definition IsBidiServer :: "u64 \<Rightarrow> bool" where "IsBidiServer i \<longleftrightarrow> IsBidi i \<and> IsServer i"
definition IsUniClient :: "u64 \<Rightarrow> bool" where "IsUniClient i \<longleftrightarrow> IsUni i \<and> IsClient i"
definition IsUniServer :: "u64 \<Rightarrow> bool" where "IsUniServer i \<longleftrightarrow> IsUni i \<and> IsServer i"

definition GetMaxBidiClient :: "u64 \<Rightarrow> u64" where "GetMaxBidiClient limit = 0 + limit * 4"
definition GetMaxBidiServer :: "u64 \<Rightarrow> u64" where "GetMaxBidiServer limit = 1 + limit * 4"
definition GetMaxUniClient :: "u64 \<Rightarrow> u64" where "GetMaxUniClient limit = 2 + limit * 4"
definition GetMaxUniServer :: "u64 \<Rightarrow> u64" where "GetMaxUniServer limit = 3 + limit * 4"

section \<open>A stream\<close>

definition MaxUint64 :: u64 where
  "MaxUint64 = 18446744073709551615"

record StreamFrame =
  sf_FinBit :: bool
  sf_LenBit :: bool
  sf_OffBit :: bool
  sf_StreamId :: u64
  sf_Offset :: u64
  sf_Length :: u64
  sf_StreamData :: bytes

record Stream =
  ReadOffset :: u64
  WriteOffset :: u64
  ReadLimit :: u64
  ReadBufferOffset :: u64
  WriteLimit :: u64
  WriteReserved :: u64
  ReadData :: bytes
  WriteData :: bytes
  ReadChan :: "bytes Broadcaster"
  maxReadReceived :: u64
  gaps :: "byteInterval list"
  ReadClosed :: bool
  ReadCloseOffset :: u64
  WriteClosed :: bool
  WriteCloseOffset :: u64

definition NewStream :: Stream where
  "NewStream =
     \<lparr>ReadOffset = 0, WriteOffset = 0, ReadLimit = MaxUint64, ReadBufferOffset = 0,
      WriteLimit = MaxUint64, WriteReserved = 0, ReadData = [], WriteData = [],
      ReadChan = NewBroadcaster, maxReadReceived = 0, gaps = [],
      ReadClosed = False, ReadCloseOffset = MaxUint64,
      WriteClosed = False, WriteCloseOffset = MaxUint64\<rparr>"

text \<open>
  \<^verbatim>\<open>addToRead\<close>, in the order of the code: the two checks on the end of the stream, then one of the three
  branches for the data, then the closing of the stream. The slices of \<^verbatim>\<open>ReadData\<close> are checked
  against its length.
\<close>

definition deliver :: "Stream \<Rightarrow> Stream res" where
  "deliver s =
     (let firstGap = (case gaps s of [] \<Rightarrow> of_nat (length (ReadData s)) | b # _ \<Rightarrow> iv_start b)
      in if ReadOffset s < firstGap then
           (if unat firstGap \<le> length (ReadData s) then
              Inr (s\<lparr>ReadChan := Submit (take (unat firstGap - unat (ReadOffset s))
                                  (drop (unat (ReadOffset s)) (ReadData s))) (ReadChan s),
                     ReadOffset := firstGap\<rparr>)
            else Inl SliceBounds)
         else Inr s)"

definition add_data :: "StreamFrame \<Rightarrow> Stream \<Rightarrow> Stream res" where
  "add_data f s =
     (if sf_Offset f = ReadOffset s \<and> sf_Offset f = maxReadReceived s then
        (let s = s\<lparr>ReadOffset := ReadOffset s + sf_Length f\<rparr>;
             s = s\<lparr>maxReadReceived := ReadOffset s\<rparr>
         in if length (sf_StreamData f) > 0 then
              Inr (s\<lparr>ReadData := ReadData s @ sf_StreamData f,
                     ReadChan := Submit (sf_StreamData f) (ReadChan s)\<rparr>)
            else Inr s)
      else if sf_Offset f + sf_Length f > maxReadReceived s then
        (let s = (if maxReadReceived s < sf_Offset f
                  then s\<lparr>gaps := Add (iv (maxReadReceived s) (sf_Offset f)) (gaps s)\<rparr> else s);
             s = s\<lparr>maxReadReceived := sf_Offset f + sf_Length f\<rparr>
         in bind_res (make_bytes (unat (sf_Offset f) + length (sf_StreamData f))) (\<lambda>newSlice.
            let newSlice = copy_bytes newSlice (ReadData s);
                newSlice = take (unat (sf_Offset f)) newSlice @
                  copy_bytes (drop (unat (sf_Offset f)) newSlice) (sf_StreamData f)
            in Inr (s\<lparr>ReadData := newSlice\<rparr>)))
      else if length (sf_StreamData f) > 0 then
        (let s = s\<lparr>gaps := Fill (iv (sf_Offset f) (sf_Offset f + sf_Length f)) (gaps s)\<rparr>
         in if unat (sf_Offset f) \<le> length (ReadData s) then
              deliver (s\<lparr>ReadData := take (unat (sf_Offset f)) (ReadData s) @
                          copy_bytes (drop (unat (sf_Offset f)) (ReadData s)) (sf_StreamData f)\<rparr>)
            else Inl SliceBounds)
      else Inr s)"

definition close_read :: "Stream \<Rightarrow> Stream" where
  "close_read s =
     (if ReadOffset s = ReadCloseOffset s \<and> \<not> ReadClosed s
      then s\<lparr>ReadClosed := True, ReadChan := Broadcaster_Close (ReadChan s)\<rparr> else s)"

definition addToRead :: "StreamFrame \<Rightarrow> Stream \<Rightarrow> Stream res" where
  "addToRead f s =
     (if sf_Offset f > ReadCloseOffset s then Inr s
      else if sf_FinBit f \<and> ReadCloseOffset s \<noteq> MaxUint64 \<and>
              ReadCloseOffset s \<noteq> sf_Offset f + sf_Length f then Inr s
      else
        (let s = (if sf_FinBit f then s\<lparr>ReadCloseOffset := sf_Offset f + sf_Length f\<rparr> else s)
         in bind_res (add_data f s) (\<lambda>s. Inr (close_read s))))"

section \<open>The streams of a connection\<close>

record StreamInput =
  in_StreamId :: u64
  in_Data :: bytes
  in_Close :: bool
  in_Reset :: bool
  in_StopSending :: bool
  in_AppErrorCode :: u64

definition zero_StreamInput :: StreamInput where
  "zero_StreamInput = \<lparr>in_StreamId = 0, in_Data = [], in_Close = False, in_Reset = False,
     in_StopSending = False, in_AppErrorCode = 0\<rparr>"

text \<open>
  The map is an association list in order of first use; Go's map has no order, and only \<^verbatim>\<open>GetAll\<close>
  exposes one, to callers that do not depend on it.
\<close>

record Streams =
  streams :: "(u64 \<times> Stream) list"
  streams_input :: "StreamInput Broadcaster"

definition Streams_Has :: "u64 \<Rightarrow> Streams \<Rightarrow> Stream option" where
  "Streams_Has i s = map_of (streams s) i"

definition Streams_put :: "u64 \<Rightarrow> Stream \<Rightarrow> Streams \<Rightarrow> Streams" where
  "Streams_put i x s =
     s\<lparr>streams := (if map_of (streams s) i = None then streams s @ [(i, x)]
                  else map (\<lambda>(j, y). if j = i then (j, x) else (j, y)) (streams s))\<rparr>"

definition Streams_Get :: "u64 \<Rightarrow> Streams \<Rightarrow> Stream \<times> Streams" where
  "Streams_Get i s =
     (case Streams_Has i s of
        None \<Rightarrow> (NewStream, Streams_put i NewStream s)
      | Some x \<Rightarrow> (x, s))"

definition NumberOfServerStreamsOpen :: "Streams \<Rightarrow> nat" where
  "NumberOfServerStreamsOpen s = length (filter (\<lambda>(i, _). i mod 2 = 1) (streams s))"

definition Streams_submit :: "StreamInput \<Rightarrow> Streams \<Rightarrow> Streams" where
  "Streams_submit i s = s\<lparr>streams_input := Submit i (streams_input s)\<rparr>"

definition Streams_Close :: "u64 \<Rightarrow> Streams \<Rightarrow> Streams" where
  "Streams_Close i = Streams_submit (zero_StreamInput\<lparr>in_StreamId := i, in_Close := True\<rparr>)"

definition Streams_Reset :: "u64 \<Rightarrow> u64 \<Rightarrow> Streams \<Rightarrow> Streams" where
  "Streams_Reset i c =
     Streams_submit (zero_StreamInput\<lparr>in_StreamId := i, in_AppErrorCode := c, in_Reset := True\<rparr>)"

definition Streams_StopSending :: "u64 \<Rightarrow> u64 \<Rightarrow> Streams \<Rightarrow> Streams" where
  "Streams_StopSending i c =
     Streams_submit (zero_StreamInput\<lparr>in_StreamId := i, in_AppErrorCode := c, in_StopSending := True\<rparr>)"

definition Streams_Send :: "u64 \<Rightarrow> bytes \<Rightarrow> bool \<Rightarrow> Streams \<Rightarrow> Streams" where
  "Streams_Send i d c =
     Streams_submit (zero_StreamInput\<lparr>in_StreamId := i, in_Data := d, in_Close := c\<rparr>)"

type_synonym CryptoStreams = "PNSpace \<Rightarrow> Stream option"

definition CryptoStreams_Get :: "PNSpace \<Rightarrow> CryptoStreams \<Rightarrow> Stream \<times> CryptoStreams" where
  "CryptoStreams_Get p m =
     (case m p of None \<Rightarrow> (NewStream, m(p \<mapsto> NewStream)) | Some x \<Rightarrow> (x, m))"

text \<open>A frame for stream \<open>i\<close>: the stream is looked up or made, and takes the data.\<close>

definition Streams_add :: "u64 \<Rightarrow> StreamFrame \<Rightarrow> Streams \<Rightarrow> Streams res" where
  "Streams_add i f s =
     (case Streams_Get i s of (x, s) \<Rightarrow> bind_res (addToRead f x) (\<lambda>x. Inr (Streams_put i x s)))"

section \<open>Ordered gaps\<close>

text \<open>A list of non-empty gaps in ascending order, none overlapping the next.\<close>

definition gaps_ok :: "byteInterval list \<Rightarrow> bool" where
  "gaps_ok l \<longleftrightarrow> (\<forall>b \<in> set l. iv_start b < iv_end b) \<and> sorted_wrt (\<lambda>a b. iv_end a \<le> iv_start b) l"

lemma gaps_ok_Cons:
  "gaps_ok (b # l) \<longleftrightarrow> iv_start b < iv_end b \<and> (\<forall>c \<in> set l. iv_end b \<le> iv_start c) \<and> gaps_ok l"
  by (auto simp: gaps_ok_def)

lemma gaps_ok_Nil [simp]: "gaps_ok []"
  by (simp add: gaps_ok_def)

lemma gaps_ok_append:
  "gaps_ok (l @ m) \<longleftrightarrow> gaps_ok l \<and> gaps_ok m \<and> (\<forall>b \<in> set l. \<forall>c \<in> set m. iv_end b \<le> iv_start c)"
  by (auto simp: gaps_ok_def sorted_wrt_append)

lemma gaps_ok_iv_ok: "gaps_ok l \<Longrightarrow> \<forall>b \<in> set l. iv_ok b"
  by (auto simp: gaps_ok_def iv_ok_def)

lemma Merge_sorted:
  assumes "gaps_ok (p # n # ns)" "Overlap p n"
  shows "Merge p n = iv (iv_start p) (iv_end n)" "gaps_ok (iv (iv_start p) (iv_end n) # ns)"
  using assms by (auto simp: gaps_ok_Cons Merge_def go_min_def go_max_def)

lemma consistency_loop_sorted:
  "gaps_ok (p # ns) \<Longrightarrow>
   gaps_ok (consistency_loop (Some p) ns) \<and> consistency_loop (Some p) ns \<noteq> [] \<and>
   iv_start (hd (consistency_loop (Some p) ns)) = iv_start p \<and>
   (\<forall>b \<in> set (consistency_loop (Some p) ns). \<exists>c \<in> set (p # ns). iv_end b = iv_end c) \<and>
   (\<forall>b \<in> set (consistency_loop (Some p) ns). iv_start p \<le> iv_start b)"
proof (induction ns arbitrary: p)
  case (Cons n ns)
  show ?case
  proof (cases "Overlap p n")
    case True
    with Merge_sorted [OF Cons.prems True] Cons.IH [of "iv (iv_start p) (iv_end n)"] show ?thesis
      by auto
  next
    case False
    have n: "gaps_ok (n # ns)" "iv_start p < iv_end p" "iv_end p \<le> iv_start n"
      using Cons.prems by (auto simp: gaps_ok_Cons)
    with False Cons.IH [OF n(1)] show ?thesis
      by (auto simp: gaps_ok_Cons intro: order_trans less_imp_le)
  qed
qed (auto simp: gaps_ok_Cons)

lemma ensureConsistency_sorted:
  assumes "gaps_ok l"
  shows "gaps_ok (ensureConsistency l)" and "ensureConsistency l = [] \<longleftrightarrow> l = []"
    and "l \<noteq> [] \<Longrightarrow> iv_start (hd (ensureConsistency l)) = iv_start (hd l)"
    and "\<forall>b \<in> set (ensureConsistency l). \<exists>c \<in> set l. iv_end b = iv_end c"
    and "gap_set (ensureConsistency l) = gap_set l"
proof -
  have "gaps_ok (ensureConsistency l) \<and> (ensureConsistency l = [] \<longleftrightarrow> l = []) \<and>
    (l \<noteq> [] \<longrightarrow> iv_start (hd (ensureConsistency l)) = iv_start (hd l)) \<and>
    (\<forall>b \<in> set (ensureConsistency l). \<exists>c \<in> set l. iv_end b = iv_end c)"
  proof (cases l)
    case (Cons p ns)
    with consistency_loop_sorted [of p ns] assms show ?thesis
      unfolding ensureConsistency_def by simp
  qed (simp add: ensureConsistency_def)
  then show "gaps_ok (ensureConsistency l)" and "ensureConsistency l = [] \<longleftrightarrow> l = []"
    and "l \<noteq> [] \<Longrightarrow> iv_start (hd (ensureConsistency l)) = iv_start (hd l)"
    and "\<forall>b \<in> set (ensureConsistency l). \<exists>c \<in> set l. iv_end b = iv_end c"
    by blast+
  show "gap_set (ensureConsistency l) = gap_set l"
    by (rule ensureConsistency_set [OF gaps_ok_iv_ok [OF assms]])
qed

lemma add_loop_end: "\<forall>n \<in> set l. \<not> IsBefore b n \<Longrightarrow> add_loop b l = l @ [b]"
  by (induction b l rule: add_loop.induct) auto

text \<open>When a filling interval is exact on every gap of the list.\<close>

definition fills_from_start :: "byteInterval \<Rightarrow> byteInterval list \<Rightarrow> bool" where
  "fills_from_start c l \<longleftrightarrow>
     (\<forall>b \<in> set l. Overlap c b \<longrightarrow>
        iv_start c \<le> iv_start b \<and> iv_end c \<le> iv_end b \<or> iv_start b < iv_start c \<and> iv_end b < iv_end c)"

lemma Overlap_sym: "Overlap b c \<longleftrightarrow> Overlap c b"
  by (auto simp: Overlap_def)

lemma Exclude_sub:
  assumes "iv_start b < iv_end b" "iv_start c < iv_end c" "Overlap c b"
    "iv_start c \<le> iv_start b \<and> iv_end c \<le> iv_end b \<or> iv_start b < iv_start c \<and> iv_end b < iv_end c"
  shows "gaps_ok (Exclude b c)" "gap_set (Exclude b c) = iv_set b - iv_set c"
    "\<forall>x \<in> set (Exclude b c). iv_start b \<le> iv_start x \<and> iv_end x \<le> iv_end b"
proof -
  have "Overlap b c" using assms(3) by (simp add: Overlap_sym)
  then have o: "iv_start b \<le> iv_end c" "iv_start c \<le> iv_end b"
    using assms(1,2) by (auto simp: Overlap_iff [unfolded iv_ok_def] word_le_nat_alt word_less_nat_alt)
  show "gap_set (Exclude b c) = iv_set b - iv_set c"
  proof (cases "iv_end b = iv_end c")
    case True
    with assms show ?thesis by (auto simp: Exclude_def iv_set_def iv_nat)
  next
    case False
    with assms \<open>Overlap b c\<close> show ?thesis by (intro Exclude_exact) auto
  qed
  show "gaps_ok (Exclude b c)"
    using assms o by (auto simp: Exclude_def gaps_ok_Cons)
  show "\<forall>x \<in> set (Exclude b c). iv_start b \<le> iv_start x \<and> iv_end x \<le> iv_end b"
    using assms o by (auto simp: Exclude_def)
qed

lemma fill_loop_sorted:
  assumes "iv_start c < iv_end c"
  shows "gaps_ok l \<Longrightarrow> fills_from_start c l \<Longrightarrow>
    gaps_ok (fill_loop c l) \<and> gap_set (fill_loop c l) = gap_set l - iv_set c \<and>
    (\<forall>x \<in> set (fill_loop c l). \<exists>b \<in> set l. iv_start b \<le> iv_start x \<and> iv_end x \<le> iv_end b)"
proof (induction l)
  case (Cons n ns)
  have n: "iv_start n < iv_end n" "gaps_ok ns" "fills_from_start c ns"
    "\<forall>b \<in> set ns. iv_end n \<le> iv_start b"
    using Cons.prems by (auto simp: gaps_ok_Cons fills_from_start_def)
  note ih = Cons.IH [OF n(2,3)]
  show ?case
  proof (cases "Overlap c n")
    case True
    note ex = Exclude_sub [OF n(1) assms True]
    have "iv_start c \<le> iv_start n \<and> iv_end c \<le> iv_end n \<or> iv_start n < iv_start c \<and> iv_end n < iv_end c"
      using Cons.prems(2) True by (simp add: fills_from_start_def)
    note ex = ex [OF this]
    have "\<forall>x \<in> set (Exclude n c). \<forall>y \<in> set (fill_loop c ns). iv_end x \<le> iv_start y"
      using ex(3) ih n(4) by (meson order_trans)
    with ex ih n True show ?thesis
      by (auto simp: gaps_ok_append)
  next
    case False
    have "iv_set n \<inter> iv_set c = {}"
      using False Overlap_iff [of c n] n(1) assms by (auto simp: iv_ok_def iv_set_def iv_nat)
    moreover have "\<forall>y \<in> set (fill_loop c ns). iv_end n \<le> iv_start y"
      using ih n(4) by (meson order_trans)
    ultimately show ?thesis
      using ih n False by (auto simp: gaps_ok_Cons)
  qed
qed simp

lemma Fill_sorted:
  assumes "iv_start c < iv_end c" "gaps_ok l" "fills_from_start c l"
  shows "gaps_ok (Fill c l)" "gap_set (Fill c l) = gap_set l - iv_set c"
    "\<forall>x \<in> set (Fill c l). \<exists>b \<in> set l. iv_end x \<le> iv_end b"
  using fill_loop_sorted [OF assms] ensureConsistency_sorted [of "fill_loop c l"]
  unfolding Fill_def by metis+

lemma gaps_ok_hd_least: "gaps_ok (b # l) \<Longrightarrow> i \<in> gap_set (b # l) \<Longrightarrow> unat (iv_start b) \<le> i"
  by (force simp: gaps_ok_Cons gap_set_def iv_set_def iv_nat)

lemma gaps_ok_hd_in: "gaps_ok (b # l) \<Longrightarrow> unat (iv_start b) \<in> gap_set (b # l)"
  by (auto simp: gaps_ok_Cons iv_set_def iv_nat)

section \<open>Reassembly against the sender's data\<close>

text \<open>
  \<open>D i\<close> is the byte the sender put at offset \<open>i\<close>, \<open>F\<close> the final size of the stream. \<open>sent_by D F f\<close>: frame \<open>f\<close>
  carries a part of that data and the FIN bit only at its end.
\<close>

definition sent_by :: "(nat \<Rightarrow> u8) \<Rightarrow> u64 \<Rightarrow> StreamFrame \<Rightarrow> bool" where
  "sent_by D F f \<longleftrightarrow>
     sf_Length f = of_nat (length (sf_StreamData f)) \<and>
     unat (sf_Offset f) + length (sf_StreamData f) \<le> unat F \<and>
     (sf_FinBit f \<longrightarrow> unat (sf_Offset f) + length (sf_StreamData f) = unat F) \<and>
     sf_StreamData f = map D [unat (sf_Offset f) ..< unat (sf_Offset f) + length (sf_StreamData f)]"

definition data_inv :: "(nat \<Rightarrow> u8) \<Rightarrow> u64 \<Rightarrow> Stream \<Rightarrow> bool" where
  "data_inv D F s \<longleftrightarrow>
     length (ReadData s) = unat (maxReadReceived s) \<and> maxReadReceived s \<le> F \<and>
     ReadOffset s \<le> maxReadReceived s \<and> gaps_ok (gaps s) \<and>
     (\<forall>b \<in> set (gaps s). ReadOffset s \<le> iv_start b \<and> iv_end b \<le> maxReadReceived s) \<and>
     (\<forall>i < unat (maxReadReceived s). i \<notin> gap_set (gaps s) \<longrightarrow> ReadData s ! i = D i) \<and>
     concat (submitted (ReadChan s)) = map D [0 ..< unat (ReadOffset s)]"

definition close_inv :: "u64 \<Rightarrow> Stream \<Rightarrow> bool" where
  "close_inv F s \<longleftrightarrow>
     ReadCloseOffset s \<in> {MaxUint64, F} \<and> isClosed (ReadChan s) = ReadClosed s \<and>
     (ReadClosed s \<longleftrightarrow> ReadOffset s = ReadCloseOffset s)"

definition stream_inv :: "(nat \<Rightarrow> u8) \<Rightarrow> u64 \<Rightarrow> Stream \<Rightarrow> bool" where
  "stream_inv D F s \<longleftrightarrow> data_inv D F s \<and> close_inv F s"

text \<open>\<open>tight s\<close>: the read offset is at the first byte that has not been received.\<close>

definition tight :: "Stream \<Rightarrow> bool" where
  "tight s \<longleftrightarrow> ReadOffset s = (case gaps s of [] \<Rightarrow> maxReadReceived s | b # _ \<Rightarrow> iv_start b)"

text \<open>The retransmissions the gap list handles exactly.\<close>

definition refill_ok :: "StreamFrame \<Rightarrow> Stream \<Rightarrow> bool" where
  "refill_ok f s \<longleftrightarrow>
     (sf_Offset f + sf_Length f \<le> maxReadReceived s \<and> sf_StreamData f \<noteq> [] \<longrightarrow>
      fills_from_start (iv (sf_Offset f) (sf_Offset f + sf_Length f)) (gaps s))"

lemma sent_by_nat:
  assumes "sent_by D F f"
  shows "unat (sf_Length f) = length (sf_StreamData f)"
    and "unat (sf_Offset f + sf_Length f) = unat (sf_Offset f) + length (sf_StreamData f)"
proof -
  have b: "unat (sf_Offset f) + length (sf_StreamData f) < 18446744073709551616"
    using assms u64_bound [of F] unfolding sent_by_def by linarith
  have l: "sf_Length f = of_nat (length (sf_StreamData f))"
    using assms by (simp add: sent_by_def)
  show 1: "unat (sf_Length f) = length (sf_StreamData f)"
    unfolding l using b by simp
  then show "unat (sf_Offset f + sf_Length f) = unat (sf_Offset f) + length (sf_StreamData f)"
    using b by (subst unat_add_u64) auto
qed

lemma sent_by_nth:
  "sent_by D F f \<Longrightarrow> i < length (sf_StreamData f) \<Longrightarrow> sf_StreamData f ! i = D (unat (sf_Offset f) + i)"
  unfolding sent_by_def by (metis (no_types, lifting) add_less_cancel_left length_upt length_map nth_map nth_upt diff_add_inverse)

text \<open>The frames after which the read offset may stay behind: they start below the highest offset
  received so far and reach past it.\<close>

definition straddles :: "StreamFrame \<Rightarrow> Stream \<Rightarrow> bool" where
  "straddles f s \<longleftrightarrow> sf_Offset f < maxReadReceived s \<and>
     maxReadReceived s < sf_Offset f + sf_Length f"

text \<open>The bytes a frame covers, and the gaps as the set of bytes that have not been received.\<close>

definition frame_range :: "StreamFrame \<Rightarrow> nat set" where
  "frame_range f = {unat (sf_Offset f) ..< unat (sf_Offset f) + length (sf_StreamData f)}"

definition gaps_exact :: "nat set \<Rightarrow> Stream \<Rightarrow> bool" where
  "gaps_exact R s \<longleftrightarrow> R \<subseteq> {..< unat (maxReadReceived s)} \<and>
     gap_set (gaps s) = {..< unat (maxReadReceived s)} - R"

text \<open>What a frame does to the gaps, as sets of bytes, and to the highest offset.\<close>

definition grows :: "StreamFrame \<Rightarrow> Stream \<Rightarrow> Stream \<Rightarrow> bool" where
  "grows f s s' \<longleftrightarrow>
     gap_set (gaps s') =
       (gap_set (gaps s) \<union> {unat (maxReadReceived s) ..< unat (sf_Offset f)}) - frame_range f \<and>
     maxReadReceived s' = go_max (maxReadReceived s) (sf_Offset f + sf_Length f)"

lemma gaps_exact_add:
  assumes "gaps_exact R s" "sent_by D F f" "\<not> straddles f s" "grows f s s'"
  shows "gaps_exact (R \<union> frame_range f) s'"
  using assms sent_by_nat(2) [OF assms(2)]
  unfolding gaps_exact_def straddles_def frame_range_def go_max_def grows_def
  by (auto simp: word_less_nat_alt word_le_nat_alt)

lemma NewStream_inv: "F < MaxUint64 \<Longrightarrow> stream_inv D F NewStream"
  by (auto simp: stream_inv_def data_inv_def close_inv_def NewStream_def NewBroadcaster_def MaxUint64_def)

lemma add_data_in_order:
  assumes "data_inv D F s" "sent_by D F f"
    "sf_Offset f = ReadOffset s" "sf_Offset f = maxReadReceived s"
  shows "\<exists>s'. add_data f s = Inr s' \<and> data_inv D F s' \<and> tight s' \<and> grows f s s' \<and>
    ReadCloseOffset s' = ReadCloseOffset s \<and> ReadClosed s' = ReadClosed s \<and>
    isClosed (ReadChan s') = isClosed (ReadChan s)"
proof -
  note n = sent_by_nat [OF assms(2)]
  have g: "gaps s = []"
    using assms(1,3,4) by (cases "gaps s") (auto simp: data_inv_def gaps_ok_Cons)
  have d: "sf_StreamData f = map D [unat (sf_Offset f) ..< unat (sf_Offset f) + length (sf_StreamData f)]"
    using assms(2) by (simp add: sent_by_def)
  have r: "ReadData s = map D [0 ..< unat (sf_Offset f)]"
    using assms g by (auto simp: data_inv_def intro!: nth_equalityI)
  have u: "map D [0 ..< unat (sf_Offset f)] @ sf_StreamData f
      = map D [0 ..< unat (sf_Offset f) + length (sf_StreamData f)]"
    by (subst d) (simp add: upt_add_eq_append [of 0, simplified] flip: map_append)
  have le: "unat (sf_Offset f) + length (sf_StreamData f) \<le> unat F"
    using assms(2) by (simp add: sent_by_def)
  show ?thesis
  proof (cases "sf_StreamData f = []")
    case True
    then have "sf_Length f = 0" using assms(2) by (simp add: sent_by_def)
    with True assms g show ?thesis
      by (auto simp: add_data_def data_inv_def tight_def grows_def go_max_def)
  next
    case False
    let ?m = "sf_Offset f + sf_Length f"
    let ?s = "s\<lparr>ReadOffset := ?m, maxReadReceived := ?m, ReadData := ReadData s @ sf_StreamData f,
      ReadChan := Submit (sf_StreamData f) (ReadChan s)\<rparr>"
    have "add_data f s = Inr ?s"
      using assms(3,4) False by (simp add: add_data_def Let_def)
    moreover have "ReadData s @ sf_StreamData f = map D [0 ..< unat ?m]"
      using r u n(2) by simp
    moreover have "concat (submitted (ReadChan s)) = map D [0 ..< unat (sf_Offset f)]"
      using assms(1,3) by (simp add: data_inv_def)
    moreover have "grows f s ?s"
    proof -
      have "\<not> ?m < maxReadReceived s" using assms(4) n(2) by (simp add: word_less_nat_alt)
      then show ?thesis using g assms(4) by (auto simp: grows_def go_max_def)
    qed
    ultimately show ?thesis
      using g u n(2) le
      by (auto simp: data_inv_def tight_def Submit_def word_le_nat_alt simp del: map_append upt_Suc)
  qed
qed

text \<open>The slice \<^verbatim>\<open>newSlice\<close> of the second branch, and the overwritten slice of the third.\<close>

lemma nth_overwrite:
  "a \<le> length xs \<Longrightarrow> i < length xs \<Longrightarrow>
   (take a xs @ copy_bytes (drop a xs) d) ! i =
     (if a \<le> i \<and> i < a + length d then d ! (i - a) else xs ! i)"
  by (auto simp: nth_append nth_copy_bytes min_def)

lemma sorted_map_upt_split:
  "a \<le> b \<Longrightarrow> map D [0 ..< a] @ map D [a ..< b] = map D [0 ..< b]"
  by (metis map_append upt_add_eq_append le0 le_add_diff_inverse)

text \<open>A gap behind all others.\<close>

lemma Add_end:
  assumes "gaps_ok l" "\<forall>b \<in> set l. r \<le> iv_start b \<and> iv_end b \<le> m" "r \<le> m" "m < a"
  shows "gaps_ok (Add (iv m a) l)" "gap_set (Add (iv m a) l) = gap_set l \<union> {unat m ..< unat a}"
    and "\<forall>b \<in> set (Add (iv m a) l). r \<le> iv_start b \<and> iv_end b \<le> a"
    and "Add (iv m a) l \<noteq> []"
    and "iv_start (hd (Add (iv m a) l)) = (case l of [] \<Rightarrow> m | b # _ \<Rightarrow> iv_start b)"
proof -
  have "\<not> IsBefore (iv m a) b" if "b \<in> set l" for b
  proof -
    have "iv_start b < iv_end b" "iv_end b \<le> m"
      using that assms(1,2) by (auto simp: gaps_ok_def)
    with assms(4) show ?thesis by (simp add: IsBefore_def)
  qed
  then have add: "Add (iv m a) l = ensureConsistency (l @ [iv m a])"
    by (simp add: Add_def add_loop_end)
  have "gaps_ok (l @ [iv m a])"
    using assms by (auto simp: gaps_ok_append gaps_ok_Cons)
  note ec = ensureConsistency_sorted [OF this]
  show ok: "gaps_ok (Add (iv m a) l)" and "Add (iv m a) l \<noteq> []"
    and "iv_start (hd (Add (iv m a) l)) = (case l of [] \<Rightarrow> m | b # _ \<Rightarrow> iv_start b)"
    using ec(1-3) unfolding add by (auto split: list.splits)
  show set: "gap_set (Add (iv m a) l) = gap_set l \<union> {unat m ..< unat a}"
    using ec(5) unfolding add by (auto simp: iv_set_def)
  show "\<forall>b \<in> set (Add (iv m a) l). r \<le> iv_start b \<and> iv_end b \<le> a"
  proof (intro ballI conjI)
    fix b assume b: "b \<in> set (Add (iv m a) l)"
    have "iv_start b < iv_end b" using ok b by (auto simp: gaps_ok_def)
    then have "unat (iv_start b) \<in> gap_set (Add (iv m a) l)"
      using b by (auto simp: gap_set_def iv_set_def word_less_nat_alt intro!: bexI [of _ b])
    then show "r \<le> iv_start b"
      using assms(2,3) unfolding set by (auto simp: gap_set_def iv_set_def word_le_nat_alt)
    show "iv_end b \<le> a"
      using b ec(4) assms(2,4) unfolding add by (fastforce simp: word_le_nat_alt word_less_nat_alt)
  qed
qed

text \<open>The gap list after a frame that starts at \<open>a\<close> and ends past all bytes received so far.\<close>

definition beyond_gaps :: "u64 \<Rightarrow> Stream \<Rightarrow> byteInterval list" where
  "beyond_gaps a s = (if maxReadReceived s < a then Add (iv (maxReadReceived s) a) (gaps s) else gaps s)"

lemma beyond_gaps:
  assumes "data_inv D F s" "maxReadReceived s < e" "a \<le> e"
  shows "gaps_ok (beyond_gaps a s)"
    and "gap_set (beyond_gaps a s) = gap_set (gaps s) \<union> {unat (maxReadReceived s) ..< unat a}"
    and "\<forall>b \<in> set (beyond_gaps a s). ReadOffset s \<le> iv_start b \<and> iv_end b \<le> e"
proof -
  have inv: "gaps_ok (gaps s)" "ReadOffset s \<le> maxReadReceived s"
    "\<forall>b \<in> set (gaps s). ReadOffset s \<le> iv_start b \<and> iv_end b \<le> maxReadReceived s"
    using assms(1) by (auto simp: data_inv_def)
  note add = Add_end [OF inv(1,3,2)]
  show "gaps_ok (beyond_gaps a s)"
    using add(1) inv(1) by (simp add: beyond_gaps_def)
  show "gap_set (beyond_gaps a s) = gap_set (gaps s) \<union> {unat (maxReadReceived s) ..< unat a}"
    using add(2) by (auto simp: beyond_gaps_def word_less_nat_alt)
  show "\<forall>b \<in> set (beyond_gaps a s). ReadOffset s \<le> iv_start b \<and> iv_end b \<le> e"
    using add(3) inv(3) assms(2,3) unfolding beyond_gaps_def
    by (auto split: if_splits intro: order_trans less_imp_le)
qed

lemma beyond_gaps_tight:
  assumes "data_inv D F s" "tight s" "\<not> (gaps s = [] \<and> a < maxReadReceived s)"
    "\<not> (a = ReadOffset s \<and> a = maxReadReceived s)"
  shows "ReadOffset s = (case beyond_gaps a s of [] \<Rightarrow> m | b # _ \<Rightarrow> iv_start b)"
proof (cases "maxReadReceived s < a")
  case True
  have inv: "gaps_ok (gaps s)" "ReadOffset s \<le> maxReadReceived s"
    "\<forall>b \<in> set (gaps s). ReadOffset s \<le> iv_start b \<and> iv_end b \<le> maxReadReceived s"
    using assms(1) unfolding data_inv_def by blast+
  have "beyond_gaps a s \<noteq> []" "iv_start (hd (beyond_gaps a s)) = ReadOffset s"
    using Add_end(4,5) [OF inv(1,3,2) True] True assms(2) by (simp_all add: tight_def beyond_gaps_def)
  then show ?thesis by (cases "beyond_gaps a s") auto
next
  case False
  then have "gaps s \<noteq> []" using assms(2-4) by (auto simp: tight_def)
  then show ?thesis using False assms(2) by (cases "gaps s") (auto simp: tight_def beyond_gaps_def)
qed

lemma add_data_beyond:
  assumes "data_inv D F s" "sent_by D F f" "unat F \<le> maxAlloc"
    "\<not> (sf_Offset f = ReadOffset s \<and> sf_Offset f = maxReadReceived s)"
    "sf_Offset f + sf_Length f > maxReadReceived s"
  shows "\<exists>s'. add_data f s = Inr s' \<and> data_inv D F s' \<and>
    (\<not> straddles f s \<longrightarrow> grows f s s' \<and> (tight s \<longrightarrow> tight s')) \<and>
    ReadOffset s' = ReadOffset s \<and>
    ReadCloseOffset s' = ReadCloseOffset s \<and> ReadClosed s' = ReadClosed s \<and>
    ReadChan s' = ReadChan s"
proof -
  let ?a = "unat (sf_Offset f)" and ?d = "sf_StreamData f" and ?m = "unat (maxReadReceived s)"
  let ?z = "copy_bytes (replicate (?a + length ?d) 0) (ReadData s)"
  let ?r = "take ?a ?z @ copy_bytes (drop ?a ?z) ?d"
  let ?s = "s\<lparr>gaps := beyond_gaps (sf_Offset f) s, maxReadReceived := sf_Offset f + sf_Length f,
              ReadData := ?r\<rparr>"
  note n = sent_by_nat [OF assms(2)]
  have inv: "length (ReadData s) = ?m"
    "\<forall>i < ?m. i \<notin> gap_set (gaps s) \<longrightarrow> ReadData s ! i = D i"
    using assms(1) by (auto simp: data_inv_def)
  have le: "?a + length ?d \<le> unat F" and lt: "?m < ?a + length ?d"
    using assms(2,5) n(2) by (auto simp: sent_by_def word_less_nat_alt)
  have run: "add_data f s = Inr ?s"
    using assms(3-5) le by (auto simp: add_data_def Let_def beyond_gaps_def)
  note gap = beyond_gaps [OF assms(1,5), of "sf_Offset f"]
  have a: "sf_Offset f \<le> sf_Offset f + sf_Length f" by (simp add: word_le_nat_alt n(2))
  note gap = gap [OF a]
  have dat: "?r ! i = D i" if "i < ?a + length ?d" "i \<notin> gap_set (beyond_gaps (sf_Offset f) s)" for i
  proof (cases "?a \<le> i")
    case True
    then have "?r ! i = ?d ! (i - ?a)" using that(1) by (subst nth_overwrite) auto
    then show ?thesis using sent_by_nth [OF assms(2), of "i - ?a"] that(1) True by simp
  next
    case False
    then have "i < ?m" "i \<notin> gap_set (gaps s)" using that(2) unfolding gap(2) by auto
    with False inv lt show ?thesis
      by (subst nth_overwrite) (auto simp: nth_copy_bytes)
  qed
  have "data_inv D F ?s"
    using gap dat le lt assms(1) n(2)
    by (auto simp: data_inv_def word_le_nat_alt simp del: upt_Suc)
  moreover have "grows f s ?s" if "\<not> straddles f s"
  proof -
    have "gap_set (gaps s) \<inter> frame_range f = {}"
      using assms(1,5) that
      by (fastforce simp: data_inv_def straddles_def gap_set_def iv_set_def frame_range_def iv_nat)
    then show ?thesis
      using gap(2) assms(5) by (auto simp: grows_def go_max_def frame_range_def)
  qed
  moreover have "tight ?s" if "tight s" "\<not> straddles f s"
    using beyond_gaps_tight [OF assms(1) that(1) _ assms(4)] that(2) assms(5)
    by (simp add: tight_def straddles_def)
  ultimately show ?thesis using run by simp
qed

text \<open>A filled gap list keeps the bounds of the old one.\<close>

lemma gaps_bounds:
  assumes "gaps_ok l" "\<forall>b \<in> set l. r \<le> iv_start b \<and> iv_end b \<le> m"
    "gaps_ok g" "gap_set g = gap_set l - X" "\<forall>x \<in> set g. \<exists>b \<in> set l. iv_end x \<le> iv_end b"
  shows "\<forall>b \<in> set g. r \<le> iv_start b \<and> iv_end b \<le> m"
proof (intro ballI conjI)
  fix b assume b: "b \<in> set g"
  have "iv_start b < iv_end b" using assms(3) b by (simp add: gaps_ok_def)
  then have "unat (iv_start b) \<in> gap_set g"
    using b by (auto simp: gap_set_def iv_set_def word_less_nat_alt intro!: bexI [of _ b])
  then have "unat (iv_start b) \<in> gap_set l" using assms(4) by simp
  then show "r \<le> iv_start b"
    using assms(2) by (fastforce simp: gap_set_def iv_set_def word_le_nat_alt)
  show "iv_end b \<le> m"
    using b assms(2,5) by (meson order_trans)
qed

text \<open>Delivery up to the first gap.\<close>

lemma deliver_inv:
  assumes "data_inv D F s" "unat F \<le> maxAlloc"
  shows "\<exists>s'. deliver s = Inr s' \<and> data_inv D F s' \<and> tight s' \<and>
    gaps s' = gaps s \<and> maxReadReceived s' = maxReadReceived s \<and>
    ReadCloseOffset s' = ReadCloseOffset s \<and> ReadClosed s' = ReadClosed s \<and>
    isClosed (ReadChan s') = isClosed (ReadChan s) \<and>
    (ReadOffset s = maxReadReceived s \<longrightarrow> ReadChan s' = ReadChan s)"
proof -
  define g where "g = (case gaps s of [] \<Rightarrow> maxReadReceived s | b # _ \<Rightarrow> iv_start b)"
  have inv: "length (ReadData s) = unat (maxReadReceived s)" "ReadOffset s \<le> maxReadReceived s"
    "gaps_ok (gaps s)" "maxReadReceived s \<le> F"
    "\<forall>b \<in> set (gaps s). ReadOffset s \<le> iv_start b \<and> iv_end b \<le> maxReadReceived s"
    "\<forall>i < unat (maxReadReceived s). i \<notin> gap_set (gaps s) \<longrightarrow> ReadData s ! i = D i"
    "concat (submitted (ReadChan s)) = map D [0 ..< unat (ReadOffset s)]"
    using assms(1) by (simp_all add: data_inv_def)
  have fg: "(case gaps s of [] \<Rightarrow> of_nat (length (ReadData s)) | b # _ \<Rightarrow> iv_start b) = g"
    using inv(1) by (simp add: g_def split: list.splits)
  have g: "g \<le> maxReadReceived s" "ReadOffset s \<le> g" "\<forall>b \<in> set (gaps s). g \<le> iv_start b"
    using inv(2,3,5) by (auto simp: g_def gaps_ok_Cons split: list.splits
        intro: order_trans [OF less_imp_le] order_trans)
  have "i \<notin> gap_set (gaps s)" if "i < unat g" for i
    using g(3) that by (fastforce simp: gap_set_def iv_set_def word_le_nat_alt)
  then have piece: "take (unat g - unat (ReadOffset s)) (drop (unat (ReadOffset s)) (ReadData s)) =
      map D [unat (ReadOffset s) ..< unat g]"
    using inv(1,6) g(1,2) by (intro nth_equalityI) (auto simp: word_le_nat_alt)
  have tot: "map D [0 ..< unat (ReadOffset s)] @ map D [unat (ReadOffset s) ..< unat g] = map D [0 ..< unat g]"
    by (rule sorted_map_upt_split) (use g(2) in \<open>simp add: word_le_nat_alt\<close>)
  have t: "tight s'" if "gaps s' = gaps s" "maxReadReceived s' = maxReadReceived s" "ReadOffset s' = g" for s'
    using that by (simp add: tight_def g_def split: list.splits)
  show ?thesis
  proof (cases "ReadOffset s < g")
    case True
    then have "ReadOffset s \<noteq> maxReadReceived s" using g(1) by auto
    with True show ?thesis
      using inv g piece tot t
      by (auto simp: deliver_def fg data_inv_def Submit_def word_le_nat_alt simp del: map_append)
  next
    case False
    then show ?thesis using assms(1) g(2) t by (simp add: deliver_def fg)
  qed
qed

lemma add_data_refill:
  assumes "data_inv D F s" "sent_by D F f" "unat F \<le> maxAlloc" "refill_ok f s"
    "\<not> (sf_Offset f = ReadOffset s \<and> sf_Offset f = maxReadReceived s)"
    "sf_Offset f + sf_Length f \<le> maxReadReceived s" "sf_StreamData f \<noteq> []"
  shows "\<exists>s'. add_data f s = Inr s' \<and> data_inv D F s' \<and> tight s' \<and> grows f s s' \<and>
    ReadCloseOffset s' = ReadCloseOffset s \<and> ReadClosed s' = ReadClosed s \<and>
    isClosed (ReadChan s') = isClosed (ReadChan s) \<and>
    (ReadOffset s = maxReadReceived s \<longrightarrow> ReadChan s' = ReadChan s)"
proof -
  let ?a = "unat (sf_Offset f)" and ?d = "sf_StreamData f" and ?m = "unat (maxReadReceived s)"
  let ?g = "Fill (iv (sf_Offset f) (sf_Offset f + sf_Length f)) (gaps s)"
  let ?r = "take ?a (ReadData s) @ copy_bytes (drop ?a (ReadData s)) ?d"
  let ?s = "s\<lparr>gaps := ?g, ReadData := ?r\<rparr>"
  note n = sent_by_nat [OF assms(2)]
  have inv: "length (ReadData s) = ?m" "ReadOffset s \<le> maxReadReceived s" "gaps_ok (gaps s)"
    "\<forall>b \<in> set (gaps s). ReadOffset s \<le> iv_start b \<and> iv_end b \<le> maxReadReceived s"
    "\<forall>i < ?m. i \<notin> gap_set (gaps s) \<longrightarrow> ReadData s ! i = D i"
    using assms(1) by (simp_all add: data_inv_def)
  have le: "?a + length ?d \<le> ?m" using assms(6) n(2) by (simp add: word_le_nat_alt)
  have "(sf_Offset f = ReadOffset s \<and> sf_Offset f = maxReadReceived s) = False"
    "(sf_Offset f + sf_Length f > maxReadReceived s) = False" "(length ?d > 0) = True"
    "(?a \<le> length (ReadData s)) = True"
    using assms(5-7) le inv(1) by auto
  then have run: "add_data f s = deliver ?s"
    unfolding add_data_def by (simp only: if_False if_True Let_def Stream.simps Stream.update_convs
        Stream.ext_inject) simp
  have "sf_Offset f < sf_Offset f + sf_Length f"
    using assms(7) by (simp add: word_less_nat_alt n(2))
  then have fill: "gaps_ok ?g" "gap_set ?g = gap_set (gaps s) - {?a ..< ?a + length ?d}"
    "\<forall>x \<in> set ?g. \<exists>b \<in> set (gaps s). iv_end x \<le> iv_end b"
    using Fill_sorted [of "iv (sf_Offset f) (sf_Offset f + sf_Length f)" "gaps s"] inv(3) assms(4,6,7)
    by (simp_all add: refill_ok_def iv_set_def n(2))
  have dat: "?r ! i = D i" if "i < ?m" "i \<notin> gap_set ?g" for i
    using that inv(1,5) le sent_by_nth [OF assms(2), of "i - ?a"] unfolding fill(2)
    by (subst nth_overwrite) auto
  have bnd: "\<forall>b \<in> set ?g. ReadOffset s \<le> iv_start b \<and> iv_end b \<le> maxReadReceived s"
    using gaps_bounds [OF inv(3,4) fill] .
  have "data_inv D F ?s"
    using assms(1) fill(1) dat bnd inv le by (simp add: data_inv_def)
  moreover have "{unat (maxReadReceived s) ..< ?a} = {}" using le by simp
  ultimately show ?thesis
    using deliver_inv [of D F ?s] assms(3,6) fill(2)
    unfolding run by (auto simp: grows_def go_max_def frame_range_def)
qed

lemma data_inv_offset_eq:
  assumes "data_inv D F s" "data_inv D F s'" "ReadChan s' = ReadChan s"
  shows "ReadOffset s' = ReadOffset s"
proof -
  have "map D [0 ..< unat (ReadOffset s')] = map D [0 ..< unat (ReadOffset s)]"
    using assms by (simp add: data_inv_def)
  from arg_cong [OF this, of length] show ?thesis by (simp add: word_unat_eq_iff)
qed

lemma add_data_inv:
  assumes "data_inv D F s" "sent_by D F f" "unat F \<le> maxAlloc" "refill_ok f s"
  shows "\<exists>s'. add_data f s = Inr s' \<and> data_inv D F s' \<and>
    (\<not> straddles f s \<longrightarrow> grows f s s' \<and> (tight s \<longrightarrow> tight s')) \<and>
    ReadCloseOffset s' = ReadCloseOffset s \<and> ReadClosed s' = ReadClosed s \<and>
    isClosed (ReadChan s') = isClosed (ReadChan s) \<and>
    (ReadOffset s = F \<longrightarrow> ReadChan s' = ReadChan s)"
proof -
  note n = sent_by_nat [OF assms(2)]
  have le: "unat (sf_Offset f + sf_Length f) \<le> unat F"
    using assms(2) n(2) by (simp add: sent_by_def)
  have top: "maxReadReceived s = F" if "ReadOffset s = F"
    using assms(1) that by (auto simp: data_inv_def)
  consider (order) "sf_Offset f = ReadOffset s" "sf_Offset f = maxReadReceived s"
    | (beyond) "\<not> (sf_Offset f = ReadOffset s \<and> sf_Offset f = maxReadReceived s)"
        "sf_Offset f + sf_Length f > maxReadReceived s"
    | (refill) "\<not> (sf_Offset f = ReadOffset s \<and> sf_Offset f = maxReadReceived s)"
        "sf_Offset f + sf_Length f \<le> maxReadReceived s" "sf_StreamData f \<noteq> []"
    | (covered) "\<not> (sf_Offset f = ReadOffset s \<and> sf_Offset f = maxReadReceived s)"
        "sf_Offset f + sf_Length f \<le> maxReadReceived s" "sf_StreamData f = []"
    by (meson not_le)
  then show ?thesis
  proof cases
    case order
    have "ReadChan s' = ReadChan s" if "ReadOffset s = F" "add_data f s = Inr s'" for s'
    proof -
      have "sf_StreamData f = []" using le n(2) order that(1) by simp
      then show ?thesis using that(2) order by (auto simp: add_data_def Let_def)
    qed
    with add_data_in_order [OF assms(1,2) order] show ?thesis by blast
  next
    case beyond
    with add_data_beyond [OF assms(1-3) beyond] top le show ?thesis
      by (auto simp: word_less_nat_alt)
  next
    case refill
    with add_data_refill [OF assms refill] top show ?thesis by auto
  next
    case covered
    then have "add_data f s = Inr s" unfolding add_data_def by auto
    moreover have "grows f s s"
    proof -
      have "go_max (maxReadReceived s) (sf_Offset f + sf_Length f) = maxReadReceived s"
        using covered(2) by (auto simp: go_max_def)
      moreover have "{unat (maxReadReceived s) ..< unat (sf_Offset f)} = {}"
        using covered(2) n(2) by (simp add: word_le_nat_alt)
      ultimately show ?thesis using covered(3) by (simp add: grows_def frame_range_def)
    qed
    ultimately show ?thesis using assms(1) by auto
  qed
qed

lemma close_read_simps [simp]:
  "ReadOffset (close_read s) = ReadOffset s" "gaps (close_read s) = gaps s"
  "maxReadReceived (close_read s) = maxReadReceived s" "ReadData (close_read s) = ReadData s"
  "submitted (ReadChan (close_read s)) = submitted (ReadChan s)"
  "ReadCloseOffset (close_read s) = ReadCloseOffset s"
  by (auto simp: close_read_def Broadcaster_Close_def)

lemma data_inv_close_read [simp]: "data_inv D F (close_read s) = data_inv D F s"
  by (simp add: data_inv_def)

lemma tight_close_read [simp]: "tight (close_read s) = tight s"
  by (simp add: tight_def split: list.splits)

lemma close_read_inv:
  "ReadCloseOffset s \<in> {MaxUint64, F} \<Longrightarrow> isClosed (ReadChan s) = ReadClosed s \<Longrightarrow>
   (ReadClosed s \<Longrightarrow> ReadOffset s = ReadCloseOffset s) \<Longrightarrow> close_inv F (close_read s)"
  by (auto simp: close_inv_def close_read_def Broadcaster_Close_def)

lemma maxAlloc_less: "unat F \<le> maxAlloc \<Longrightarrow> F < MaxUint64"
  by (simp add: word_less_nat_alt MaxUint64_def maxAlloc_def)

lemma addToRead_step:
  assumes "stream_inv D F s" "sent_by D F f" "unat F \<le> maxAlloc" "refill_ok f s"
  shows "\<exists>s'. addToRead f s = Inr s' \<and> stream_inv D F s' \<and>
    (\<not> straddles f s \<longrightarrow> grows f s s' \<and> (tight s \<longrightarrow> tight s')) \<and>
    (ReadClosed s \<longrightarrow> ReadClosed s' \<and> submitted (ReadChan s') = submitted (ReadChan s)) \<and>
    (sf_FinBit f \<or> ReadCloseOffset s = F \<longrightarrow> ReadCloseOffset s' = F)"
proof -
  note n = sent_by_nat [OF assms(2)]
  let ?t = "if sf_FinBit f then s\<lparr>ReadCloseOffset := sf_Offset f + sf_Length f\<rparr> else s"
  have F: "F \<noteq> MaxUint64" using maxAlloc_less [OF assms(3)] by simp
  have fin: "sf_FinBit f \<Longrightarrow> sf_Offset f + sf_Length f = F"
    using assms(2) n(2) by (simp add: sent_by_def word_unat_eq_iff)
  have inv: "data_inv D F s" "ReadCloseOffset s \<in> {MaxUint64, F}"
    "isClosed (ReadChan s) = ReadClosed s" "ReadClosed s \<longleftrightarrow> ReadOffset s = ReadCloseOffset s"
    "ReadOffset s \<le> F"
    using assms(1) by (auto simp: stream_inv_def close_inv_def data_inv_def)
  have "sf_Offset f \<le> F" using assms(2) by (simp add: sent_by_def word_le_nat_alt)
  then have g1: "\<not> sf_Offset f > ReadCloseOffset s"
    using inv(2) maxAlloc_less [OF assms(3)] by auto
  have g2: "\<not> (sf_FinBit f \<and> ReadCloseOffset s \<noteq> MaxUint64 \<and>
      ReadCloseOffset s \<noteq> sf_Offset f + sf_Length f)"
    using inv(2) fin by auto
  have run: "addToRead f s = bind_res (add_data f ?t) (\<lambda>s. Inr (close_read s))"
    unfolding addToRead_def Let_def by (simp only: g1 g2 if_False)
  have t: "data_inv D F ?t" "refill_ok f ?t" "tight ?t = tight s" "straddles f ?t = straddles f s"
    "\<And>s'. grows f ?t s' = grows f s s'"
    using inv(1) assms(4)
    by (simp_all add: data_inv_def refill_ok_def tight_def straddles_def grows_def split: list.splits)
  obtain s1 where s1: "add_data f ?t = Inr s1" "data_inv D F s1"
    "\<not> straddles f s \<longrightarrow> grows f s s1 \<and> (tight s \<longrightarrow> tight s1)"
    "ReadCloseOffset s1 = ReadCloseOffset ?t" "ReadClosed s1 = ReadClosed s" "isClosed (ReadChan s1) = isClosed (ReadChan s)"
    "ReadOffset s = F \<longrightarrow> ReadChan s1 = ReadChan s"
    using add_data_inv [OF t(1) assms(2,3) t(2)] t(3-5) by (auto split: if_splits)
  have closed: "ReadOffset s1 = F \<and> ReadCloseOffset s1 = F \<and> ReadChan s1 = ReadChan s" if "ReadClosed s"
  proof -
    have "ReadOffset s = F" "ReadCloseOffset s = F"
      using that inv(2,4,5) F maxAlloc_less [OF assms(3)] by auto
    with s1(4,7) fin data_inv_offset_eq [OF inv(1) s1(2)] show ?thesis by auto
  qed
  have "close_inv F (close_read s1)"
    using s1(4-6) closed inv(2,3) fin by (intro close_read_inv) auto
  then have "stream_inv D F (close_read s1)"
    using s1(2) by (simp add: stream_inv_def)
  moreover have "grows f s (close_read s1) = grows f s s1" by (simp add: grows_def)
  moreover have "ReadClosed s \<longrightarrow> ReadClosed (close_read s1)"
    using s1(5) by (simp add: close_read_def)
  moreover have "sf_FinBit f \<or> ReadCloseOffset s = F \<longrightarrow> ReadCloseOffset s1 = F"
    using s1(4) fin by auto
  ultimately show ?thesis
    unfolding run using s1(1,3) closed by simp
qed

section \<open>Sequences of frames\<close>

fun addAll :: "StreamFrame list \<Rightarrow> Stream \<Rightarrow> Stream res" where
  "addAll [] s = Inr s"
| "addAll (f # fs) s = bind_res (addToRead f s) (addAll fs)"

text \<open>Every frame is the sender's, and fills gaps from their start when it arrives.\<close>

fun admissible :: "(nat \<Rightarrow> u8) \<Rightarrow> u64 \<Rightarrow> StreamFrame list \<Rightarrow> Stream \<Rightarrow> bool" where
  "admissible D F [] s \<longleftrightarrow> True"
| "admissible D F (f # fs) s \<longleftrightarrow> sent_by D F f \<and> refill_ok f s \<and>
     (case addToRead f s of Inl _ \<Rightarrow> True | Inr s' \<Rightarrow> admissible D F fs s')"

fun no_straddle :: "StreamFrame list \<Rightarrow> Stream \<Rightarrow> bool" where
  "no_straddle [] s \<longleftrightarrow> True"
| "no_straddle (f # fs) s \<longleftrightarrow> \<not> straddles f s \<and>
     (case addToRead f s of Inl _ \<Rightarrow> True | Inr s' \<Rightarrow> no_straddle fs s')"

lemma addAll_inv:
  "stream_inv D F s \<Longrightarrow> unat F \<le> maxAlloc \<Longrightarrow> admissible D F fs s \<Longrightarrow>
   \<exists>s'. addAll fs s = Inr s' \<and> stream_inv D F s' \<and>
     (no_straddle fs s \<and> gaps_exact R s \<and> tight s \<longrightarrow>
        gaps_exact (R \<union> (\<Union>f \<in> set fs. frame_range f)) s' \<and> tight s') \<and>
     ((\<exists>f \<in> set fs. sf_FinBit f) \<or> ReadCloseOffset s = F \<longrightarrow> ReadCloseOffset s' = F)"
proof (induction fs arbitrary: s R)
  case (Cons f fs)
  obtain s1 where s1: "addToRead f s = Inr s1" "stream_inv D F s1"
    "\<not> straddles f s \<longrightarrow> grows f s s1 \<and> (tight s \<longrightarrow> tight s1)"
    "sf_FinBit f \<or> ReadCloseOffset s = F \<longrightarrow> ReadCloseOffset s1 = F"
    using addToRead_step [OF Cons.prems(1) _ Cons.prems(2), of f] Cons.prems(3) by auto
  have f: "sent_by D F f" "admissible D F fs s1" using Cons.prems(3) s1(1) by auto
  have "gaps_exact (R \<union> frame_range f) s1" if "gaps_exact R s" "\<not> straddles f s"
    using gaps_exact_add [OF that(1) f(1) that(2)] s1(3) that(2) by simp
  with s1 Cons.IH [OF s1(2) Cons.prems(2) f(2), of "R \<union> frame_range f"] show ?case
    by (auto simp: Un_assoc)
qed simp

lemma NewStream_tight: "tight NewStream" "gaps_exact {} NewStream"
  by (simp_all add: tight_def gaps_exact_def NewStream_def)

section \<open>Properties\<close>

lemma first_missing:
  assumes "stream_inv D F s" "gaps_exact R s" "tight s"
  shows "unat (ReadOffset s) \<notin> R" "{..< unat (ReadOffset s)} \<subseteq> R"
proof -
  have inv: "gaps_ok (gaps s)" "ReadOffset s \<le> maxReadReceived s"
    "\<forall>b \<in> set (gaps s). ReadOffset s \<le> iv_start b \<and> iv_end b \<le> maxReadReceived s"
    using assms(1) unfolding stream_inv_def data_inv_def by blast+
  have "i \<in> R" if "i < unat (ReadOffset s)" for i
  proof -
    have "i \<notin> gap_set (gaps s)"
      using inv(3) that by (fastforce simp: gap_set_def iv_set_def word_le_nat_alt)
    with that inv(2) assms(2) show ?thesis by (auto simp: gaps_exact_def word_le_nat_alt)
  qed
  then show "{..< unat (ReadOffset s)} \<subseteq> R" by auto
  show "unat (ReadOffset s) \<notin> R"
  proof (cases "gaps s")
    case Nil
    with assms(2,3) show ?thesis by (auto simp: gaps_exact_def tight_def)
  next
    case (Cons b l)
    with inv(1) assms(3) have "unat (ReadOffset s) \<in> gap_set (gaps s)"
      using gaps_ok_hd_in [of b l] by (simp add: tight_def)
    with assms(2) show ?thesis by (simp add: gaps_exact_def)
  qed
qed


definition demo_frame :: "u64 \<Rightarrow> bytes \<Rightarrow> bool \<Rightarrow> StreamFrame" where
  "demo_frame a d fin = \<lparr>sf_FinBit = fin, sf_LenBit = True, sf_OffBit = a > 0, sf_StreamId = 0,
     sf_Offset = a, sf_Length = of_nat (length d), sf_StreamData = d\<rparr>"

lemmas stream_eval = addToRead_def add_data_def deliver_def close_read_def Broadcaster_Close_def
  NewStream_def NewBroadcaster_def MaxUint64_def Submit_def Add_def Fill_def ensureConsistency_def
  IsBefore_def Overlap_def Exclude_def Merge_def copy_bytes_def make_bytes_def maxAlloc_def Let_def


text \<open>
  A frame that fills the middle of a gap makes the stream hand over bytes nobody sent: with the bytes at
  offsets 8, then 4, then 0 to 2 received, the reader gets six bytes, of which those at offsets 3 and 5 are
  zeros that no frame has carried.
\<close>

lemma middle_fill_fabricates:
  "\<exists>s. addAll [demo_frame 8 [9] False, demo_frame 4 [9] False, demo_frame 0 [9, 9, 9] False] NewStream
       = Inr s \<and>
     submitted (ReadChan s) = [[9, 9, 9, 0, 9, 0]] \<and>
     {3, 5} \<inter> (frame_range (demo_frame 8 [9] False) \<union> frame_range (demo_frame 4 [9] False) \<union>
                frame_range (demo_frame 0 [9, 9, 9] False)) = {}"
  by (simp add: demo_frame_def stream_eval frame_range_def)

text \<open>
  A frame that starts below and ends past the highest offset seen so far stalls the stream: after the bytes
  0 to 4, 3 to 7 and 8 to 9 with the FIN, every byte of the stream has arrived, and the reader has been given
  five of them and the stream is not closed.
\<close>

lemma straddling_frame_stalls:
  "\<exists>s. addAll [demo_frame 0 [0, 1, 2, 3, 4] False, demo_frame 3 [3, 4, 5, 6, 7] False,
               demo_frame 8 [8, 9] True] NewStream = Inr s \<and>
     submitted (ReadChan s) = [[0, 1, 2, 3, 4]] \<and> gaps s = [] \<and> maxReadReceived s = 10 \<and>
     ReadCloseOffset s = 10 \<and> \<not> ReadClosed s"
  by (simp add: demo_frame_def stream_eval)

text \<open>
  The offset of a frame is used as an allocation size without a check: a frame beyond everything
  received so far whose end lies above $2^{48}$, the largest slice the runtime can allocate, is a panic
  whatever the state of the stream.
\<close>

lemma huge_offset_panics:
  assumes "sf_Offset f \<le> ReadCloseOffset s" "\<not> sf_FinBit f"
    "sf_Offset f \<noteq> ReadOffset s" "sf_Offset f + sf_Length f > maxReadReceived s"
    "maxAlloc < unat (sf_Offset f) + length (sf_StreamData f)"
  shows "addToRead f s = Inl MakeSliceLen"
  using assms by (auto simp: addToRead_def add_data_def Let_def)

lemma huge_offset_panics_witness:
  "addToRead (demo_frame 281474976710656 [0] False) NewStream = Inl MakeSliceLen"
  by (rule huge_offset_panics) (simp_all add: demo_frame_def NewStream_def MaxUint64_def maxAlloc_def)

end
