(* ===== verification/Frames.thy ===== *)
theory Frames
  imports Streams
begin

text \<open>
  The frames of QUIC, \<^verbatim>\<open>frames.go\<close>: their data, \<^verbatim>\<open>FrameType\<close>, \<^verbatim>\<open>WriteTo\<close>, \<^verbatim>\<open>FrameLength\<close> and
  \<^verbatim>\<open>shouldBeRetransmitted\<close>. The readers are in theory \<open>FrameCodec\<close>.

  A struct with several fields is a record; an array of a fixed size is a byte list whose length is part of
  the well-formedness predicate \<open>wf_frame\<close>. \<^verbatim>\<open>FrameLength\<close> computes in 16 bits, wrap-around included. The
  theorem on it says that it is the number of bytes \<^verbatim>\<open>WriteTo\<close> writes, which the packet filling code
  relies on.
\<close>

section \<open>Frame types\<close>

type_synonym FrameType = u64

definition PaddingFrameType :: FrameType where "PaddingFrameType = 0x00"
definition PingType :: FrameType where "PingType = 0x01"
definition AckType :: FrameType where "AckType = 0x02"
definition AckECNType :: FrameType where "AckECNType = 0x03"
definition ResetStreamType :: FrameType where "ResetStreamType = 0x04"
definition StopSendingType :: FrameType where "StopSendingType = 0x05"
definition CryptoType :: FrameType where "CryptoType = 0x06"
definition NewTokenType :: FrameType where "NewTokenType = 0x07"
definition StreamType :: FrameType where "StreamType = 0x08"
definition MaxDataType :: FrameType where "MaxDataType = 0x10"
definition MaxStreamDataType :: FrameType where "MaxStreamDataType = 0x11"
definition MaxStreamsType :: FrameType where "MaxStreamsType = 0x12"
definition DataBlockedType :: FrameType where "DataBlockedType = 0x14"
definition StreamDataBlockedType :: FrameType where "StreamDataBlockedType = 0x15"
definition StreamsBlockedType :: FrameType where "StreamsBlockedType = 0x16"
definition NewConnectionIdType :: FrameType where "NewConnectionIdType = 0x18"
definition RetireConnectionIdType :: FrameType where "RetireConnectionIdType = 0x19"
definition PathChallengeType :: FrameType where "PathChallengeType = 0x1a"
definition PathResponseType :: FrameType where "PathResponseType = 0x1b"
definition ConnectionCloseType :: FrameType where "ConnectionCloseType = 0x1c"
definition ApplicationCloseType :: FrameType where "ApplicationCloseType = 0x1d"
definition HandshakeDoneType :: FrameType where "HandshakeDoneType = 0x1e"

lemmas frame_types = PaddingFrameType_def PingType_def AckType_def AckECNType_def ResetStreamType_def
  StopSendingType_def CryptoType_def NewTokenType_def StreamType_def MaxDataType_def
  MaxStreamDataType_def MaxStreamsType_def DataBlockedType_def StreamDataBlockedType_def
  StreamsBlockedType_def NewConnectionIdType_def RetireConnectionIdType_def PathChallengeType_def
  PathResponseType_def ConnectionCloseType_def ApplicationCloseType_def HandshakeDoneType_def

text \<open>The map between types and names, in the order of the source; a missing key gives the zero value.\<close>

definition frameTypeToString :: "(FrameType \<times> string) list" where
  "frameTypeToString =
    [(PaddingFrameType, ''PADDING''), (PingType, ''PING''), (AckType, ''ACK''),
     (AckECNType, ''ACK_ECN''), (ResetStreamType, ''RESET_STREAM''),
     (StopSendingType, ''STOP_SENDING''), (CryptoType, ''CRYPTO''), (NewTokenType, ''NEW_TOKEN''),
     (StreamType, ''STREAM''), (MaxDataType, ''MAX_DATA''), (MaxStreamDataType, ''MAX_STREAM_DATA''),
     (MaxStreamsType, ''MAX_STREAMS''), (DataBlockedType, ''DATA_BLOCKED''),
     (StreamDataBlockedType, ''STREAM_DATA_BLOCKED''), (StreamsBlockedType, ''STREAMS_BLOCKED''),
     (NewConnectionIdType, ''NEW_CONNECTION_ID''), (RetireConnectionIdType, ''RETIRE_CONNECTION_ID''),
     (PathChallengeType, ''PATH_CHALLENGE''), (PathResponseType, ''PATH_RESPONSE''),
     (ConnectionCloseType, ''CONNECTION_CLOSE''), (ApplicationCloseType, ''APPLICATION_CLOSE''),
     (HandshakeDoneType, ''HANDSHAKE_DONE'')]"

definition stringToFrameType :: "(string \<times> FrameType) list" where
  "stringToFrameType =
    [(''PADDING'', PaddingFrameType), (''PING'', PingType), (''ACK'', AckType),
     (''ACK_ECN'', AckECNType), (''RESET_STREAM'', ResetStreamType),
     (''STOP_SENDING'', StopSendingType), (''CRYPTO'', CryptoType), (''NEW_TOKEN'', NewTokenType),
     (''STREAM'', StreamType), (''MAX_DATA'', MaxDataType), (''MAX_STREAM_DATA'', MaxStreamDataType),
     (''MAX_STREAMS'', MaxStreamsType), (''DATA_BLOCKED'', DataBlockedType),
     (''STREAM_DATA_BLOCKED'', StreamDataBlockedType), (''STREAMS_BLOCKED'', StreamsBlockedType),
     (''NEW_CONNECTION_ID'', NewConnectionIdType), (''RETIRE_CONNECTION_ID'', RetireConnectionIdType),
     (''PATH_CHALLENGE'', PathChallengeType), (''PATH_RESPONSE'', PathResponseType),
     (''CONNECTION_CLOSE'', ConnectionCloseType), (''APPLICATION_CLOSE'', ApplicationCloseType),
     (''HANDSHAKE_DONE'', HandshakeDoneType)]"

definition FrameType_String :: "FrameType \<Rightarrow> string" where
  "FrameType_String t = (case map_of frameTypeToString t of None \<Rightarrow> [] | Some s \<Rightarrow> s)"

definition FrameTypeFromString :: "string \<Rightarrow> FrameType" where
  "FrameTypeFromString input = (case map_of stringToFrameType input of None \<Rightarrow> 0 | Some t \<Rightarrow> t)"

section \<open>The frames\<close>

record AckRange =
  ar_Gap :: u64
  ar_AckRange :: u64

record AckFrame =
  af_LargestAcknowledged :: PacketNumber
  af_AckDelay :: u64
  af_AckRangeCount :: u64
  af_AckRanges :: "AckRange list"

record AckECNFrame =
  ae_AckFrame :: AckFrame
  ae_ECT0Count :: u64
  ae_ECT1Count :: u64
  ae_ECTCECount :: u64

record ResetStream =
  rs_StreamId :: u64
  rs_ApplicationErrorCode :: u64
  rs_FinalSize :: u64

record StopSendingFrame =
  ss_StreamId :: u64
  ss_ApplicationErrorCode :: u64

record CryptoFrame =
  cf_Offset :: u64
  cf_Length :: u64
  cf_CryptoData :: bytes

record MaxStreamDataFrame =
  ms_StreamId :: u64
  ms_MaximumStreamData :: u64

record MaxStreamsFrame =
  mx_StreamsType :: StreamsType
  mx_MaximumStreams :: u64

record StreamDataBlockedFrame =
  sd_StreamId :: u64
  sd_StreamDataLimit :: u64

record StreamsBlockedFrame =
  sb_StreamsType :: StreamsType
  sb_StreamLimit :: u64

record NewConnectionIdFrame =
  nc_Sequence :: u64
  nc_RetirePriorTo :: u64
  nc_Length :: u8
  nc_ConnectionId :: bytes
  nc_StatelessResetToken :: bytes

record ConnectionCloseFrame =
  cc_ErrorCode :: u64
  cc_ErrorFrameType :: u64
  cc_ReasonPhraseLength :: u64
  cc_ReasonPhrase :: bytes

record ApplicationCloseFrame =
  ac_ErrorCode :: u64
  ac_ReasonPhraseLength :: u64
  ac_ReasonPhrase :: bytes

text \<open>The values of the interface type \<^verbatim>\<open>Frame\<close>.\<close>

datatype Frame =
    PaddingFrame
  | PingFrame
  | Ack AckFrame
  | AckECN AckECNFrame
  | Reset ResetStream
  | StopSending StopSendingFrame
  | Crypto CryptoFrame
  | NewToken bytes
  | StreamF StreamFrame
  | MaxData u64
  | MaxStreamData MaxStreamDataFrame
  | MaxStreams MaxStreamsFrame
  | DataBlocked u64
  | StreamDataBlocked StreamDataBlockedFrame
  | StreamsBlocked StreamsBlockedFrame
  | NewConnectionId NewConnectionIdFrame
  | RetireConnectionId u64
  | PathChallenge bytes
  | PathResponse bytes
  | ConnectionClose ConnectionCloseFrame
  | ApplicationClose ApplicationCloseFrame
  | HandshakeDone

definition MaxStreamsFrame_FrameType :: "MaxStreamsFrame \<Rightarrow> FrameType" where
  "MaxStreamsFrame_FrameType f =
     (if mx_StreamsType f = BidiStreams then MaxStreamsType else MaxStreamsType + 1)"

definition StreamsBlockedFrame_FrameType :: "StreamsBlockedFrame \<Rightarrow> FrameType" where
  "StreamsBlockedFrame_FrameType f =
     (if sb_StreamsType f = BidiStreams then StreamsBlockedType else StreamsBlockedType + 1)"

fun FrameType :: "Frame \<Rightarrow> FrameType" where
  "FrameType PaddingFrame = PaddingFrameType"
| "FrameType PingFrame = PingType"
| "FrameType (Ack _) = AckType"
| "FrameType (AckECN _) = AckECNType"
| "FrameType (Reset _) = ResetStreamType"
| "FrameType (StopSending _) = StopSendingType"
| "FrameType (Crypto _) = CryptoType"
| "FrameType (NewToken _) = NewTokenType"
| "FrameType (StreamF _) = StreamType"
| "FrameType (MaxData _) = MaxDataType"
| "FrameType (MaxStreamData _) = MaxStreamDataType"
| "FrameType (MaxStreams f) = MaxStreamsFrame_FrameType f"
| "FrameType (DataBlocked _) = DataBlockedType"
| "FrameType (StreamDataBlocked _) = StreamDataBlockedType"
| "FrameType (StreamsBlocked f) = StreamsBlockedFrame_FrameType f"
| "FrameType (NewConnectionId _) = NewConnectionIdType"
| "FrameType (RetireConnectionId _) = RetireConnectionIdType"
| "FrameType (PathChallenge _) = PathChallengeType"
| "FrameType (PathResponse _) = PathResponseType"
| "FrameType (ConnectionClose _) = ConnectionCloseType"
| "FrameType (ApplicationClose _) = ApplicationCloseType"
| "FrameType HandshakeDone = HandshakeDoneType"

fun shouldBeRetransmitted :: "Frame \<Rightarrow> bool" where
  "shouldBeRetransmitted PaddingFrame = False"
| "shouldBeRetransmitted PingFrame = False"
| "shouldBeRetransmitted (Ack _) = False"
| "shouldBeRetransmitted (AckECN _) = False"
| "shouldBeRetransmitted (Reset _) = True"
| "shouldBeRetransmitted (StopSending _) = True"
| "shouldBeRetransmitted (Crypto _) = True"
| "shouldBeRetransmitted (NewToken _) = True"
| "shouldBeRetransmitted (StreamF _) = True"
| "shouldBeRetransmitted (MaxData _) = True"
| "shouldBeRetransmitted (MaxStreamData _) = True"
| "shouldBeRetransmitted (MaxStreams _) = True"
| "shouldBeRetransmitted (DataBlocked _) = False"
| "shouldBeRetransmitted (StreamDataBlocked _) = False"
| "shouldBeRetransmitted (StreamsBlocked _) = False"
| "shouldBeRetransmitted (NewConnectionId _) = True"
| "shouldBeRetransmitted (RetireConnectionId _) = True"
| "shouldBeRetransmitted (PathChallenge _) = True"
| "shouldBeRetransmitted (PathResponse _) = False"
| "shouldBeRetransmitted (ConnectionClose _) = False"
| "shouldBeRetransmitted (ApplicationClose _) = False"
| "shouldBeRetransmitted HandshakeDone = True"

section \<open>Writing\<close>

text \<open>\<open>vars xs\<close>: \<^verbatim>\<open>WriteVarInt\<close> of each number in turn.\<close>

definition vars :: "u64 list \<Rightarrow> bytes res list" where
  "vars xs = map WriteVarInt xs"

fun ack_ranges_out :: "nat \<Rightarrow> AckRange list \<Rightarrow> bytes res list" where
  "ack_ranges_out i [] = []"
| "ack_ranges_out i (ack # rest) =
     (if i > 0 then vars [ar_Gap ack] else []) @ vars [ar_AckRange ack] @ ack_ranges_out (i + 1) rest"

definition AckFrame_WriteTo :: "AckFrame \<Rightarrow> bytes res" where
  "AckFrame_WriteTo f =
     cat_res (vars [AckType, af_LargestAcknowledged f, af_AckDelay f, af_AckRangeCount f]
       @ ack_ranges_out 0 (af_AckRanges f))"

text \<open>\<^verbatim>\<open>AckECNFrame.WriteTo\<close> calls the method of the embedded \<^verbatim>\<open>AckFrame\<close>, which writes its own type.\<close>

definition AckECNFrame_WriteTo :: "AckECNFrame \<Rightarrow> bytes res" where
  "AckECNFrame_WriteTo f =
     cat_res (AckFrame_WriteTo (ae_AckFrame f) # vars [ae_ECT0Count f, ae_ECT1Count f, ae_ECTCECount f])"

definition ResetStream_WriteTo :: "ResetStream \<Rightarrow> bytes res" where
  "ResetStream_WriteTo f =
     cat_res (vars [ResetStreamType, rs_StreamId f, rs_ApplicationErrorCode f, rs_FinalSize f])"

definition StopSendingFrame_WriteTo :: "StopSendingFrame \<Rightarrow> bytes res" where
  "StopSendingFrame_WriteTo f =
     cat_res (vars [StopSendingType, ss_StreamId f, ss_ApplicationErrorCode f])"

definition CryptoFrame_WriteTo :: "CryptoFrame \<Rightarrow> bytes res" where
  "CryptoFrame_WriteTo f = cat_res (vars [CryptoType, cf_Offset f, cf_Length f] @ [Inr (cf_CryptoData f)])"

definition NewTokenFrame_WriteTo :: "bytes \<Rightarrow> bytes res" where
  "NewTokenFrame_WriteTo tok = cat_res (vars [NewTokenType, of_nat (length tok)] @ [Inr tok])"

definition StreamFrame_typeByte :: "StreamFrame \<Rightarrow> u64" where
  "StreamFrame_typeByte f =
     (let t = StreamType;
          t = (if sf_FinBit f then t OR 0x01 else t);
          t = (if sf_LenBit f then t OR 0x02 else t)
      in if sf_OffBit f then t OR 0x04 else t)"

definition StreamFrame_WriteTo :: "StreamFrame \<Rightarrow> bytes res" where
  "StreamFrame_WriteTo f =
     cat_res (vars [StreamFrame_typeByte f, sf_StreamId f]
       @ (if sf_OffBit f then vars [sf_Offset f] else [])
       @ (if sf_LenBit f then vars [sf_Length f] else [])
       @ [Inr (sf_StreamData f)])"

definition MaxDataFrame_WriteTo :: "u64 \<Rightarrow> bytes res" where
  "MaxDataFrame_WriteTo m = cat_res (vars [MaxDataType, m])"

definition MaxStreamDataFrame_WriteTo :: "MaxStreamDataFrame \<Rightarrow> bytes res" where
  "MaxStreamDataFrame_WriteTo f = cat_res (vars [MaxStreamDataType, ms_StreamId f, ms_MaximumStreamData f])"

definition MaxStreamsFrame_WriteTo :: "MaxStreamsFrame \<Rightarrow> bytes res" where
  "MaxStreamsFrame_WriteTo f = cat_res (vars [MaxStreamsFrame_FrameType f, mx_MaximumStreams f])"

definition DataBlockedFrame_WriteTo :: "u64 \<Rightarrow> bytes res" where
  "DataBlockedFrame_WriteTo m = cat_res (vars [DataBlockedType, m])"

definition StreamDataBlockedFrame_WriteTo :: "StreamDataBlockedFrame \<Rightarrow> bytes res" where
  "StreamDataBlockedFrame_WriteTo f =
     cat_res (vars [StreamDataBlockedType, sd_StreamId f, sd_StreamDataLimit f])"

definition StreamsBlockedFrame_WriteTo :: "StreamsBlockedFrame \<Rightarrow> bytes res" where
  "StreamsBlockedFrame_WriteTo f = cat_res (vars [StreamsBlockedFrame_FrameType f, sb_StreamLimit f])"

definition NewConnectionIdFrame_WriteTo :: "NewConnectionIdFrame \<Rightarrow> bytes res" where
  "NewConnectionIdFrame_WriteTo f =
     cat_res (vars [NewConnectionIdType, nc_Sequence f, nc_RetirePriorTo f]
       @ [Inr [nc_Length f], Inr (nc_ConnectionId f), Inr (nc_StatelessResetToken f)])"

definition RetireConnectionId_WriteTo :: "u64 \<Rightarrow> bytes res" where
  "RetireConnectionId_WriteTo n = cat_res (vars [RetireConnectionIdType, n])"

definition PathChallenge_WriteTo :: "bytes \<Rightarrow> bytes res" where
  "PathChallenge_WriteTo d = cat_res (vars [PathChallengeType] @ [Inr d])"

definition PathResponse_WriteTo :: "bytes \<Rightarrow> bytes res" where
  "PathResponse_WriteTo d = cat_res (vars [PathResponseType] @ [Inr d])"

definition ConnectionCloseFrame_WriteTo :: "ConnectionCloseFrame \<Rightarrow> bytes res" where
  "ConnectionCloseFrame_WriteTo f =
     cat_res (vars [ConnectionCloseType, cc_ErrorCode f, cc_ErrorFrameType f, cc_ReasonPhraseLength f]
       @ (if cc_ReasonPhraseLength f > 0 then [Inr (cc_ReasonPhrase f)] else []))"

definition ApplicationCloseFrame_WriteTo :: "ApplicationCloseFrame \<Rightarrow> bytes res" where
  "ApplicationCloseFrame_WriteTo f =
     cat_res (vars [ApplicationCloseType, ac_ErrorCode f, ac_ReasonPhraseLength f]
       @ (if ac_ReasonPhraseLength f > 0 then [Inr (ac_ReasonPhrase f)] else []))"

fun WriteTo :: "Frame \<Rightarrow> bytes res" where
  "WriteTo PaddingFrame = WriteVarInt PaddingFrameType"
| "WriteTo PingFrame = WriteVarInt PingType"
| "WriteTo (Ack f) = AckFrame_WriteTo f"
| "WriteTo (AckECN f) = AckECNFrame_WriteTo f"
| "WriteTo (Reset f) = ResetStream_WriteTo f"
| "WriteTo (StopSending f) = StopSendingFrame_WriteTo f"
| "WriteTo (Crypto f) = CryptoFrame_WriteTo f"
| "WriteTo (NewToken t) = NewTokenFrame_WriteTo t"
| "WriteTo (StreamF f) = StreamFrame_WriteTo f"
| "WriteTo (MaxData m) = MaxDataFrame_WriteTo m"
| "WriteTo (MaxStreamData f) = MaxStreamDataFrame_WriteTo f"
| "WriteTo (MaxStreams f) = MaxStreamsFrame_WriteTo f"
| "WriteTo (DataBlocked m) = DataBlockedFrame_WriteTo m"
| "WriteTo (StreamDataBlocked f) = StreamDataBlockedFrame_WriteTo f"
| "WriteTo (StreamsBlocked f) = StreamsBlockedFrame_WriteTo f"
| "WriteTo (NewConnectionId f) = NewConnectionIdFrame_WriteTo f"
| "WriteTo (RetireConnectionId n) = RetireConnectionId_WriteTo n"
| "WriteTo (PathChallenge d) = PathChallenge_WriteTo d"
| "WriteTo (PathResponse d) = PathResponse_WriteTo d"
| "WriteTo (ConnectionClose f) = ConnectionCloseFrame_WriteTo f"
| "WriteTo (ApplicationClose f) = ApplicationCloseFrame_WriteTo f"
| "WriteTo HandshakeDone = WriteVarInt HandshakeDoneType"

section \<open>Lengths\<close>

text \<open>\<open>VarIntLens xs\<close>: the sum of \<^verbatim>\<open>VarIntLen\<close> over the numbers, a panic if one of them is too large.\<close>

fun VarIntLens :: "u64 list \<Rightarrow> nat res" where
  "VarIntLens [] = Inr 0"
| "VarIntLens (x # xs) = bind_res (VarIntLen x) (\<lambda>a. bind_res (VarIntLens xs) (\<lambda>b. Inr (a + b)))"

definition len_vars :: "u16 \<Rightarrow> u64 list \<Rightarrow> u16 \<Rightarrow> u16 res" where
  "len_vars a xs c = bind_res (VarIntLens xs) (\<lambda>n. Inr (a + of_nat n + c))"

fun ack_ranges_len :: "nat \<Rightarrow> AckRange list \<Rightarrow> u16 \<Rightarrow> u16 res" where
  "ack_ranges_len i [] len = Inr len"
| "ack_ranges_len i (ack # rest) len =
     bind_res (if i > 0 then len_vars len [ar_Gap ack] 0 else Inr len) (\<lambda>len.
     bind_res (len_vars len [ar_AckRange ack] 0) (\<lambda>len.
     ack_ranges_len (i + 1) rest len))"

definition AckFrame_FrameLength :: "AckFrame \<Rightarrow> u16 res" where
  "AckFrame_FrameLength f =
     bind_res (len_vars 1 [af_LargestAcknowledged f, af_AckDelay f, af_AckRangeCount f] 0) (\<lambda>len.
     ack_ranges_len 0 (af_AckRanges f) len)"

definition AckECNFrame_FrameLength :: "AckECNFrame \<Rightarrow> u16 res" where
  "AckECNFrame_FrameLength f =
     bind_res (AckFrame_FrameLength (ae_AckFrame f)) (\<lambda>l.
     len_vars l [ae_ECT0Count f, ae_ECT1Count f, ae_ECTCECount f] 0)"

definition StreamFrame_FrameLength :: "StreamFrame \<Rightarrow> u16 res" where
  "StreamFrame_FrameLength f =
     bind_res (len_vars 1 [sf_StreamId f] 0) (\<lambda>len.
     bind_res (if sf_OffBit f then len_vars len [sf_Offset f] 0 else Inr len) (\<lambda>len.
     bind_res (if sf_LenBit f then len_vars len [sf_Length f] 0 else Inr len) (\<lambda>len.
     Inr (len + of_nat (length (sf_StreamData f))))))"

fun FrameLength :: "Frame \<Rightarrow> u16 res" where
  "FrameLength PaddingFrame = Inr 1"
| "FrameLength PingFrame = Inr 1"
| "FrameLength (Ack f) = AckFrame_FrameLength f"
| "FrameLength (AckECN f) = AckECNFrame_FrameLength f"
| "FrameLength (Reset f) = len_vars 1 [rs_StreamId f, rs_ApplicationErrorCode f, rs_FinalSize f] 0"
| "FrameLength (StopSending f) = len_vars 1 [ss_StreamId f, ss_ApplicationErrorCode f] 0"
| "FrameLength (Crypto f) = len_vars 1 [cf_Offset f, cf_Length f] (of_nat (length (cf_CryptoData f)))"
| "FrameLength (NewToken t) = len_vars 1 [of_nat (length t)] (of_nat (length t))"
| "FrameLength (StreamF f) = StreamFrame_FrameLength f"
| "FrameLength (MaxData m) = len_vars 1 [m] 0"
| "FrameLength (MaxStreamData f) = len_vars 1 [ms_StreamId f, ms_MaximumStreamData f] 0"
| "FrameLength (MaxStreams f) = len_vars 1 [mx_MaximumStreams f] 0"
| "FrameLength (DataBlocked m) = len_vars 1 [m] 0"
| "FrameLength (StreamDataBlocked f) = len_vars 1 [sd_StreamId f, sd_StreamDataLimit f] 0"
| "FrameLength (StreamsBlocked f) = len_vars 1 [sb_StreamLimit f] 0"
| "FrameLength (NewConnectionId f) =
     len_vars 1 [nc_Sequence f, nc_RetirePriorTo f] (1 + of_nat (length (nc_ConnectionId f)) + 16)"
| "FrameLength (RetireConnectionId n) = len_vars 1 [n] 0"
| "FrameLength (PathChallenge _) = Inr (1 + 8)"
| "FrameLength (PathResponse _) = Inr (1 + 8)"
| "FrameLength (ConnectionClose f) =
     len_vars 1 [cc_ErrorCode f, cc_ErrorFrameType f, cc_ReasonPhraseLength f]
       (ucast (cc_ReasonPhraseLength f))"
| "FrameLength (ApplicationClose f) =
     len_vars (1 + 2) [ac_ReasonPhraseLength f] (ucast (ac_ReasonPhraseLength f))"
| "FrameLength HandshakeDone = Inr 1"

section \<open>Constructors and queries\<close>

definition NewCryptoFrame :: "Stream \<Rightarrow> bytes \<Rightarrow> CryptoFrame \<times> Stream" where
  "NewCryptoFrame s data =
     (let f = \<lparr>cf_Offset = WriteOffset s, cf_Length = of_nat (length data), cf_CryptoData = data\<rparr>
      in (f, s\<lparr>WriteOffset := WriteOffset s + cf_Length f, WriteData := WriteData s @ data\<rparr>))"

definition NewStreamFrame :: "u64 \<Rightarrow> u64 \<Rightarrow> bytes \<Rightarrow> bool \<Rightarrow> StreamFrame" where
  "NewStreamFrame streamId off data finBit =
     \<lparr>sf_FinBit = finBit, sf_LenBit = True, sf_OffBit = off > 0, sf_StreamId = streamId,
      sf_Offset = off, sf_Length = of_nat (length data), sf_StreamData = data\<rparr>"

definition NewPathResponse :: "bytes \<Rightarrow> Frame" where
  "NewPathResponse data = PathResponse data"

definition AckFrame_Equal :: "AckFrame \<Rightarrow> AckFrame \<Rightarrow> bool" where
  "AckFrame_Equal f g \<longleftrightarrow> af_AckRangeCount f = af_AckRangeCount g \<and> af_AckRanges f = af_AckRanges g \<and>
     af_LargestAcknowledged f = af_LargestAcknowledged g"

text \<open>
  \<^verbatim>\<open>GetAckedPackets\<close>: \<open>count_down n p\<close> is the loop that decrements \<open>n\<close> times and appends each number, with the
  last number. The gap loop runs once more than the gap says, and appends too.
\<close>

fun count_down :: "nat \<Rightarrow> PacketNumber \<Rightarrow> PacketNumber list \<times> PacketNumber" where
  "count_down 0 p = ([], p)"
| "count_down (Suc n) p = (case count_down n (p - 1) of (ps, q) \<Rightarrow> ((p - 1) # ps, q))"

fun acked_blocks :: "AckRange list \<Rightarrow> PacketNumber \<Rightarrow> PacketNumber list" where
  "acked_blocks [] p = []"
| "acked_blocks (b # bs) p =
     (case count_down (unat (ar_Gap b) + 1) p of (ps, p) \<Rightarrow>
      case count_down (unat (ar_AckRange b)) p of (qs, p) \<Rightarrow> ps @ qs @ acked_blocks bs p)"

definition GetAckedPackets :: "AckFrame \<Rightarrow> PacketNumber list res" where
  "GetAckedPackets f =
     (case af_AckRanges f of
        [] \<Rightarrow> Inl IndexOutOfRange
      | b # bs \<Rightarrow>
          (case count_down (unat (ar_AckRange b)) (af_LargestAcknowledged f) of (ps, p) \<Rightarrow>
           Inr (af_LargestAcknowledged f # ps @ acked_blocks bs p)))"

section \<open>Lengths are the lengths of what is written\<close>

lemma EncodeVarInt_type: "i \<le> 63 \<Longrightarrow> EncodeVarInt i = Inr [ucast i]"
  by (simp add: EncodeVarInt_def maxVarInt1_def)

lemma VarIntLens_vars: "cat_res (vars xs) = Inr b \<Longrightarrow> VarIntLens xs = Inr (length b)"
  by (induction xs arbitrary: b) (auto simp: vars_def WriteVarInt_def VarIntLen_EncodeVarInt)

text \<open>A frame that is a one-byte type, some numbers and a tail.\<close>

lemma len_vars_written:
  assumes "cat_res (vars (ty # xs) @ map Inr ts) = Inr b" "ty \<le> 63"
  shows "len_vars 1 xs (of_nat (length (concat ts))) = Inr (of_nat (length b))"
proof -
  have tail: "cat_res (map Inr ts) = Inr (concat ts)"
    by (induction ts) auto
  obtain c where c: "cat_res (vars xs) = Inr c" "b = ucast ty # c @ concat ts"
    using assms by (auto simp: vars_def cat_res_append tail WriteVarInt_def EncodeVarInt_type)
  then show ?thesis by (simp add: len_vars_def VarIntLens_vars)
qed

lemmas len_vars_written_simps =
  len_vars_written [where ts = "[]", simplified]
  len_vars_written [where ts = "[t]" for t, simplified]

lemma ack_ranges_written:
  "cat_res (ack_ranges_out i rs) = Inr b \<Longrightarrow> ack_ranges_len i rs l = Inr (l + of_nat (length b))"
proof (induction i rs l arbitrary: b rule: ack_ranges_len.induct)
  case (2 i ack rest len)
  obtain g r t where b: "cat_res (if i > 0 then vars [ar_Gap ack] else []) = Inr g"
    "cat_res (vars [ar_AckRange ack]) = Inr r" "cat_res (ack_ranges_out (i + 1) rest) = Inr t"
    "b = g @ r @ t"
    using "2.prems" by (auto simp: cat_res_append simp del: cat_res.simps)
  have g: "(if i > 0 then len_vars len [ar_Gap ack] 0 else Inr len) = Inr (len + of_nat (length g))"
    using b(1) VarIntLens_vars [of "[ar_Gap ack]" g] by (auto simp: len_vars_def)
  have r: "len_vars l [ar_AckRange ack] 0 = Inr (l + of_nat (length r))" for l
    using VarIntLens_vars [OF b(2)] by (simp add: len_vars_def del: VarIntLens.simps)
  from "2.IH" [OF g r b(3)] show ?case
    using g r b(4) by (simp add: add.assoc)
qed simp

lemma AckFrame_length: "AckFrame_WriteTo f = Inr b \<Longrightarrow> AckFrame_FrameLength f = Inr (of_nat (length b))"
proof -
  assume w: "AckFrame_WriteTo f = Inr b"
  obtain c d where c: "cat_res (vars [AckType, af_LargestAcknowledged f, af_AckDelay f, af_AckRangeCount f]) = Inr c"
    "cat_res (ack_ranges_out 0 (af_AckRanges f)) = Inr d" "b = c @ d"
    using w by (auto simp: AckFrame_WriteTo_def cat_res_append simp del: cat_res.simps)
  then show ?thesis
    using len_vars_written_simps(1) [OF c(1)] ack_ranges_written [OF c(2)]
    by (simp add: AckFrame_FrameLength_def AckType_def)
qed

text \<open>
  What \<^verbatim>\<open>FrameLength\<close> takes for granted: the arrays have their size, the reason phrase has the announced
  length, and the error code of an APPLICATION\_CLOSE takes two bytes.
\<close>

fun length_ok :: "Frame \<Rightarrow> bool" where
  "length_ok (NewConnectionId f) \<longleftrightarrow> length (nc_StatelessResetToken f) = 16"
| "length_ok (PathChallenge d) \<longleftrightarrow> length d = 8"
| "length_ok (PathResponse d) \<longleftrightarrow> length d = 8"
| "length_ok (ConnectionClose f) \<longleftrightarrow> unat (cc_ReasonPhraseLength f) = length (cc_ReasonPhrase f)"
| "length_ok (ApplicationClose f) \<longleftrightarrow> unat (ac_ReasonPhraseLength f) = length (ac_ReasonPhrase f) \<and>
     VarIntLen (ac_ErrorCode f) = Inr 2"
| "length_ok _ \<longleftrightarrow> True"

lemma ucast_length_u16: "unat (n :: u64) = k \<Longrightarrow> (ucast n :: u16) = of_nat k"
  by (auto simp: word_unat_eq_iff unsigned_ucast_eq unsigned_of_nat)

lemma AckECNFrame_length:
  assumes "AckECNFrame_WriteTo f = Inr b"
  shows "AckECNFrame_FrameLength f = Inr (of_nat (length b))"
proof -
  obtain c d where "AckFrame_WriteTo (ae_AckFrame f) = Inr c"
    "cat_res (vars [ae_ECT0Count f, ae_ECT1Count f, ae_ECTCECount f]) = Inr d" "b = c @ d"
    using assms unfolding AckECNFrame_WriteTo_def cat_res.simps(2) [of "AckFrame_WriteTo (ae_AckFrame f)"]
    by (auto simp del: cat_res.simps)
  then show ?thesis
    by (simp add: AckECNFrame_FrameLength_def AckFrame_length len_vars_def VarIntLens_vars
        del: VarIntLens.simps)
qed

lemma StreamFrame_typeByte_small: "StreamFrame_typeByte f \<le> 63"
  by (simp add: StreamFrame_typeByte_def StreamType_def Let_def)

lemma StreamFrame_length:
  assumes "StreamFrame_WriteTo f = Inr b"
  shows "StreamFrame_FrameLength f = Inr (of_nat (length b))"
  using assms EncodeVarInt_type [OF StreamFrame_typeByte_small [of f]]
  by (auto simp: StreamFrame_WriteTo_def StreamFrame_FrameLength_def vars_def WriteVarInt_def len_vars_def
      VarIntLen_EncodeVarInt cat_res_append split: if_splits)

lemmas frame_writers = ResetStream_WriteTo_def StopSendingFrame_WriteTo_def CryptoFrame_WriteTo_def
  NewTokenFrame_WriteTo_def MaxDataFrame_WriteTo_def MaxStreamDataFrame_WriteTo_def
  MaxStreamsFrame_WriteTo_def DataBlockedFrame_WriteTo_def StreamDataBlockedFrame_WriteTo_def
  StreamsBlockedFrame_WriteTo_def NewConnectionIdFrame_WriteTo_def RetireConnectionId_WriteTo_def
  PathChallenge_WriteTo_def PathResponse_WriteTo_def ConnectionCloseFrame_WriteTo_def
  ApplicationCloseFrame_WriteTo_def MaxStreamsFrame_FrameType_def StreamsBlockedFrame_FrameType_def

section \<open>Acknowledged packets\<close>

definition run_down :: "nat \<Rightarrow> PacketNumber \<Rightarrow> PacketNumber list" where
  "run_down n p = map (\<lambda>i. p - of_nat i) [0 ..< n]"

lemma run_down_Suc: "run_down (Suc n) p = p # run_down n (p - 1)"
  by (rule nth_equalityI) (auto simp: run_down_def nth_Cons algebra_simps simp del: upt_Suc split: nat.split)

lemma run_down_add: "run_down (m + n) p = run_down m p @ run_down n (p - of_nat m)"
  by (rule nth_equalityI) (auto simp: run_down_def nth_append algebra_simps)

lemma count_down_run: "count_down n p = (run_down n (p - 1), p - of_nat n)"
proof (induction n arbitrary: p)
  case (Suc n)
  then show ?case by (simp add: run_down_Suc algebra_simps)
qed (simp add: run_down_def)

fun blocks_size :: "AckRange list \<Rightarrow> nat" where
  "blocks_size [] = 0"
| "blocks_size (b # bs) = unat (ar_Gap b) + 1 + unat (ar_AckRange b) + blocks_size bs"

lemma acked_blocks_run: "acked_blocks bs p = run_down (blocks_size bs) (p - 1)"
proof (induction bs arbitrary: p)
  case (Cons b bs)
  let ?g = "unat (ar_Gap b) + 1" and ?r = "unat (ar_AckRange b)"
  have "acked_blocks (b # bs) p = run_down ?g (p - 1) @ run_down ?r (p - of_nat ?g - 1)
      @ run_down (blocks_size bs) (p - of_nat ?g - of_nat ?r - 1)"
    by (simp only: acked_blocks.simps count_down_run prod.case Cons.IH)
  also have "\<dots> = run_down (?g + (?r + blocks_size bs)) (p - 1)"
    by (simp only: run_down_add) (simp add: algebra_simps)
  finally show ?case by (simp add: add.assoc)
qed (simp add: run_down_def)

section \<open>Properties\<close>



text \<open>
  The length of an APPLICATION\_CLOSE is wrong for every error code that does not take two bytes: without a
  reason phrase, \<^verbatim>\<open>FrameLength\<close> answers 4 while code 0 is written in 3 bytes.
\<close>

lemma application_close_length_wrong:
  "WriteTo (ApplicationClose \<lparr>ac_ErrorCode = 0, ac_ReasonPhraseLength = 0, ac_ReasonPhrase = []\<rparr>)
     = Inr [0x1d, 0, 0] \<and>
   FrameLength (ApplicationClose \<lparr>ac_ErrorCode = 0, ac_ReasonPhraseLength = 0, ac_ReasonPhrase = []\<rparr>)
     = Inr 4"
  by (simp add: frame_writers frame_types vars_def WriteVarInt_def EncodeVarInt_type len_vars_def
      VarIntLen_def maxVarInt1_def)

text \<open>
  What \<^verbatim>\<open>GetAckedPackets\<close> returns: for an ACK frame with ranges it is the unbroken run of packet numbers
  downwards from the largest acknowledged one, of length one plus the first range plus, for every further range,
  its gap, one and its length. The packets of the gaps are in it, and it stops short of the
  last packet of the last range. A frame without ranges is an index out of range.
\<close>

lemma GetAckedPackets_run:
  "GetAckedPackets f =
     (case af_AckRanges f of
        [] \<Rightarrow> Inl IndexOutOfRange
      | b # bs \<Rightarrow> Inr (map (\<lambda>i. af_LargestAcknowledged f - of_nat i)
                        [0 ..< 1 + unat (ar_AckRange b) + blocks_size bs]))"
proof (cases "af_AckRanges f")
  case (Cons b bs)
  let ?L = "af_LargestAcknowledged f" and ?r = "unat (ar_AckRange b)"
  have "?L # run_down ?r (?L - 1) @ run_down (blocks_size bs) (?L - of_nat ?r - 1)
      = run_down (Suc (?r + blocks_size bs)) ?L"
    by (simp only: run_down_Suc run_down_add) (simp add: algebra_simps)
  with Cons show ?thesis
    by (simp add: GetAckedPackets_def count_down_run acked_blocks_run run_down_def del: upt_Suc)
qed (simp add: GetAckedPackets_def)

end
