(* ===== verification/FrameCodec.thy ===== *)
theory FrameCodec
  imports Frames
begin

text \<open>
  The readers of \<^verbatim>\<open>frames.go\<close>, \<^verbatim>\<open>NewFrameFromType\<close> and \<^verbatim>\<open>NewFrame\<close>.

  A reader takes the rest of the payload and the streams of the connection, since reading a STREAM frame
  hands its data to the stream at once. Numbers that cannot be read are 0, as in the code, which drops the
  errors; a slice of an announced length that cannot be allocated is a panic.

  The main theorem is the round trip: what \<^verbatim>\<open>WriteTo\<close> wrote for a well-formed frame is read back as that frame,
  whatever follows. The frames for which this fails are excluded by \<open>wf_frame\<close>, and the last section
  shows the failures: the type of an ACK\_ECN frame and the direction of MAX\_STREAMS and STREAMS\_BLOCKED.
\<close>

section \<open>The readers\<close>

text \<open>\<^verbatim>\<open>_, _ = ReadVarInt(buffer)\<close> and \<^verbatim>\<open>buffer.ReadByte()\<close> with the result dropped.\<close>

definition skip_var :: "reader \<Rightarrow> reader" where
  "skip_var r = snd (ReadVarInt r)"

definition skip_byte :: "reader \<Rightarrow> reader" where
  "skip_byte r = snd (ReadByte r)"

text \<open>\<^verbatim>\<open>b, _ := buffer.ReadByte()\<close>: 0 at the end.\<close>

definition rd_byte :: "reader \<Rightarrow> u8 \<times> reader" where
  "rd_byte r = (case ReadByte r of (Inr b, r') \<Rightarrow> (b, r') | (Inl _, r') \<Rightarrow> (0, r'))"

text \<open>\<^verbatim>\<open>buffer.Read(data[:])\<close> into a zeroed array of \<open>n\<close> bytes.\<close>

definition rd_array :: "nat \<Rightarrow> reader \<Rightarrow> bytes \<times> reader" where
  "rd_array n r = (case rd_Read (replicate n 0) r of (_, _, b, r') \<Rightarrow> (b, r'))"

definition NewPaddingFrame :: "reader \<Rightarrow> Frame \<times> reader" where
  "NewPaddingFrame r = (PaddingFrame, skip_var r)"

definition NewPingFrame :: "reader \<Rightarrow> Frame \<times> reader" where
  "NewPingFrame r = (PingFrame, skip_var r)"

fun read_ranges :: "nat \<Rightarrow> reader \<Rightarrow> AckRange list \<times> reader" where
  "read_ranges 0 r = ([], r)"
| "read_ranges (Suc n) r =
     (case rd_var r of (gap, r) \<Rightarrow>
      case rd_var r of (rng, r) \<Rightarrow>
      case read_ranges n r of (rest, r) \<Rightarrow> (\<lparr>ar_Gap = gap, ar_AckRange = rng\<rparr> # rest, r))"

definition ReadAckFrame :: "reader \<Rightarrow> AckFrame \<times> reader" where
  "ReadAckFrame r =
     (case ReadPacketNumber (skip_byte r) of (largest, r) \<Rightarrow>
      case rd_var r of (delay, r) \<Rightarrow>
      case rd_var r of (cnt, r) \<Rightarrow>
      case rd_var r of (firstRange, r) \<Rightarrow>
      case read_ranges (unat cnt) r of (rest, r) \<Rightarrow>
      (\<lparr>af_LargestAcknowledged = largest, af_AckDelay = delay, af_AckRangeCount = cnt,
        af_AckRanges = \<lparr>ar_Gap = 0, ar_AckRange = firstRange\<rparr> # rest\<rparr>, r))"

definition ReadAckECNFrame :: "reader \<Rightarrow> AckECNFrame \<times> reader" where
  "ReadAckECNFrame r =
     (case ReadAckFrame r of (f, r) \<Rightarrow>
      case rd_var r of (ect0, r) \<Rightarrow>
      case rd_var r of (ect1, r) \<Rightarrow>
      case rd_var r of (ce, r) \<Rightarrow>
      (\<lparr>ae_AckFrame = f, ae_ECT0Count = ect0, ae_ECT1Count = ect1, ae_ECTCECount = ce\<rparr>, r))"

definition NewResetStream :: "reader \<Rightarrow> ResetStream \<times> reader" where
  "NewResetStream r =
     (case rd_var (skip_var r) of (sid, r) \<Rightarrow>
      case rd_var r of (code, r) \<Rightarrow>
      case rd_var r of (fsize, r) \<Rightarrow>
      (\<lparr>rs_StreamId = sid, rs_ApplicationErrorCode = code, rs_FinalSize = fsize\<rparr>, r))"

definition NewStopSendingFrame :: "reader \<Rightarrow> StopSendingFrame \<times> reader" where
  "NewStopSendingFrame r =
     (case rd_var (skip_var r) of (sid, r) \<Rightarrow>
      case rd_var r of (code, r) \<Rightarrow>
      (\<lparr>ss_StreamId = sid, ss_ApplicationErrorCode = code\<rparr>, r))"

definition ReadCryptoFrame :: "reader \<Rightarrow> (CryptoFrame \<times> reader) res" where
  "ReadCryptoFrame r =
     (case rd_var (skip_var r) of (off, r) \<Rightarrow>
      case rd_var r of (len, r) \<Rightarrow>
      bind_res (make_Read (unat len) r) (\<lambda>(data, r).
      Inr (\<lparr>cf_Offset = off, cf_Length = len, cf_CryptoData = data\<rparr>, r)))"

definition ReadNewTokenFrame :: "reader \<Rightarrow> (bytes \<times> reader) res" where
  "ReadNewTokenFrame r =
     (case rd_var (skip_var r) of (tokenLength, r) \<Rightarrow> make_Read (unat tokenLength) r)"

definition parse_StreamFrame :: "reader \<Rightarrow> (StreamFrame \<times> reader) res" where
  "parse_StreamFrame r =
     (case rd_byte r of (typeByte, r) \<Rightarrow>
      let fin = (typeByte AND 0x01 = 0x01);
          len = (typeByte AND 0x02 = 0x02);
          off = (typeByte AND 0x04 = 0x04)
      in
      case rd_var r of (sid, r) \<Rightarrow>
      case (if off then rd_var r else (0, r)) of (offset', r) \<Rightarrow>
      case (if len then rd_var r else (of_nat (rd_Len r), r)) of (length', r) \<Rightarrow>
      bind_res (make_Read (unat length') r) (\<lambda>(data, r).
      Inr (\<lparr>sf_FinBit = fin, sf_LenBit = len, sf_OffBit = off, sf_StreamId = sid,
            sf_Offset = offset', sf_Length = length', sf_StreamData = data\<rparr>, r)))"

definition ReadStreamFrame :: "reader \<Rightarrow> Streams \<Rightarrow> (StreamFrame \<times> reader \<times> Streams) res" where
  "ReadStreamFrame r S =
     bind_res (parse_StreamFrame r) (\<lambda>(f, r).
     bind_res (Streams_add (sf_StreamId f) f S) (\<lambda>S. Inr (f, r, S)))"

definition NewMaxDataFrame :: "reader \<Rightarrow> u64 \<times> reader" where
  "NewMaxDataFrame r = rd_var (skip_var r)"

definition NewMaxStreamDataFrame :: "reader \<Rightarrow> MaxStreamDataFrame \<times> reader" where
  "NewMaxStreamDataFrame r =
     (case rd_var (skip_var r) of (sid, r) \<Rightarrow>
      case rd_var r of (m, r) \<Rightarrow> (\<lparr>ms_StreamId = sid, ms_MaximumStreamData = m\<rparr>, r))"

text \<open>The field \<^verbatim>\<open>StreamsType\<close> keeps its zero value in the next two readers of this kind.\<close>

definition NewMaxStreamIdFrame :: "reader \<Rightarrow> MaxStreamsFrame \<times> reader" where
  "NewMaxStreamIdFrame r =
     (case rd_var (skip_var r) of (m, r) \<Rightarrow> (\<lparr>mx_StreamsType = BidiStreams, mx_MaximumStreams = m\<rparr>, r))"

definition NewBlockedFrame :: "reader \<Rightarrow> u64 \<times> reader" where
  "NewBlockedFrame r = rd_var (skip_var r)"

definition NewStreamBlockedFrame :: "reader \<Rightarrow> StreamDataBlockedFrame \<times> reader" where
  "NewStreamBlockedFrame r =
     (case rd_var (skip_var r) of (sid, r) \<Rightarrow>
      case rd_var r of (m, r) \<Rightarrow> (\<lparr>sd_StreamId = sid, sd_StreamDataLimit = m\<rparr>, r))"

definition NewStreamIdNeededFrame :: "reader \<Rightarrow> StreamsBlockedFrame \<times> reader" where
  "NewStreamIdNeededFrame r =
     (case rd_var (skip_var r) of (m, r) \<Rightarrow> (\<lparr>sb_StreamsType = BidiStreams, sb_StreamLimit = m\<rparr>, r))"

definition NewNewConnectionIdFrame :: "reader \<Rightarrow> (NewConnectionIdFrame \<times> reader) res" where
  "NewNewConnectionIdFrame r =
     (case rd_var (skip_var r) of (sq, r) \<Rightarrow>
      case rd_var r of (retire, r) \<Rightarrow>
      case rd_byte r of (len, r) \<Rightarrow>
      bind_res (make_Read (unat len) r) (\<lambda>(cid, r).
      case binary_Read_bytes 16 r of (tok, r) \<Rightarrow>
      Inr (\<lparr>nc_Sequence = sq, nc_RetirePriorTo = retire, nc_Length = len, nc_ConnectionId = cid,
            nc_StatelessResetToken = tok\<rparr>, r)))"

definition ReadRetireConnectionId :: "reader \<Rightarrow> u64 \<times> reader" where
  "ReadRetireConnectionId r = rd_var (skip_byte r)"

definition ReadPathChallenge :: "reader \<Rightarrow> bytes \<times> reader" where
  "ReadPathChallenge r = rd_array 8 (skip_byte r)"

definition ReadPathResponse :: "reader \<Rightarrow> bytes \<times> reader" where
  "ReadPathResponse r = rd_array 8 (skip_byte r)"

definition rd_reason :: "u64 \<Rightarrow> reader \<Rightarrow> (bytes \<times> reader) res" where
  "rd_reason n r =
     (if n > 0 then bind_res (make_bytes (unat n)) (\<lambda>_. Inr (binary_Read_bytes (unat n) r))
      else Inr ([], r))"

definition NewConnectionCloseFrame :: "reader \<Rightarrow> (ConnectionCloseFrame \<times> reader) res" where
  "NewConnectionCloseFrame r =
     (case rd_var (skip_var r) of (code, r) \<Rightarrow>
      case rd_var r of (ty, r) \<Rightarrow>
      case rd_var r of (n, r) \<Rightarrow>
      bind_res (rd_reason n r) (\<lambda>(reason, r).
      Inr (\<lparr>cc_ErrorCode = code, cc_ErrorFrameType = ty, cc_ReasonPhraseLength = n,
            cc_ReasonPhrase = reason\<rparr>, r)))"

definition NewApplicationCloseFrame :: "reader \<Rightarrow> (ApplicationCloseFrame \<times> reader) res" where
  "NewApplicationCloseFrame r =
     (case rd_var (skip_var r) of (code, r) \<Rightarrow>
      case rd_var r of (n, r) \<Rightarrow>
      bind_res (rd_reason n r) (\<lambda>(reason, r).
      Inr (\<lparr>ac_ErrorCode = code, ac_ReasonPhraseLength = n, ac_ReasonPhrase = reason\<rparr>, r)))"

definition NewHandshakeDoneFrame :: "reader \<Rightarrow> Frame \<times> reader" where
  "NewHandshakeDoneFrame r = (HandshakeDone, skip_var r)"

section \<open>Dispatch\<close>

text \<open>The decimal representation that \<^verbatim>\<open>%d\<close> prints.\<close>

fun decimal :: "nat \<Rightarrow> string" where
  "decimal n = (if n < 10 then [char_of (48 + n)] else decimal (n div 10) @ [char_of (48 + n mod 10)])"

declare decimal.simps [simp del]

definition unknown_frame_type :: "FrameType \<Rightarrow> go_error" where
  "unknown_frame_type t = ErrorString (''Unknown frame type '' @ decimal (unat t))"

type_synonym frame_result = "((go_error + Frame) \<times> reader \<times> Streams) res"

definition read_ok :: "('a \<Rightarrow> Frame) \<Rightarrow> Streams \<Rightarrow> 'a \<times> reader \<Rightarrow> frame_result" where
  "read_ok c S p = Inr (Inr (c (fst p)), snd p, S)"

definition read_res :: "('a \<Rightarrow> Frame) \<Rightarrow> Streams \<Rightarrow> ('a \<times> reader) res \<Rightarrow> frame_result" where
  "read_res c S m = bind_res m (read_ok c S)"

definition NewFrameFromType :: "FrameType \<Rightarrow> reader \<Rightarrow> Streams \<Rightarrow> frame_result" where
  "NewFrameFromType t r S =
     (if t = PaddingFrameType then read_ok id S (NewPaddingFrame r)
      else if t = PingType then read_ok id S (NewPingFrame r)
      else if t = AckType then read_ok Ack S (ReadAckFrame r)
      else if t = AckECNType then read_ok AckECN S (ReadAckECNFrame r)
      else if t = ResetStreamType then read_ok Reset S (NewResetStream r)
      else if t = StopSendingType then read_ok StopSending S (NewStopSendingFrame r)
      else if t = CryptoType then read_res Crypto S (ReadCryptoFrame r)
      else if t = NewTokenType then read_res NewToken S (ReadNewTokenFrame r)
      else if t AND StreamType = StreamType \<and> t \<le> 0x0f then
        bind_res (ReadStreamFrame r S) (\<lambda>(f, r, S). Inr (Inr (StreamF f), r, S))
      else if t = MaxDataType then read_ok MaxData S (NewMaxDataFrame r)
      else if t = MaxStreamDataType then read_ok MaxStreamData S (NewMaxStreamDataFrame r)
      else if t AND 0xFE = MaxStreamsType then read_ok MaxStreams S (NewMaxStreamIdFrame r)
      else if t = DataBlockedType then read_ok DataBlocked S (NewBlockedFrame r)
      else if t = StreamDataBlockedType then read_ok StreamDataBlocked S (NewStreamBlockedFrame r)
      else if t AND 0xFE = StreamsBlockedType then read_ok StreamsBlocked S (NewStreamIdNeededFrame r)
      else if t = NewConnectionIdType then read_res NewConnectionId S (NewNewConnectionIdFrame r)
      else if t = RetireConnectionIdType then read_ok RetireConnectionId S (ReadRetireConnectionId r)
      else if t = PathChallengeType then read_ok PathChallenge S (ReadPathChallenge r)
      else if t = PathResponseType then read_ok PathResponse S (ReadPathResponse r)
      else if t = ConnectionCloseType then read_res ConnectionClose S (NewConnectionCloseFrame r)
      else if t = ApplicationCloseType then read_res ApplicationClose S (NewApplicationCloseFrame r)
      else if t = HandshakeDoneType then read_ok id S (NewHandshakeDoneFrame r)
      else Inr (Inl (unknown_frame_type t), r, S))"

text \<open>\<open>unread n\<close>: the loop of \<^verbatim>\<open>UnreadByte\<close> calls, ended by the first error.\<close>

fun unread :: "nat \<Rightarrow> reader \<Rightarrow> go_error option \<times> reader" where
  "unread 0 r = (None, r)"
| "unread (Suc n) r = (case UnreadByte r of (Some e, r) \<Rightarrow> (Some e, r) | (None, r) \<Rightarrow> unread n r)"

text \<open>\<^verbatim>\<open>NewFrame\<close>: \<open>Inr None\<close> is the result \<^verbatim>\<open>nil, nil\<close> at the end of the payload.\<close>

definition NewFrame :: "reader \<Rightarrow> Streams \<Rightarrow> ((go_error + Frame option) \<times> reader \<times> Streams) res" where
  "NewFrame r S =
     (case ReadVarIntValue r of
        (Inl e, r) \<Rightarrow> if e = EOF then Inr (Inr None, r, S) else Inr (Inl e, r, S)
      | (Inr (typeValue, len), r) \<Rightarrow>
          (case unread len r of
             (Some e, r) \<Rightarrow> Inr (Inl e, r, S)
           | (None, r) \<Rightarrow>
               bind_res (NewFrameFromType typeValue r S) (\<lambda>(m, r, S).
               Inr (case m of Inl e \<Rightarrow> Inl e | Inr f \<Rightarrow> Inr (Some f), r, S))))"

section \<open>Reading what was written\<close>

lemma skip_byte_Cons [codec_simps]: "skip_byte (Reader d (b # t)) = Reader (b # d) t"
  by (simp add: skip_byte_def)

lemma skip_var_type [codec_simps]: "unat b < 64 \<Longrightarrow> skip_var (Reader d (b # t)) = Reader (b # d) t"
  using length_bits_or [rule_format, of b]
  by (simp add: skip_var_def ReadVarInt_def ReadVarIntValue_def Let_def)

lemma rd_var_0 [codec_simps]: "rd_var (Reader d (0 # t)) = (0, Reader (0 # d) t)"
  by (simp add: rd_var_def ReadVarIntValue_def Let_def)

lemma make_Read_all [codec_simps]:
  "length b = n \<Longrightarrow> n \<le> maxAlloc \<Longrightarrow> make_Read n (Reader d b) = Inr (b, Reader (rev b @ d) [])"
  using make_Read_append [of b n d "[]"] by simp

lemma rd_byte_Cons [codec_simps]: "rd_byte (Reader d (b # t)) = (b, Reader (b # d) t)"
  by (simp add: rd_byte_def)

lemma rd_array_append [codec_simps]:
  "length b = n \<Longrightarrow> 0 < n \<Longrightarrow> rd_array n (Reader d (b @ t)) = (b, Reader (rev b @ d) t)"
  by (auto simp: rd_array_def rd_Read_def copy_bytes_def)

lemma ReadPacketNumber_enc [codec_simps]:
  "EncodeVarInt i = Inr b \<Longrightarrow> ReadPacketNumber (Reader d (b @ t)) = (i, Reader (rev b @ d) t)"
  by (simp add: ReadPacketNumber_def rd_var_enc)

lemma rd_reason_append [codec_simps]:
  "unat n = length b \<Longrightarrow> length b \<le> maxAlloc \<Longrightarrow>
   rd_reason n (Reader d (b @ t)) = Inr (b, Reader (rev b @ d) t)"
  by (auto simp: rd_reason_def binary_Read_bytes_append word_less_nat_alt)

text \<open>\<open>written xs b\<close>: the bytes of the numbers \<open>xs\<close>, one after the other.\<close>

lemma vars_written:
  "cat_res (vars (x # xs) @ rest) = Inr b \<longleftrightarrow>
   (\<exists>c e. EncodeVarInt x = Inr c \<and> cat_res (vars xs @ rest) = Inr e \<and> b = c @ e)"
  by (auto simp: vars_def WriteVarInt_def)

lemma vars_Nil [simp]: "vars [] = []"
  by (simp add: vars_def)

lemma read_ranges_written:
  "cat_res (ack_ranges_out (Suc i) rs) = Inr b \<Longrightarrow>
   read_ranges (length rs) (Reader d (b @ t)) = (rs, Reader (rev b @ d) t)"
proof (induction rs arbitrary: i b d)
  case (Cons a rs)
  then obtain g k e where "EncodeVarInt (ar_Gap a) = Inr g" "EncodeVarInt (ar_AckRange a) = Inr k"
    "cat_res (ack_ranges_out (Suc (Suc i)) rs) = Inr e" "b = g @ k @ e"
    by (auto simp: vars_def WriteVarInt_def)
  with Cons.IH [of "Suc i" e "rev k @ rev g @ d"] show ?case
    by (simp add: codec_simps)
qed simp

text \<open>
  The frames that survive a round trip: the numbers fit by construction of \<open>WriteTo\<close>; what remains is that
  announced lengths are true, that slices can be allocated, that an ACK frame has a first range
  without a gap and counts the others, and that MAX\_STREAMS and STREAMS\_BLOCKED are bidirectional. A STREAM
  frame without a length reaches to the end of the payload (\<open>t\<close>).
\<close>

fun wf_ack :: "AckFrame \<Rightarrow> bool" where
  "wf_ack f \<longleftrightarrow> (case af_AckRanges f of
       [] \<Rightarrow> False | a # rs \<Rightarrow> ar_Gap a = 0 \<and> unat (af_AckRangeCount f) = length rs)"

fun wf_frame :: "bytes \<Rightarrow> Frame \<Rightarrow> bool" where
  "wf_frame t (Ack f) \<longleftrightarrow> wf_ack f"
| "wf_frame t (AckECN f) \<longleftrightarrow> False"
| "wf_frame t (Crypto f) \<longleftrightarrow> unat (cf_Length f) = length (cf_CryptoData f) \<and>
     length (cf_CryptoData f) \<le> maxAlloc"
| "wf_frame t (NewToken k) \<longleftrightarrow> length k \<le> maxAlloc"
| "wf_frame t (StreamF f) \<longleftrightarrow> unat (sf_Length f) = length (sf_StreamData f) \<and>
     length (sf_StreamData f) \<le> maxAlloc \<and> (\<not> sf_OffBit f \<longrightarrow> sf_Offset f = 0) \<and>
     (\<not> sf_LenBit f \<longrightarrow> t = [])"
| "wf_frame t (MaxStreams f) \<longleftrightarrow> mx_StreamsType f = BidiStreams"
| "wf_frame t (StreamsBlocked f) \<longleftrightarrow> sb_StreamsType f = BidiStreams"
| "wf_frame t (NewConnectionId f) \<longleftrightarrow> unat (nc_Length f) = length (nc_ConnectionId f) \<and>
     length (nc_StatelessResetToken f) = 16"
| "wf_frame t (PathChallenge d) \<longleftrightarrow> length d = 8"
| "wf_frame t (PathResponse d) \<longleftrightarrow> length d = 8"
| "wf_frame t (ConnectionClose f) \<longleftrightarrow> unat (cc_ReasonPhraseLength f) = length (cc_ReasonPhrase f) \<and>
     length (cc_ReasonPhrase f) \<le> maxAlloc"
| "wf_frame t (ApplicationClose f) \<longleftrightarrow> unat (ac_ReasonPhraseLength f) = length (ac_ReasonPhrase f) \<and>
     length (ac_ReasonPhrase f) \<le> maxAlloc"
| "wf_frame t _ \<longleftrightarrow> True"

text \<open>What reading a frame does to the streams of the connection.\<close>

fun frame_effect :: "Frame \<Rightarrow> Streams \<Rightarrow> Streams res" where
  "frame_effect (StreamF f) S = Streams_add (sf_StreamId f) f S"
| "frame_effect _ S = Inr S"

lemma ReadAckFrame_written:
  assumes "AckFrame_WriteTo f = Inr b" "wf_ack f"
  shows "ReadAckFrame (Reader d (b @ t)) = (f, Reader (rev b @ d) t)"
proof -
  obtain a rs where rs: "af_AckRanges f = a # rs" "ar_Gap a = 0" "unat (af_AckRangeCount f) = length rs"
    using assms(2) by (auto split: list.splits)
  obtain l y c k e where p: "EncodeVarInt (af_LargestAcknowledged f) = Inr l"
    "EncodeVarInt (af_AckDelay f) = Inr y" "EncodeVarInt (af_AckRangeCount f) = Inr c"
    "EncodeVarInt (ar_AckRange a) = Inr k" "cat_res (ack_ranges_out (Suc 0) rs) = Inr e"
    "b = 2 # l @ y @ c @ k @ e"
    using assms(1) unfolding AckFrame_WriteTo_def rs(1)
    by (auto simp: vars_def WriteVarInt_def AckType_def EncodeVarInt_type)
  have f: "f = \<lparr>af_LargestAcknowledged = af_LargestAcknowledged f, af_AckDelay = af_AckDelay f,
      af_AckRangeCount = af_AckRangeCount f, af_AckRanges = \<lparr>ar_Gap = 0, ar_AckRange = ar_AckRange a\<rparr> # rs\<rparr>"
    using rs by simp
  show ?thesis
    unfolding p(6) ReadAckFrame_def using p(1-4)
    by (subst f) (simp add: codec_simps rs(3) read_ranges_written [OF p(5)])
qed

definition wire_type :: "Frame \<Rightarrow> u64" where
  "wire_type f = (case f of StreamF s \<Rightarrow> StreamFrame_typeByte s | _ \<Rightarrow> FrameType f)"

lemmas frame_readers = NewPaddingFrame_def NewPingFrame_def NewResetStream_def NewStopSendingFrame_def
  ReadCryptoFrame_def ReadNewTokenFrame_def NewMaxDataFrame_def NewMaxStreamDataFrame_def
  NewMaxStreamIdFrame_def NewBlockedFrame_def NewStreamBlockedFrame_def NewStreamIdNeededFrame_def
  NewNewConnectionIdFrame_def ReadRetireConnectionId_def ReadPathChallenge_def ReadPathResponse_def
  NewConnectionCloseFrame_def NewApplicationCloseFrame_def NewHandshakeDoneFrame_def read_ok_def
  read_res_def

text \<open>Reading by the type that \<open>WriteTo\<close> wrote, one frame type at a time.\<close>

definition reads_back :: "bytes \<Rightarrow> Frame \<Rightarrow> bytes \<Rightarrow> bool" where
  "reads_back t f b \<longleftrightarrow>
     (\<exists>c. b = ucast (wire_type f) # c) \<and> wire_type f \<le> 63 \<and>
     (\<forall>d S. NewFrameFromType (wire_type f) (Reader d (b @ t)) S =
        bind_res (frame_effect f S) (\<lambda>S'. Inr (Inr f, Reader (rev b @ d) t, S')))"

lemma of_nat_length_u64: "length (k :: bytes) \<le> maxAlloc \<Longrightarrow> unat (of_nat (length k) :: u64) = length k"
  by (simp add: maxAlloc_def)

lemma u8_le_maxAlloc [simp]: "unat (n :: u8) \<le> maxAlloc"
  using u8_less [of n] by (simp add: maxAlloc_def del: u8_less)

lemmas frame_codec_defs = reads_back_def wire_type_def frame_writers frame_types vars_def WriteVarInt_def
  EncodeVarInt_type NewFrameFromType_def frame_readers codec_simps

definition is_special :: "Frame \<Rightarrow> bool" where
  "is_special f = (case f of Ack _ \<Rightarrow> True | StreamF _ \<Rightarrow> True | NewToken _ \<Rightarrow> True |
     NewConnectionId _ \<Rightarrow> True | ConnectionClose _ \<Rightarrow> True | ApplicationClose _ \<Rightarrow> True | _ \<Rightarrow> False)"

lemma reads_back_simple:
  assumes "WriteTo f = Inr b" "wf_frame t f" "\<not> is_special f"
  shows "reads_back t f b"
  using assms by (cases f) (auto simp: frame_codec_defs is_special_def)

lemma reads_back_NewConnectionId:
  assumes "WriteTo (NewConnectionId f) = Inr b" "wf_frame t (NewConnectionId f)"
  shows "reads_back t (NewConnectionId f) b"
proof -
  have "length (nc_ConnectionId f) \<le> maxAlloc"
    using assms(2) u8_le_maxAlloc [of "nc_Length f"] by simp
  then show ?thesis using assms by (auto simp: frame_codec_defs)
qed

lemma reads_back_NewToken:
  assumes "WriteTo (NewToken k) = Inr b" "wf_frame t (NewToken k)"
  shows "reads_back t (NewToken k) b"
  using assms of_nat_length_u64 [of k] by (auto simp: frame_codec_defs)

lemma rd_reason_0 [simp]: "rd_reason 0 r = Inr ([], r)"
  by (simp add: rd_reason_def)

lemma reads_back_ConnectionClose:
  assumes "WriteTo (ConnectionClose f) = Inr b" "wf_frame t (ConnectionClose f)"
  shows "reads_back t (ConnectionClose f) b"
proof (cases "cc_ReasonPhraseLength f = 0")
  case True
  then have "cc_ReasonPhrase f = []" using assms(2) by simp
  with True assms show ?thesis by (cases f) (auto simp: frame_codec_defs)
next
  case False
  then have "cc_ReasonPhraseLength f > 0" by (simp add: word_neq_0_conv)
  with assms show ?thesis by (auto simp: frame_codec_defs)
qed

lemma reads_back_ApplicationClose:
  assumes "WriteTo (ApplicationClose f) = Inr b" "wf_frame t (ApplicationClose f)"
  shows "reads_back t (ApplicationClose f) b"
proof (cases "ac_ReasonPhraseLength f = 0")
  case True
  then have "ac_ReasonPhrase f = []" using assms(2) by simp
  with True assms show ?thesis by (cases f) (auto simp: frame_codec_defs)
next
  case False
  then have "ac_ReasonPhraseLength f > 0" by (simp add: word_neq_0_conv)
  with assms show ?thesis by (auto simp: frame_codec_defs)
qed

lemma reads_back_Ack:
  assumes "WriteTo (Ack f) = Inr b" "wf_frame t (Ack f)"
  shows "reads_back t (Ack f) b"
proof -
  have "\<exists>c. b = 2 # c"
    using assms(1) by (auto simp: AckFrame_WriteTo_def vars_def WriteVarInt_def EncodeVarInt_type AckType_def)
  moreover have "ReadAckFrame (Reader d (b @ t)) = (f, Reader (rev b @ d) t)" for d
    using assms by (intro ReadAckFrame_written) auto
  ultimately show ?thesis
    by (auto simp: reads_back_def wire_type_def NewFrameFromType_def frame_types read_ok_def)
qed

text \<open>The eight type bytes of a STREAM frame.\<close>

lemma StreamFrame_typeByte_bits:
  "(ucast (StreamFrame_typeByte f) AND 0x01 = (0x01 :: u8)) = sf_FinBit f"
  "(ucast (StreamFrame_typeByte f) AND 0x02 = (0x02 :: u8)) = sf_LenBit f"
  "(ucast (StreamFrame_typeByte f) AND 0x04 = (0x04 :: u8)) = sf_OffBit f"
  "StreamFrame_typeByte f AND StreamType = StreamType" "StreamFrame_typeByte f \<le> 0x0f"
  "StreamFrame_typeByte f \<ge> 0x08"
  by (cases "sf_FinBit f"; cases "sf_LenBit f"; cases "sf_OffBit f";
      simp add: StreamFrame_typeByte_def StreamType_def Let_def)+

lemma parse_StreamFrame_written:
  assumes "StreamFrame_WriteTo f = Inr b" "wf_frame t (StreamF f)"
  shows "parse_StreamFrame (Reader d (b @ t)) = Inr (f, Reader (rev b @ d) t)"
proof -
  define ty where "ty = (ucast (StreamFrame_typeByte f) :: u8)"
  have bits: "(ty AND 0x01 = 0x01) = sf_FinBit f" "(ty AND 0x02 = 0x02) = sf_LenBit f"
    "(ty AND 0x04 = 0x04) = sf_OffBit f"
    unfolding ty_def by (rule StreamFrame_typeByte_bits)+
  have wf: "unat (sf_Length f) = length (sf_StreamData f)" "length (sf_StreamData f) \<le> maxAlloc"
    "\<not> sf_OffBit f \<Longrightarrow> sf_Offset f = 0" "\<not> sf_LenBit f \<Longrightarrow> t = []"
    using assms(2) by auto
  have len: "of_nat (length (sf_StreamData f)) = sf_Length f"
    using wf(1) by (metis of_nat_unat ucast_id)
  show ?thesis
    using assms(1) wf len bits EncodeVarInt_type [OF StreamFrame_typeByte_small [of f], folded ty_def]
    by (cases "sf_OffBit f"; cases "sf_LenBit f"; cases f)
       (auto simp: parse_StreamFrame_def StreamFrame_WriteTo_def vars_def WriteVarInt_def codec_simps)
qed

lemma reads_back_StreamF:
  assumes "WriteTo (StreamF f) = Inr b" "wf_frame t (StreamF f)"
  shows "reads_back t (StreamF f) b"
proof -
  note ty = StreamFrame_typeByte_bits [of f] StreamFrame_typeByte_small [of f]
  have "\<exists>c. b = ucast (StreamFrame_typeByte f) # c"
    using assms(1) by (auto simp: StreamFrame_WriteTo_def vars_def WriteVarInt_def EncodeVarInt_type [OF ty(7)])
  moreover have "parse_StreamFrame (Reader d (b @ t)) = Inr (f, Reader (rev b @ d) t)" for d
    using assms by (intro parse_StreamFrame_written) auto
  moreover have "StreamFrame_typeByte f \<notin> {0, 1, 2, 3, 4, 5, 6, 7}"
    using ty(6) by (auto simp: word_le_nat_alt)
  ultimately show ?thesis
    using ty(4,5,7)
    by (auto simp: reads_back_def wire_type_def NewFrameFromType_def frame_types ReadStreamFrame_def
        bind_res_assoc)
qed

lemma frame_reads_back:
  assumes "WriteTo f = Inr b" "wf_frame t f"
  shows "reads_back t f b"
proof (cases "is_special f")
  case True
  then show ?thesis
    using assms reads_back_Ack reads_back_StreamF reads_back_NewToken reads_back_NewConnectionId
      reads_back_ConnectionClose reads_back_ApplicationClose
    by (cases f) (auto simp: is_special_def)
qed (rule reads_back_simple [OF assms])

lemma NewFrame_type:
  assumes "ty \<le> 63"
  shows "NewFrame (Reader d (ucast ty # t)) S =
    bind_res (NewFrameFromType ty (Reader d (ucast ty # t)) S) (\<lambda>(m, r, S).
      Inr (case m of Inl e \<Rightarrow> Inl e | Inr f \<Rightarrow> Inr (Some f), r, S))"
proof -
  have "unat ty < 2 ^ 6" using assms by (simp add: word_le_nat_alt)
  from ReadVarIntValue_1 [OF this, of d t] show ?thesis by (simp add: NewFrame_def)
qed

lemma NewFrame_written:
  assumes "WriteTo f = Inr b" "wf_frame t f"
  shows "NewFrame (Reader d (b @ t)) S =
    bind_res (frame_effect f S) (\<lambda>S'. Inr (Inr (Some f), Reader (rev b @ d) t, S'))"
proof -
  obtain c where c: "b = ucast (wire_type f) # c" "wire_type f \<le> 63"
    and r: "\<And>d S. NewFrameFromType (wire_type f) (Reader d (b @ t)) S =
        bind_res (frame_effect f S) (\<lambda>S'. Inr (Inr f, Reader (rev b @ d) t, S'))"
    using frame_reads_back [OF assms] unfolding reads_back_def by blast
  show ?thesis
    using NewFrame_type [OF c(2), of d "c @ t" S] r [of d S] c(1)
    by (cases "frame_effect f S") auto
qed

section \<open>Every frame that is read takes at least one byte\<close>

abbreviation rest_len :: "reader \<Rightarrow> nat" where
  "rest_len r \<equiv> length (rd_rest r)"

named_theorems shrinks \<open>a read does not give back bytes\<close>

lemma case_prod_Inr_iff: "(case p of (a, b) \<Rightarrow> f a b) = Inr y \<longleftrightarrow> (\<exists>a b. p = (a, b) \<and> f a b = Inr y)"
  by (cases p) auto

lemma rest_len_advance [simp]: "rest_len (advance n r) = rest_len r - n"
  by (cases r) simp

lemma ReadVarIntValue_shrinks [shrinks]: "ReadVarIntValue r = (x, r') \<Longrightarrow> rest_len r' \<le> rest_len r"
  by (cases r rule: ReadVarIntValue_cases) auto

lemma rd_var_shrinks [shrinks]: "rd_var r = (x, r') \<Longrightarrow> rest_len r' \<le> rest_len r"
  by (auto simp: rd_var_def split: prod.splits sum.splits dest: ReadVarIntValue_shrinks)

lemma rd_byte_shrinks [shrinks]: "rd_byte r = (x, r') \<Longrightarrow> rest_len r' \<le> rest_len r"
  by (cases r rule: ReadByte.cases) (auto simp: rd_byte_def)

lemma rd_Read_shrinks [shrinks]: "rd_Read b r = (n, e, c, r') \<Longrightarrow> rest_len r' \<le> rest_len r"
  by (auto simp: rd_Read_def Let_def split: if_splits)

lemma make_Read_shrinks [shrinks]: "make_Read n r = Inr (b, r') \<Longrightarrow> rest_len r' \<le> rest_len r"
  by (cases "make_bytes n"; cases "rd_Read (projr (make_bytes n)) r")
     (auto simp: make_Read_def dest: rd_Read_shrinks)

lemma rd_array_shrinks [shrinks]: "rd_array n r = (b, r') \<Longrightarrow> rest_len r' \<le> rest_len r"
  by (auto simp: rd_array_def dest: rd_Read_shrinks split: prod.splits)

lemma binary_Read_bytes_shrinks [shrinks]: "binary_Read_bytes n r = (b, r') \<Longrightarrow> rest_len r' \<le> rest_len r"
  by (auto simp: binary_Read_bytes_def ReadFull_def split: if_splits)

lemma rd_reason_shrinks [shrinks]: "rd_reason n r = Inr (b, r') \<Longrightarrow> rest_len r' \<le> rest_len r"
  by (auto simp: rd_reason_def dest: binary_Read_bytes_shrinks split: if_splits)

lemma read_ranges_shrinks [shrinks]: "read_ranges n r = (x, r') \<Longrightarrow> rest_len r' \<le> rest_len r"
  by (induction n arbitrary: r x) (fastforce split: prod.splits dest: rd_var_shrinks)+

text \<open>Discarding the type takes at least one byte.\<close>

lemma skip_byte_less: "rd_rest r \<noteq> [] \<Longrightarrow> rest_len (skip_byte r) < rest_len r"
  by (cases r rule: ReadByte.cases) (auto simp: skip_byte_def)

lemma ReadVarIntValue_less: "rd_rest r \<noteq> [] \<Longrightarrow> rest_len (snd (ReadVarIntValue r)) < rest_len r"
proof (cases r rule: ReadVarIntValue_cases)
  case (ok d f t v)
  have "1 \<le> wire_len f" using wire_len_range [of f] by auto
  with ok show ?thesis by simp
qed auto

lemma snd_ReadVarInt: "snd (ReadVarInt r) = snd (ReadVarIntValue r)"
  by (auto simp: ReadVarInt_def split: prod.splits sum.splits)

lemma skip_var_less: "rd_rest r \<noteq> [] \<Longrightarrow> rest_len (skip_var r) < rest_len r"
  by (simp add: skip_var_def snd_ReadVarInt ReadVarIntValue_less)

lemma rd_byte_less: "rd_rest r \<noteq> [] \<Longrightarrow> rd_byte r = (b, r') \<Longrightarrow> rest_len r' < rest_len r"
  by (cases r rule: ReadByte.cases) (auto simp: rd_byte_def)

named_theorems reader_less \<open>a reader of a frame takes at least one byte\<close>

lemma readers_var_less [reader_less]:
  assumes "rd_rest r \<noteq> []"
  shows "NewPaddingFrame r = (f, r') \<Longrightarrow> rest_len r' < rest_len r"
    and "NewPingFrame r = (f, r') \<Longrightarrow> rest_len r' < rest_len r"
    and "NewResetStream r = (x_NewResetStream, r') \<Longrightarrow> rest_len r' < rest_len r"
    and "NewStopSendingFrame r = (x_NewStopSendingFrame, r') \<Longrightarrow> rest_len r' < rest_len r"
    and "NewMaxDataFrame r = (x_NewMaxDataFrame, r') \<Longrightarrow> rest_len r' < rest_len r"
    and "NewMaxStreamDataFrame r = (x_NewMaxStreamDataFrame, r') \<Longrightarrow> rest_len r' < rest_len r"
    and "NewMaxStreamIdFrame r = (x_NewMaxStreamIdFrame, r') \<Longrightarrow> rest_len r' < rest_len r"
    and "NewBlockedFrame r = (x_NewBlockedFrame, r') \<Longrightarrow> rest_len r' < rest_len r"
    and "NewStreamBlockedFrame r = (x_NewStreamBlockedFrame, r') \<Longrightarrow> rest_len r' < rest_len r"
    and "NewStreamIdNeededFrame r = (x_NewStreamIdNeededFrame, r') \<Longrightarrow> rest_len r' < rest_len r"
    and "NewHandshakeDoneFrame r = (f, r') \<Longrightarrow> rest_len r' < rest_len r"
    and "ReadCryptoFrame r = Inr (x_ReadCryptoFrame, r') \<Longrightarrow> rest_len r' < rest_len r"
    and "ReadNewTokenFrame r = Inr (x_ReadNewTokenFrame, r') \<Longrightarrow> rest_len r' < rest_len r"
    and "NewNewConnectionIdFrame r = Inr (x_NewNewConnectionIdFrame, r') \<Longrightarrow> rest_len r' < rest_len r"
    and "NewConnectionCloseFrame r = Inr (x_NewConnectionCloseFrame, r') \<Longrightarrow> rest_len r' < rest_len r"
    and "NewApplicationCloseFrame r = Inr (x_NewApplicationCloseFrame, r') \<Longrightarrow> rest_len r' < rest_len r"
  using skip_var_less [OF assms]
  by (auto simp: frame_readers case_prod_Inr_iff split: prod.splits dest!: shrinks)

lemma readers_byte_less [reader_less]:
  assumes "rd_rest r \<noteq> []"
  shows "ReadAckFrame r = (x_ReadAckFrame, r') \<Longrightarrow> rest_len r' < rest_len r"
    and "ReadRetireConnectionId r = (x_ReadRetireConnectionId, r') \<Longrightarrow> rest_len r' < rest_len r"
    and "ReadPathChallenge r = (x_ReadPathChallenge, r') \<Longrightarrow> rest_len r' < rest_len r"
    and "ReadPathResponse r = (x_ReadPathResponse, r') \<Longrightarrow> rest_len r' < rest_len r"
  using skip_byte_less [OF assms]
  by (auto simp: frame_readers ReadAckFrame_def ReadPacketNumber_def split: prod.splits dest!: shrinks)

lemma ReadAckECNFrame_less [reader_less]:
  "rd_rest r \<noteq> [] \<Longrightarrow> ReadAckECNFrame r = (f, r') \<Longrightarrow> rest_len r' < rest_len r"
  by (cases "ReadAckFrame r")
     (auto simp: ReadAckECNFrame_def split: prod.splits dest!: shrinks dest: readers_byte_less(1))

lemma parse_StreamFrame_less [reader_less]:
  assumes "rd_rest r \<noteq> []" "parse_StreamFrame r = Inr (f, r')"
  shows "rest_len r' < rest_len r"
proof -
  obtain b r1 where b: "rd_byte r = (b, r1)" by (cases "rd_byte r")
  have "rest_len r1 < rest_len r" by (rule rd_byte_less [OF assms(1) b])
  then show ?thesis
    using assms(2) b
    by (auto simp: parse_StreamFrame_def Let_def split: prod.splits if_splits dest!: shrinks)
qed

lemma ReadStreamFrame_less [reader_less]:
  "rd_rest r \<noteq> [] \<Longrightarrow> ReadStreamFrame r S = Inr (f, r', S') \<Longrightarrow> rest_len r' < rest_len r"
  by (auto simp: ReadStreamFrame_def dest: parse_StreamFrame_less)

lemma read_ok_iff: "read_ok c S p = Inr (m, r', S') \<longleftrightarrow> (\<exists>x. p = (x, r') \<and> m = Inr (c x) \<and> S' = S)"
  by (cases p) (auto simp: read_ok_def)

lemma read_res_iff:
  "read_res c S p = Inr (m, r', S') \<longleftrightarrow> (\<exists>x. p = Inr (x, r') \<and> m = Inr (c x) \<and> S' = S)"
  by (auto simp: read_res_def read_ok_iff)

lemma NewFrameFromType_less:
  assumes "rd_rest r \<noteq> []" "NewFrameFromType t r S = Inr (Inr f, r', S')"
  shows "rest_len r' < rest_len r"
  using assms(2) unfolding NewFrameFromType_def
  by (auto simp: read_ok_iff read_res_iff split: if_splits dest: reader_less [OF assms(1)])

lemma NewFrameFromType_error:
  assumes "NewFrameFromType t r S = Inr (Inl e, r', S')"
  shows "e = unknown_frame_type t"
  using assms unfolding NewFrameFromType_def by (auto simp: read_ok_iff read_res_iff split: if_splits)

lemma unread_done: "length c = n \<Longrightarrow> unread n (Reader (rev c @ d) t) = (None, Reader d (c @ t))"
proof (induction n arbitrary: c t)
  case (Suc n)
  then obtain b e where "c = e @ [b]" "length e = n"
    by (metis length_Suc_conv_rev)
  with Suc.IH [of e "b # t"] show ?case by simp
qed simp

text \<open>The bytes of the type are always put back.\<close>

lemma unread_advance:
  assumes "r = Reader d u" "n \<le> length u"
  shows "unread n (advance n r) = (None, r)"
  using unread_done [of "take n u" n d "drop n u"] assms by simp

lemma NewFrame_cases:
  "(\<exists>r'. NewFrame r S = Inr (Inr None, r', S)) \<or>
   (\<exists>v. rd_rest r \<noteq> [] \<and> NewFrame r S = bind_res (NewFrameFromType v r S) (\<lambda>(m, r, S).
      Inr (case m of Inl e \<Rightarrow> Inl e | Inr f \<Rightarrow> Inr (Some f), r, S)))"
proof (cases r rule: ReadVarIntValue_cases)
  case (ok d f t v)
  then have "unread (wire_len f) (advance (wire_len f) r) = (None, r)"
    by (intro unread_advance) auto
  with ok show ?thesis by (auto simp: NewFrame_def)
qed (auto simp: NewFrame_def)

lemma NewFrame_Inr:
  assumes "NewFrame r S = Inr (m, r', S')" "m \<noteq> Inr None"
  obtains v m' where "rd_rest r \<noteq> []" "NewFrameFromType v r S = Inr (m', r', S')"
    "m = (case m' of Inl e \<Rightarrow> Inl e | Inr f \<Rightarrow> Inr (Some f))"
  using NewFrame_cases [of r S]
proof
  assume "\<exists>r'. NewFrame r S = Inr (Inr None, r', S)"
  with assms show ?thesis by auto
next
  assume "\<exists>v. rd_rest r \<noteq> [] \<and> NewFrame r S = bind_res (NewFrameFromType v r S) (\<lambda>(m, r, S).
      Inr (case m of Inl e \<Rightarrow> Inl e | Inr f \<Rightarrow> Inr (Some f), r, S))"
  then obtain v where v: "rd_rest r \<noteq> []" "bind_res (NewFrameFromType v r S) (\<lambda>(m, r, S).
      Inr (case m of Inl e \<Rightarrow> Inl e | Inr f \<Rightarrow> Inr (Some f), r, S)) = Inr (m, r', S')"
    using assms(1) by metis
  then show ?thesis using that by auto
qed

lemma NewFrame_less:
  assumes "NewFrame r S = Inr (Inr (Some f), r', S')"
  shows "rest_len r' < rest_len r"
proof -
  obtain v m' where "rd_rest r \<noteq> []" "NewFrameFromType v r S = Inr (m', r', S')"
    "Inr (Some f) = (case m' of Inl e \<Rightarrow> Inl e | Inr f \<Rightarrow> Inr (Some f))"
    using NewFrame_Inr [OF assms] by blast
  then show ?thesis by (cases m') (auto dest: NewFrameFromType_less)
qed

lemma NewFrame_None:
  assumes "NewFrame r S = Inr (Inr None, r', S')"
  shows "S' = S"
  using NewFrame_cases [of r S]
proof
  assume "\<exists>v. rd_rest r \<noteq> [] \<and> NewFrame r S = bind_res (NewFrameFromType v r S) (\<lambda>(m, r, S).
      Inr (case m of Inl e \<Rightarrow> Inl e | Inr f \<Rightarrow> Inr (Some f), r, S))"
  then obtain v where "bind_res (NewFrameFromType v r S) (\<lambda>(m, r, S).
      Inr (case m of Inl e \<Rightarrow> Inl e | Inr f \<Rightarrow> Inr (Some f), r, S)) = Inr (Inr None, r', S')"
    using assms by metis
  then show ?thesis by (auto split: sum.splits) (metis sum.exhaust)
qed (use assms in auto)

lemma NewFrame_error:
  assumes "NewFrame r S = Inr (Inl e, r', S')"
  shows "\<exists>v. e = unknown_frame_type v"
proof -
  obtain v m' where "NewFrameFromType v r S = Inr (m', r', S')"
    "Inl e = (case m' of Inl e \<Rightarrow> Inl e | Inr f \<Rightarrow> Inr (Some f))"
    using NewFrame_Inr [OF assms] by blast
  then have "NewFrameFromType v r S = Inr (Inl e, r', S')" by (cases m') auto
  then have "e = unknown_frame_type v"
    by (rule NewFrameFromType_error)
  then show ?thesis ..
qed

section \<open>Properties\<close>

text \<open>
  C26. Every frame that is written and is well formed is read back by \<^verbatim>\<open>NewFrame\<close> as the same frame, the reader is left
  exactly behind it whatever follows, and the only effect on the connection is that a STREAM frame's data
  reaches its stream (where it may panic as shown for streams).
\<close>

theorem frame_roundtrip:
  assumes "WriteTo f = Inr b" "wf_frame t f"
  shows "NewFrame (Reader d (b @ t)) S =
    bind_res (frame_effect f S) (\<lambda>S'. Inr (Inr (Some f), Reader (rev b @ d) t, S'))"
  by (rule NewFrame_written [OF assms])

lemma frame_roundtrip_witness:
  "NewFrame (Reader [] [0x04, 0x09, 0x40, 0x80, 0x00, 0x01])
      \<lparr>streams = [], streams_input = NewBroadcaster\<rparr> =
    Inr (Inr (Some (Reset \<lparr>rs_StreamId = 9, rs_ApplicationErrorCode = 128, rs_FinalSize = 0\<rparr>)),
      Reader [0x00, 0x80, 0x40, 0x09, 0x04] [0x01], \<lparr>streams = [], streams_input = NewBroadcaster\<rparr>)"
proof -
  let ?f = "Reset \<lparr>rs_StreamId = 9, rs_ApplicationErrorCode = 128, rs_FinalSize = 0\<rparr>"
  have "EncodeVarInt 128 = Inr [0x40, 0x80]" by code_simp
  then have w: "WriteTo ?f = Inr [0x04, 0x09, 0x40, 0x80, 0x00]"
    by (simp add: frame_writers frame_types vars_def WriteVarInt_def EncodeVarInt_type)
  have "wf_frame [0x01] ?f" by simp
  from frame_roundtrip [OF w this, of "[]"] show ?thesis by simp
qed

text \<open>
  C35. What \<^verbatim>\<open>NewFrame\<close> can return on arbitrary bytes, when it does not panic: nothing (the rest of the payload does not hold a
  complete frame type), a frame, and then strictly fewer bytes are left, or the error for an unknown frame type. So
  the loops that read frames until nothing is returned end, and the put-back of the type never fails.
\<close>

theorem NewFrame_outcomes:
  "(case NewFrame r S of
      Inl p \<Rightarrow> True
    | Inr (Inl e, r', S') \<Rightarrow> \<exists>v. e = unknown_frame_type v
    | Inr (Inr None, r', S') \<Rightarrow> S' = S
    | Inr (Inr (Some f), r', S') \<Rightarrow> length (rd_rest r') < length (rd_rest r))"
proof (cases "NewFrame r S")
  case (Inr x)
  obtain m r' S' where x: "x = (m, r', S')" by (cases x)
  show ?thesis
    using Inr x NewFrame_None [of r S] NewFrame_error [of r S] NewFrame_less [of r S]
    by (auto split: sum.splits option.splits)
qed simp

text \<open>
  The frame type of an ACK\_ECN frame is lost on the wire: for every such frame, what \<^verbatim>\<open>WriteTo\<close> writes starts with the type of
  a plain ACK, and reading it back gives the plain ACK and leaves the three counters in the
  payload, to be read as further frames.
\<close>

lemma ack_ecn_written_as_ack:
  assumes "WriteTo (AckECN f) = Inr b" "wf_ack (ae_AckFrame f)"
  shows "\<exists>a c. AckFrame_WriteTo (ae_AckFrame f) = Inr a \<and> b = a @ c \<and> length c \<ge> 3 \<and>
     NewFrame (Reader d b) S = Inr (Inr (Some (Ack (ae_AckFrame f))), Reader (rev a @ d) c, S)"
proof -
  obtain a x y z where a: "AckFrame_WriteTo (ae_AckFrame f) = Inr a"
    "EncodeVarInt (ae_ECT0Count f) = Inr x" "EncodeVarInt (ae_ECT1Count f) = Inr y"
    "EncodeVarInt (ae_ECTCECount f) = Inr z" "b = a @ x @ y @ z"
    using assms(1) by (auto simp: AckECNFrame_WriteTo_def vars_def WriteVarInt_def)
  have "length x \<ge> 1" "length y \<ge> 1" "length z \<ge> 1"
    using a(2-4) VarIntLen_EncodeVarInt VarIntLen_bounds by blast+
  moreover have "NewFrame (Reader d (a @ x @ y @ z)) S =
      Inr (Inr (Some (Ack (ae_AckFrame f))), Reader (rev a @ d) (x @ y @ z), S)"
    using NewFrame_written [of "Ack (ae_AckFrame f)" a "x @ y @ z" d S] a(1) assms(2) by simp
  ultimately show ?thesis using a(1,5) by (intro exI [of _ a] exI [of _ "x @ y @ z"]) simp
qed

lemma ack_ecn_written_as_ack_witness:
  "\<exists>a c. AckFrame_WriteTo \<lparr>af_LargestAcknowledged = 7, af_AckDelay = 0, af_AckRangeCount = 0,
        af_AckRanges = [\<lparr>ar_Gap = 0, ar_AckRange = 2\<rparr>]\<rparr> = Inr a \<and> [2, 7, 0, 0, 2, 1, 0, 0] = a @ c \<and>
     length c \<ge> 3"
proof -
  let ?a = "\<lparr>af_LargestAcknowledged = 7, af_AckDelay = 0, af_AckRangeCount = 0,
        af_AckRanges = [\<lparr>ar_Gap = 0, ar_AckRange = 2\<rparr>]\<rparr>"
  let ?f = "\<lparr>ae_AckFrame = ?a, ae_ECT0Count = 1, ae_ECT1Count = 0, ae_ECTCECount = 0\<rparr>"
  have "WriteTo (AckECN ?f) = Inr [2, 7, 0, 0, 2, 1, 0, 0]"
    by (simp add: AckECNFrame_WriteTo_def AckFrame_WriteTo_def vars_def WriteVarInt_def AckType_def
        EncodeVarInt_type)
  moreover have "wf_ack (ae_AckFrame ?f)" by simp
  ultimately show ?thesis
    using ack_ecn_written_as_ack [of ?f _ "[]" "\<lparr>streams = [], streams_input = NewBroadcaster\<rparr>"] by auto
qed

text \<open>
  The direction of MAX\_STREAMS is lost: a limit on unidirectional streams, whatever its value, is written with its own
  type and read back as the same limit on bidirectional streams.
\<close>

lemma max_streams_direction_lost:
  "fits62 m \<longrightarrow> (\<exists>c. WriteTo (MaxStreams \<lparr>mx_StreamsType = UniStreams, mx_MaximumStreams = m\<rparr>) = Inr (0x13 # c) \<and>
     NewFrame (Reader d (0x13 # c @ t)) S =
       Inr (Inr (Some (MaxStreams \<lparr>mx_StreamsType = BidiStreams, mx_MaximumStreams = m\<rparr>)),
            Reader (rev c @ 0x13 # d) t, S))"
proof
  assume "fits62 m"
  then obtain c where c: "EncodeVarInt m = Inr c" using EncodeVarInt_total by blast
  have "(19 :: u64) \<le> 63" by simp
  from NewFrame_type [OF this, of d "c @ t" S]
  have "NewFrame (Reader d (0x13 # c @ t)) S =
      Inr (Inr (Some (MaxStreams \<lparr>mx_StreamsType = BidiStreams, mx_MaximumStreams = m\<rparr>)),
           Reader (rev c @ 0x13 # d) t, S)"
    using c by (simp add: NewFrameFromType_def frame_types frame_readers codec_simps)
  with c show "\<exists>c. WriteTo (MaxStreams \<lparr>mx_StreamsType = UniStreams, mx_MaximumStreams = m\<rparr>) = Inr (0x13 # c) \<and>
     NewFrame (Reader d (0x13 # c @ t)) S =
       Inr (Inr (Some (MaxStreams \<lparr>mx_StreamsType = BidiStreams, mx_MaximumStreams = m\<rparr>)),
            Reader (rev c @ 0x13 # d) t, S)"
    by (auto simp: frame_writers frame_types vars_def WriteVarInt_def EncodeVarInt_type)
qed

lemma max_streams_direction_lost_witness:
  "\<exists>c. WriteTo (MaxStreams \<lparr>mx_StreamsType = UniStreams, mx_MaximumStreams = 5\<rparr>) = Inr (0x13 # c)"
  using max_streams_direction_lost [of 5 "[]" "[]" "\<lparr>streams = [], streams_input = NewBroadcaster\<rparr>"]
  by (auto simp: fits62_def)

end
