(* ===== verification/TransportParams.thy ===== *)
theory TransportParams
  imports FrameCodec
begin

text \<open>
  The QUIC transport parameters of \<^verbatim>\<open>transport_parameters.go\<close>: the set of values, the blob that
  \<^verbatim>\<open>GetExtensionData\<close> hands to the TLS stack and the loop of \<^verbatim>\<open>ReceiveExtensionData\<close> over the peer's blob.

  The main results: reading a blob is folding \<open>receive_param\<close> over the parameters it holds, so what one
  endpoint sent is what the other stores; the loop ends on every blob; a failed read leaves the parameters received
  before untouched; and a blob of a few bytes can panic the process, since the announced length of a
  parameter is allocated before it is compared with what is left.
\<close>

section \<open>The parameters\<close>

type_synonym TransportParametersType = u64

definition OriginalDestinationConnectionId :: TransportParametersType where "OriginalDestinationConnectionId = 0x00"
definition IdleTimeout :: TransportParametersType where "IdleTimeout = 0x01"
definition StatelessResetToken :: TransportParametersType where "StatelessResetToken = 0x02"
definition MaxUDPPacketSize :: TransportParametersType where "MaxUDPPacketSize = 0x03"
definition InitialMaxData :: TransportParametersType where "InitialMaxData = 0x04"
definition InitialMaxStreamDataBidiLocal :: TransportParametersType where "InitialMaxStreamDataBidiLocal = 0x05"
definition InitialMaxStreamDataBidiRemote :: TransportParametersType where "InitialMaxStreamDataBidiRemote = 0x06"
definition InitialMaxStreamDataUni :: TransportParametersType where "InitialMaxStreamDataUni = 0x07"
definition InitialMaxStreamsBidi :: TransportParametersType where "InitialMaxStreamsBidi = 0x08"
definition InitialMaxStreamsUni :: TransportParametersType where "InitialMaxStreamsUni = 0x09"
definition AckDelayExponent :: TransportParametersType where "AckDelayExponent = 0x0a"
definition MaxAckDelay :: TransportParametersType where "MaxAckDelay = 0x0b"
definition DisableMigration :: TransportParametersType where "DisableMigration = 0x0c"
definition PreferredAddress :: TransportParametersType where "PreferredAddress = 0x0d"
definition ActiveConnectionIdLimit :: TransportParametersType where "ActiveConnectionIdLimit = 0x0e"
definition InitialSourceConnectionId :: TransportParametersType where "InitialSourceConnectionId = 0x0f"
definition RetrySourceConnectionId :: TransportParametersType where "RetrySourceConnectionId = 0x10"

lemmas tp_types = OriginalDestinationConnectionId_def IdleTimeout_def StatelessResetToken_def
  MaxUDPPacketSize_def InitialMaxData_def InitialMaxStreamDataBidiLocal_def
  InitialMaxStreamDataBidiRemote_def InitialMaxStreamDataUni_def InitialMaxStreamsBidi_def
  InitialMaxStreamsUni_def AckDelayExponent_def MaxAckDelay_def DisableMigration_def
  PreferredAddress_def ActiveConnectionIdLimit_def InitialSourceConnectionId_def
  RetrySourceConnectionId_def

record TransportParameter =
  tp_ParameterType :: TransportParametersType
  tp_Value :: bytes

text \<open>A value of the map \<^verbatim>\<open>ToJSON\<close>.\<close>

datatype tp_json = JNumber u64 | JBytes bytes | JTrue

text \<open>
  A connection identifier that was never set is \<^verbatim>\<open>nil\<close>, which the handshake tells from an empty one; so the
  slices the peer may leave out are optional.
\<close>

record QuicTransportParameters =
  tp_OriginalDestinationConnectionId :: "ConnectionID option"
  tp_IdleTimeout :: u64
  tp_StatelessResetToken :: "bytes option"
  tp_MaxPacketSize :: u64
  tp_MaxData :: u64
  tp_MaxStreamDataBidiLocal :: u64
  tp_MaxStreamDataBidiRemote :: u64
  tp_MaxStreamDataUni :: u64
  tp_MaxBidiStreams :: u64
  tp_MaxUniStreams :: u64
  tp_AckDelayExponent :: u64
  tp_MaxAckDelay :: u64
  tp_DisableMigration :: bool
  tp_PreferredAddress :: "bytes option"
  tp_ActiveConnectionIdLimit :: u64
  tp_InitialSourceConnectionId :: "ConnectionID option"
  tp_RetrySourceConnectionId :: "ConnectionID option"
  tp_AdditionalParameters :: "TransportParameter list"
  tp_ToJSON :: "string \<Rightarrow> tp_json option"

definition zero_QuicTransportParameters :: QuicTransportParameters where
  "zero_QuicTransportParameters =
     \<lparr>tp_OriginalDestinationConnectionId = None, tp_IdleTimeout = 0, tp_StatelessResetToken = None,
      tp_MaxPacketSize = 0, tp_MaxData = 0, tp_MaxStreamDataBidiLocal = 0,
      tp_MaxStreamDataBidiRemote = 0, tp_MaxStreamDataUni = 0, tp_MaxBidiStreams = 0,
      tp_MaxUniStreams = 0, tp_AckDelayExponent = 0, tp_MaxAckDelay = 0, tp_DisableMigration = False,
      tp_PreferredAddress = None, tp_ActiveConnectionIdLimit = 0, tp_InitialSourceConnectionId = None,
      tp_RetrySourceConnectionId = None, tp_AdditionalParameters = [], tp_ToJSON = Map.empty\<rparr>"

text \<open>\<^verbatim>\<open>GetParameter\<close>: the value of the first parameter with the type, \<^verbatim>\<open>nil\<close> when there is none.\<close>

fun GetParameter :: "TransportParametersType \<Rightarrow> TransportParameter list \<Rightarrow> bytes option" where
  "GetParameter t [] = None"
| "GetParameter t (ex # l) = (if tp_ParameterType ex = t then Some (tp_Value ex) else GetParameter t l)"

definition AddParameter :: "TransportParameter \<Rightarrow> TransportParameter list \<Rightarrow> TransportParameter list" where
  "AddParameter p l = l @ [p]"

text \<open>
  The handler. \<open>h_Extensions\<close> is the pointer \<^verbatim>\<open>EncryptedExtensionsTransportParameters\<close>, of which the code only
  asks whether it is set.
\<close>

record TLSTransportParameterHandler =
  h_Params :: QuicTransportParameters
  h_Extensions :: bool
  h_ReceivedParameters :: "QuicTransportParameters option"

definition NewTLSTransportParameterHandler :: "ConnectionID \<Rightarrow> TLSTransportParameterHandler" where
  "NewTLSTransportParameterHandler scid =
     \<lparr>h_Params = zero_QuicTransportParameters
        \<lparr>tp_MaxStreamDataBidiLocal := 16 * 1024, tp_MaxStreamDataUni := 16 * 1024,
         tp_MaxData := 32 * 1024, tp_MaxBidiStreams := 1, tp_MaxUniStreams := 3,
         tp_IdleTimeout := 2 * 24 * 60 * 60 * 1000, tp_AckDelayExponent := 3,
         tp_MaxAckDelay := 10000, tp_ActiveConnectionIdLimit := 4,
         tp_InitialSourceConnectionId := Some scid\<rparr>,
      h_Extensions = False, h_ReceivedParameters = None\<rparr>"

section \<open>The blob to send\<close>

text \<open>The dynamic types \<^verbatim>\<open>addParameter\<close> tells apart; \<open>TpOther\<close> is any other type.\<close>

datatype tp_value =
    TpUint64 u64 | TpUint32 u32 | TpUint16 u16 | TpByte u8 | TpBytes bytes | TpConnectionID bytes
  | TpBool bool | TpOther

fun addParameter ::
    "TransportParametersType \<Rightarrow> tp_value \<Rightarrow> TransportParameter list \<Rightarrow> TransportParameter list res" where
  "addParameter t (TpUint64 v) ps =
     bind_res (EncodeVarInt v) (\<lambda>b. Inr (ps @ [\<lparr>tp_ParameterType = t, tp_Value = b\<rparr>]))"
| "addParameter t (TpUint32 v) ps =
     Inr (if v = 0 then ps else ps @ [\<lparr>tp_ParameterType = t, tp_Value = Uint32ToBEBytes v\<rparr>])"
| "addParameter t (TpUint16 v) ps =
     Inr (if v = 0 then ps else ps @ [\<lparr>tp_ParameterType = t, tp_Value = Uint16ToBEBytes v\<rparr>])"
| "addParameter t (TpByte v) ps =
     Inr (if v = 0 then ps else ps @ [\<lparr>tp_ParameterType = t, tp_Value = [v]\<rparr>])"
| "addParameter t (TpBytes v) ps = Inr (ps @ [\<lparr>tp_ParameterType = t, tp_Value = v\<rparr>])"
| "addParameter t (TpConnectionID v) ps = Inr (ps @ [\<lparr>tp_ParameterType = t, tp_Value = v\<rparr>])"
| "addParameter t (TpBool v) ps =
     Inr (if \<not> v then ps else ps @ [\<lparr>tp_ParameterType = t, tp_Value = []\<rparr>])"
| "addParameter t TpOther ps = Inl (PanicString
     ''the parameter value should be uint32, uint16, byte, bool, []byte or ConnectionID'')"

definition nil_bytes :: "bytes option \<Rightarrow> bytes" where
  "nil_bytes b = (case b of None \<Rightarrow> [] | Some x \<Rightarrow> x)"

text \<open>The sequence of \<^verbatim>\<open>addParameter\<close> calls.\<close>

definition own_parameters :: "QuicTransportParameters \<Rightarrow> TransportParameter list res" where
  "own_parameters q =
     bind_res (addParameter InitialMaxStreamDataBidiLocal (TpUint64 (tp_MaxStreamDataBidiLocal q)) []) (\<lambda>ps.
     bind_res (addParameter InitialMaxStreamDataUni (TpUint64 (tp_MaxStreamDataUni q)) ps) (\<lambda>ps.
     bind_res (addParameter InitialMaxData (TpUint64 (tp_MaxData q)) ps) (\<lambda>ps.
     bind_res (addParameter InitialMaxStreamsBidi (TpUint64 (tp_MaxBidiStreams q)) ps) (\<lambda>ps.
     bind_res (addParameter InitialMaxStreamsUni (TpUint64 (tp_MaxUniStreams q)) ps) (\<lambda>ps.
     bind_res (addParameter IdleTimeout (TpUint64 (tp_IdleTimeout q)) ps) (\<lambda>ps.
     bind_res (if tp_ActiveConnectionIdLimit q > 1
               then addParameter ActiveConnectionIdLimit (TpUint64 (tp_ActiveConnectionIdLimit q)) ps
               else Inr ps) (\<lambda>ps.
     bind_res (if tp_MaxPacketSize q > 0
               then addParameter MaxUDPPacketSize (TpUint64 (tp_MaxPacketSize q)) ps
               else Inr ps) (\<lambda>ps.
     bind_res (addParameter InitialSourceConnectionId
                 (TpConnectionID (nil_bytes (tp_InitialSourceConnectionId q))) ps) (\<lambda>ps.
     Inr (ps @ tp_AdditionalParameters q))))))))))"

definition encode_parameter :: "TransportParameter \<Rightarrow> bytes res" where
  "encode_parameter p =
     cat_res [EncodeVarInt (tp_ParameterType p), EncodeVarInt (of_nat (length (tp_Value p))), Inr (tp_Value p)]"

definition GetExtensionData :: "TLSTransportParameterHandler \<Rightarrow> bytes res" where
  "GetExtensionData h = bind_res (own_parameters (h_Params h)) (\<lambda>ps. cat_res (map encode_parameter ps))"

section \<open>The blob received\<close>

text \<open>\<^verbatim>\<open>%x\<close> of an unsigned number.\<close>

definition hex_digit :: "nat \<Rightarrow> char" where
  "hex_digit d = char_of (if d < 10 then 48 + d else 87 + d)"

fun hexadecimal :: "nat \<Rightarrow> string" where
  "hexadecimal n = (if n < 16 then [hex_digit n] else hexadecimal (n div 16) @ [hex_digit (n mod 16)])"

declare hexadecimal.simps [simp del]

text \<open>A parameter whose value is a varint: the number, or the error that ends the loop.\<close>

definition with_varint ::
    "bytes \<Rightarrow> (u64 \<Rightarrow> QuicTransportParameters) \<Rightarrow> go_error + QuicTransportParameters" where
  "with_varint d f = (case ReadVarIntValue (NewReader d) of (Inl e, _) \<Rightarrow> Inl e | (Inr (v, _), _) \<Rightarrow> Inr (f v))"

definition json_put :: "string \<Rightarrow> tp_json \<Rightarrow> QuicTransportParameters \<Rightarrow> QuicTransportParameters" where
  "json_put k v q = q\<lparr>tp_ToJSON := (tp_ToJSON q)(k \<mapsto> v)\<rparr>"

definition receive_param ::
    "TransportParametersType \<Rightarrow> bytes \<Rightarrow> QuicTransportParameters \<Rightarrow> go_error + QuicTransportParameters" where
  "receive_param t d q =
     (if t = OriginalDestinationConnectionId then
        Inr (json_put ''original_destination_connection_id'' (JBytes d) (q\<lparr>tp_OriginalDestinationConnectionId := Some d\<rparr>))
      else if t = IdleTimeout then
        with_varint d (\<lambda>v. json_put ''idle_timeout'' (JNumber v) (q\<lparr>tp_IdleTimeout := v\<rparr>))
      else if t = StatelessResetToken then
        Inr (json_put ''stateless_reset_token'' (JBytes d) (q\<lparr>tp_StatelessResetToken := Some d\<rparr>))
      else if t = MaxUDPPacketSize then
        with_varint d (\<lambda>v. json_put ''max_packet_size'' (JNumber v) (q\<lparr>tp_MaxPacketSize := v\<rparr>))
      else if t = InitialMaxData then
        with_varint d (\<lambda>v. json_put ''initial_max_data'' (JNumber v) (q\<lparr>tp_MaxData := v\<rparr>))
      else if t = InitialMaxStreamDataBidiLocal then
        with_varint d (\<lambda>v. json_put ''initial_max_stream_data_bidi_local'' (JNumber v) (q\<lparr>tp_MaxStreamDataBidiLocal := v\<rparr>))
      else if t = InitialMaxStreamDataBidiRemote then
        with_varint d (\<lambda>v. json_put ''initial_max_stream_data_bidi_remote'' (JNumber v) (q\<lparr>tp_MaxStreamDataBidiRemote := v\<rparr>))
      else if t = InitialMaxStreamDataUni then
        with_varint d (\<lambda>v. json_put ''initial_max_stream_data_uni'' (JNumber v) (q\<lparr>tp_MaxStreamDataUni := v\<rparr>))
      else if t = InitialMaxStreamsBidi then
        with_varint d (\<lambda>v. json_put ''initial_max_streams_bidi'' (JNumber v) (q\<lparr>tp_MaxBidiStreams := v\<rparr>))
      else if t = InitialMaxStreamsUni then
        with_varint d (\<lambda>v. json_put ''initial_max_streams_uni'' (JNumber v) (q\<lparr>tp_MaxUniStreams := v\<rparr>))
      else if t = AckDelayExponent then
        with_varint d (\<lambda>v. json_put ''ack_delay_exponent'' (JNumber v) (q\<lparr>tp_AckDelayExponent := v\<rparr>))
      else if t = MaxAckDelay then
        with_varint d (\<lambda>v. json_put ''max_ack_delay'' (JNumber v) (q\<lparr>tp_MaxAckDelay := v\<rparr>))
      else if t = DisableMigration then
        Inr (json_put ''disable_migration'' JTrue (q\<lparr>tp_DisableMigration := True\<rparr>))
      else if t = PreferredAddress then
        Inr (json_put ''preferred_address'' (JBytes d) (q\<lparr>tp_PreferredAddress := Some d\<rparr>))
      else if t = ActiveConnectionIdLimit then
        with_varint d (\<lambda>v. json_put ''active_connection_id_limit'' (JNumber v) (q\<lparr>tp_ActiveConnectionIdLimit := v\<rparr>))
      else if t = InitialSourceConnectionId then
        Inr (json_put ''initial_source_connection_id'' (JBytes d) (q\<lparr>tp_InitialSourceConnectionId := Some d\<rparr>))
      else if t = RetrySourceConnectionId then
        Inr (json_put ''retry_source_connection_id'' (JBytes d) (q\<lparr>tp_RetrySourceConnectionId := Some d\<rparr>))
      else
        Inr (json_put (hexadecimal (unat t)) (JBytes d)
          (q\<lparr>tp_AdditionalParameters :=
               AddParameter \<lparr>tp_ParameterType = t, tp_Value = d\<rparr> (tp_AdditionalParameters q)\<rparr>)))"

text \<open>
  \<^verbatim>\<open>bytes.Buffer.Read\<close> into a fresh slice of \<open>n\<close> bytes; unlike \<^verbatim>\<open>bytes.Reader\<close>, an empty slice is not an error at the
  end. The result is the number of bytes read, the error, and the slice.
\<close>

definition buf_Read :: "nat \<Rightarrow> reader \<Rightarrow> nat \<times> go_error option \<times> bytes \<times> reader" where
  "buf_Read n r =
     (if rd_rest r = [] then (0, if n = 0 then None else Some EOF, replicate n 0, r)
      else let k = min n (length (rd_rest r))
           in (k, None, copy_bytes (replicate n 0) (rd_rest r), advance k r))"

text \<open>One round of the loop: the reader and the parameters after it, or the error it returns.\<close>

definition receive_step ::
    "reader \<Rightarrow> QuicTransportParameters \<Rightarrow> (go_error + QuicTransportParameters \<times> reader) res" where
  "receive_step r q =
     (case ReadVarInt r of (Inl e, r) \<Rightarrow> Inr (Inl e) | (Inr pType, r) \<Rightarrow>
      case ReadVarInt r of (Inl e, r) \<Rightarrow> Inr (Inl e) | (Inr pLen, r) \<Rightarrow>
      bind_res (make_bytes (unat (vi_Value pLen))) (\<lambda>_.
      case buf_Read (unat (vi_Value pLen)) r of (nRead, err, pData, r) \<Rightarrow>
      (case err of Some e \<Rightarrow> Inr (Inl e) | None \<Rightarrow>
       if nRead \<noteq> unat (vi_Value pLen) then Inr (Inl (ErrorString ''end of TPs blob before parameter value''))
       else (case receive_param (vi_Value pType) pData q of
               Inl e \<Rightarrow> Inr (Inl e)
             | Inr q \<Rightarrow> Inr (Inr (q, r))))))"

lemma wire_len_pos [simp]: "0 < wire_len f"
  using wire_len_range [of f] by auto

lemma ReadVarInt_less:
  "ReadVarInt r = (Inr v, r') \<Longrightarrow> length (rd_rest r') < length (rd_rest r)"
  by (cases r rule: ReadVarIntValue_cases) (auto simp: ReadVarInt_def wire_len_pos)

lemma buf_Read_le: "buf_Read n r = (k, e, d, r') \<Longrightarrow> length (rd_rest r') \<le> length (rd_rest r)"
  by (cases r) (auto simp: buf_Read_def Let_def split: if_splits)

lemma receive_step_less:
  "receive_step r q = Inr (Inr (q', r')) \<Longrightarrow> length (rd_rest r') < length (rd_rest r)"
  by (auto simp: receive_step_def split: prod.splits sum.splits option.splits if_splits
      dest!: ReadVarInt_less buf_Read_le)

function receive_loop ::
    "reader \<Rightarrow> QuicTransportParameters \<Rightarrow> (go_error + QuicTransportParameters) res" where
  "receive_loop r q =
     (if rd_rest r = [] then Inr (Inr q)
      else bind_res (receive_step r q) (\<lambda>x. case x of Inl e \<Rightarrow> Inr (Inl e) | Inr (q', r') \<Rightarrow> receive_loop r' q'))"
  by pat_completeness auto
termination
  by (relation "measure (\<lambda>(r, _). length (rd_rest r))") (auto simp: receive_step_less)

declare receive_loop.simps [simp del]

definition ReceiveExtensionData ::
    "bytes \<Rightarrow> TLSTransportParameterHandler \<Rightarrow> (go_error option \<times> TLSTransportParameterHandler) res" where
  "ReceiveExtensionData data h =
     (let h = h\<lparr>h_Extensions := True\<rparr> in
      bind_res (receive_loop (NewReader data) (zero_QuicTransportParameters\<lparr>tp_ToJSON := Map.empty\<rparr>)) (\<lambda>x.
      case x of Inl e \<Rightarrow> Inr (Some e, h)
      | Inr q \<Rightarrow> Inr (None, h\<lparr>h_ReceivedParameters := Some q\<rparr>)))"

section \<open>Reading what was written\<close>

text \<open>The parameters that fit the wire and the memory.\<close>

definition wf_parameter :: "TransportParameter \<Rightarrow> bool" where
  "wf_parameter p \<longleftrightarrow> fits62 (tp_ParameterType p) \<and> length (tp_Value p) \<le> maxAlloc"

text \<open>\<open>receive_all ps q\<close>: the parameters stored one after the other, up to the first error.\<close>

fun receive_all :: "TransportParameter list \<Rightarrow> QuicTransportParameters \<Rightarrow> go_error + QuicTransportParameters" where
  "receive_all [] q = Inr q"
| "receive_all (p # ps) q =
     (case receive_param (tp_ParameterType p) (tp_Value p) q of Inl e \<Rightarrow> Inl e | Inr q \<Rightarrow> receive_all ps q)"

lemma length_fits62: "n \<le> maxAlloc \<Longrightarrow> fits62 (of_nat n) \<and> unat (of_nat n :: u64) = n"
  using fits62_of_nat [of n] by (simp add: maxAlloc_def)

lemma buf_Read_append:
  "length b = n \<Longrightarrow> buf_Read n (Reader d (b @ t)) = (n, None, b, Reader (rev b @ d) t)"
  by (auto simp: buf_Read_def Let_def copy_bytes_def)

lemma receive_step_written:
  assumes "wf_parameter p" "encode_parameter p = Inr b"
  shows "receive_step (Reader d (b @ t)) q =
    Inr (case receive_param (tp_ParameterType p) (tp_Value p) q of
           Inl e \<Rightarrow> Inl e | Inr q \<Rightarrow> Inr (q, Reader (rev b @ d) t))"
proof -
  let ?n = "length (tp_Value p)"
  obtain k l where e: "EncodeVarInt (tp_ParameterType p) = Inr k" "EncodeVarInt (of_nat ?n) = Inr l"
    "b = k @ l @ tp_Value p"
    using assms(2) by (auto simp: encode_parameter_def)
  have n: "?n \<le> maxAlloc" "unat (of_nat ?n :: u64) = ?n"
    using assms(1) length_fits62 by (auto simp: wf_parameter_def)
  show ?thesis
    by (simp add: receive_step_def e ReadVarInt_enc [OF e(1)] ReadVarInt_enc [OF e(2)] n buf_Read_append
        split: sum.split)
qed

lemma encode_parameter_total: "wf_parameter p \<Longrightarrow> \<exists>b. encode_parameter p = Inr b"
  using EncodeVarInt_total [of "tp_ParameterType p"] EncodeVarInt_total [of "of_nat (length (tp_Value p))"]
    length_fits62 [of "length (tp_Value p)"]
  by (auto simp: encode_parameter_def wf_parameter_def)

lemma encode_parameter_nonempty: "encode_parameter p = Inr b \<Longrightarrow> b \<noteq> []"
  by (auto simp: encode_parameter_def EncodeVarInt_def split: if_splits)

lemma receive_loop_written:
  "\<forall>p \<in> set ps. wf_parameter p \<Longrightarrow> cat_res (map encode_parameter ps) = Inr b \<Longrightarrow>
   receive_loop (Reader d b) q = Inr (receive_all ps q)"
proof (induction ps arbitrary: b d q)
  case Nil
  then show ?case by (simp add: receive_loop.simps)
next
  case (Cons p ps)
  from Cons.prems(2) obtain x y where e: "encode_parameter p = Inr x"
    "cat_res (map encode_parameter ps) = Inr y" "b = x @ y" by auto
  have "x \<noteq> []" by (rule encode_parameter_nonempty [OF e(1)])
  moreover have "receive_step (Reader d b) q =
    Inr (case receive_param (tp_ParameterType p) (tp_Value p) q of
           Inl e \<Rightarrow> Inl e | Inr q \<Rightarrow> Inr (q, Reader (rev x @ d) y))"
    using receive_step_written [OF _ e(1)] Cons.prems(1) e(3) by simp
  ultimately show ?case
    using Cons.IH [OF _ e(2)] Cons.prems(1) unfolding e(3)
    by (simp add: receive_loop.simps [of "Reader d (x @ y)"] split: sum.split)
qed

lemma ReceiveExtensionData_written:
  assumes "\<forall>p \<in> set ps. wf_parameter p" "cat_res (map encode_parameter ps) = Inr b"
  shows "ReceiveExtensionData b h =
    Inr (case receive_all ps zero_QuicTransportParameters of
           Inl e \<Rightarrow> (Some e, h\<lparr>h_Extensions := True\<rparr>)
         | Inr q \<Rightarrow> (None, h\<lparr>h_Extensions := True, h_ReceivedParameters := Some q\<rparr>))"
  using receive_loop_written [OF assms]
  by (simp add: ReceiveExtensionData_def NewReader_def zero_QuicTransportParameters_def split: sum.split)

lemma with_varint_enc: "EncodeVarInt v = Inr b \<Longrightarrow> with_varint b f = Inr (f v)"
  using ReadVarIntValue_EncodeVarInt [of v b "[]" "[]"] by (simp add: with_varint_def NewReader_def)

lemma wf_parameter_varint:
  "EncodeVarInt v = Inr b \<Longrightarrow> fits62 t \<Longrightarrow> wf_parameter \<lparr>tp_ParameterType = t, tp_Value = b\<rparr>"
  using VarIntLen_EncodeVarInt [of v b] VarIntLen_bounds [of v "length b"]
  by (simp add: wf_parameter_def maxAlloc_def)

section \<open>Outcomes\<close>

lemma with_varint_err: "with_varint d f = Inl e \<Longrightarrow> e = EOF"
  by (auto simp: with_varint_def split: prod.splits sum.splits dest: ReadVarIntValue_err)

lemma receive_param_err: "receive_param t d q = Inl e \<Longrightarrow> e = EOF"
  by (auto simp: receive_param_def with_varint_err split: if_splits)

definition tp_error :: "go_error \<Rightarrow> bool" where
  "tp_error e \<longleftrightarrow> e = EOF \<or> e = ErrorString ''end of TPs blob before parameter value''"

lemma ReadVarInt_err: "ReadVarInt r = (Inl e, r') \<Longrightarrow> e = EOF"
  by (auto simp: ReadVarInt_def split: prod.splits sum.splits dest: ReadVarIntValue_err)

lemma buf_Read_err: "buf_Read n r = (k, Some e, d, r') \<Longrightarrow> e = EOF"
  by (auto simp: buf_Read_def Let_def split: if_splits)

lemma receive_step_err: "receive_step r q = Inr (Inl e) \<Longrightarrow> tp_error e"
  by (auto simp: receive_step_def tp_error_def split: prod.splits sum.splits option.splits if_splits
      dest: ReadVarInt_err buf_Read_err receive_param_err)

lemma receive_step_panic: "receive_step r q = Inl p \<Longrightarrow> p = MakeSliceLen"
  by (auto simp: receive_step_def make_bytes_def split: prod.splits sum.splits option.splits if_splits)

lemma receive_loop_outcomes:
  "case receive_loop r q of Inl p \<Rightarrow> p = MakeSliceLen | Inr (Inl e) \<Rightarrow> tp_error e | Inr (Inr q') \<Rightarrow> True"
proof (induction r q rule: receive_loop.induct)
  case (1 r q)
  show ?case
  proof (cases "receive_step r q")
    case (Inl p)
    then show ?thesis using receive_step_panic [OF Inl] by (simp add: receive_loop.simps [of r q])
  next
    case (Inr x)
    with 1 show ?thesis
      using receive_step_err [of r q]
      by (cases x) (auto simp: receive_loop.simps [of r q])
  qed
qed

lemma json_put_fields [simp]:
  "tp_OriginalDestinationConnectionId (json_put k v q) = tp_OriginalDestinationConnectionId q"
  "tp_IdleTimeout (json_put k v q) = tp_IdleTimeout q"
  "tp_StatelessResetToken (json_put k v q) = tp_StatelessResetToken q"
  "tp_MaxPacketSize (json_put k v q) = tp_MaxPacketSize q"
  "tp_MaxData (json_put k v q) = tp_MaxData q"
  "tp_MaxStreamDataBidiLocal (json_put k v q) = tp_MaxStreamDataBidiLocal q"
  "tp_MaxStreamDataBidiRemote (json_put k v q) = tp_MaxStreamDataBidiRemote q"
  "tp_MaxStreamDataUni (json_put k v q) = tp_MaxStreamDataUni q"
  "tp_MaxBidiStreams (json_put k v q) = tp_MaxBidiStreams q"
  "tp_MaxUniStreams (json_put k v q) = tp_MaxUniStreams q"
  "tp_AckDelayExponent (json_put k v q) = tp_AckDelayExponent q"
  "tp_MaxAckDelay (json_put k v q) = tp_MaxAckDelay q"
  "tp_DisableMigration (json_put k v q) = tp_DisableMigration q"
  "tp_PreferredAddress (json_put k v q) = tp_PreferredAddress q"
  "tp_ActiveConnectionIdLimit (json_put k v q) = tp_ActiveConnectionIdLimit q"
  "tp_InitialSourceConnectionId (json_put k v q) = tp_InitialSourceConnectionId q"
  "tp_RetrySourceConnectionId (json_put k v q) = tp_RetrySourceConnectionId q"
  "tp_AdditionalParameters (json_put k v q) = tp_AdditionalParameters q"
  by (simp_all add: json_put_def)

text \<open>\<open>tp_announced p q\<close>: what \<open>q\<close> holds after it was filled from the blob that \<open>p\<close> produced.\<close>

definition tp_announced :: "QuicTransportParameters \<Rightarrow> QuicTransportParameters \<Rightarrow> bool" where
  "tp_announced p q \<longleftrightarrow>
     tp_MaxStreamDataBidiLocal q = tp_MaxStreamDataBidiLocal p \<and>
     tp_MaxStreamDataUni q = tp_MaxStreamDataUni p \<and>
     tp_MaxData q = tp_MaxData p \<and>
     tp_MaxBidiStreams q = tp_MaxBidiStreams p \<and>
     tp_MaxUniStreams q = tp_MaxUniStreams p \<and>
     tp_IdleTimeout q = tp_IdleTimeout p \<and>
     tp_ActiveConnectionIdLimit q =
       (if tp_ActiveConnectionIdLimit p > 1 then tp_ActiveConnectionIdLimit p else 0) \<and>
     tp_MaxPacketSize q = tp_MaxPacketSize p \<and>
     tp_InitialSourceConnectionId q = Some (nil_bytes (tp_InitialSourceConnectionId p)) \<and>
     tp_MaxStreamDataBidiRemote q = 0 \<and> tp_AckDelayExponent q = 0 \<and> tp_MaxAckDelay q = 0 \<and>
     \<not> tp_DisableMigration q \<and> tp_OriginalDestinationConnectionId q = None \<and>
     tp_RetrySourceConnectionId q = None \<and> tp_StatelessResetToken q = None"

lemma own_parameters_parts:
  assumes "own_parameters q = Inr ps" "length (nil_bytes (tp_InitialSourceConnectionId q)) \<le> maxAlloc"
    "\<forall>p \<in> set (tp_AdditionalParameters q). wf_parameter p"
  shows "\<forall>p \<in> set ps. wf_parameter p"
  using assms
  by (auto simp: own_parameters_def fits62_def tp_types wf_parameter_varint split: if_splits)
    (auto simp: wf_parameter_def fits62_def)

lemma receive_own_parameters:
  assumes "own_parameters p = Inr ps" "tp_AdditionalParameters p = []"
  shows "\<exists>q. receive_all ps zero_QuicTransportParameters = Inr q \<and> tp_announced p q"
  using assms
  by (auto simp: own_parameters_def receive_param_def tp_types with_varint_enc tp_announced_def
      zero_QuicTransportParameters_def word_gt_0 split: if_splits)

section \<open>Properties\<close>



text \<open>
  C36. What \<^verbatim>\<open>ReceiveExtensionData\<close> does on arbitrary bytes: it ends; it panics only over an allocation;
  an error is the end of the blob in the middle of a parameter, and then the parameters received earlier are kept; without an error
  they are replaced.
\<close>

theorem tp_outcomes:
  "(case ReceiveExtensionData data h of
      Inl p \<Rightarrow> p = MakeSliceLen
    | Inr (Some e, h') \<Rightarrow> tp_error e \<and> h' = h\<lparr>h_Extensions := True\<rparr>
    | Inr (None, h') \<Rightarrow> \<exists>q. h' = h\<lparr>h_Extensions := True, h_ReceivedParameters := Some q\<rparr>)"
proof (cases "receive_loop (NewReader data) (zero_QuicTransportParameters\<lparr>tp_ToJSON := Map.empty\<rparr>)")
  case (Inl p)
  then show ?thesis
    using receive_loop_outcomes [of "NewReader data" "zero_QuicTransportParameters\<lparr>tp_ToJSON := Map.empty\<rparr>"]
    by (simp add: ReceiveExtensionData_def)
next
  case (Inr x)
  then show ?thesis
    using receive_loop_outcomes [of "NewReader data" "zero_QuicTransportParameters\<lparr>tp_ToJSON := Map.empty\<rparr>"]
    by (cases x) (auto simp: ReceiveExtensionData_def)
qed

text \<open>
  Nine bytes from the peer panic the process: a parameter that announces a length of $2^{56}$ bytes is
  allocated before the length is compared with the bytes that are left.
\<close>

lemma tp_length_panics:
  "ReceiveExtensionData [0x01, 0xc1, 0, 0, 0, 0, 0, 0, 0] h = Inl MakeSliceLen"
proof -
  have "ReadVarInt (Reader [] [0x01, 0xc1, 0, 0, 0, 0, 0, 0, 0]) =
      (Inr \<lparr>vi_Value = 1, vi_Length = 1\<rparr>, Reader [0x01] [0xc1, 0, 0, 0, 0, 0, 0, 0])"
    "ReadVarInt (Reader [0x01] [0xc1, 0, 0, 0, 0, 0, 0, 0]) =
      (Inr \<lparr>vi_Value = 0x100000000000000, vi_Length = 8\<rparr>, Reader [0, 0, 0, 0, 0, 0, 0, 0xc1, 0x01] [])"
    by (simp_all add: ReadVarInt_def ReadVarIntValue_def u64_of_byte_def)
  then show ?thesis
    by (simp add: ReceiveExtensionData_def NewReader_def receive_loop.simps receive_step_def maxAlloc_def
        make_bytes_def)
qed

end
