(* ===== verification/Levels.thy ===== *)
theory Levels
  imports TransportParams
begin

text \<open>
  Packet types (\<^verbatim>\<open>headers.go\<close>), encryption levels and the keys of a level (\<^verbatim>\<open>crypto.go\<close>).

  The cryptographic library is not part of the program. An AEAD is a record of the functions the program
  calls on it, and \<open>Tls\<close> is the record of the key schedule functions; both are arguments of the definitions
  that use them.
\<close>

section \<open>Packet types\<close>

type_synonym PacketType = u8

definition Initial :: PacketType where "Initial = 0x0"
definition ZeroRTTProtected :: PacketType where "ZeroRTTProtected = 0x1"
definition Handshake :: PacketType where "Handshake = 0x2"
definition Retry :: PacketType where "Retry = 0x3"
definition StatelessReset :: PacketType where "StatelessReset = 0xfd"
definition VersionNegotiation :: PacketType where "VersionNegotiation = 0xfe"
definition ShortHeaderPacket :: PacketType where "ShortHeaderPacket = 0xff"

lemmas packet_types = Initial_def ZeroRTTProtected_def Handshake_def Retry_def StatelessReset_def
  VersionNegotiation_def ShortHeaderPacket_def

text \<open>A lookup in a Go map: the zero value of the element type for a missing key.\<close>

definition go_lookup :: "'v \<Rightarrow> ('k \<times> 'v) list \<Rightarrow> 'k \<Rightarrow> 'v" where
  "go_lookup z m k = (case map_of m k of None \<Rightarrow> z | Some v \<Rightarrow> v)"

definition packetTypeToString :: "(PacketType \<times> string) list" where
  "packetTypeToString =
    [(Initial, ''Initial''), (Retry, ''Retry''), (Handshake, ''Handshake''),
     (ZeroRTTProtected, ''0-RTT Protected''), (ShortHeaderPacket, ''1-RTT Protected''),
     (StatelessReset, ''Stateless Reset'')]"

definition packetTypeToPNSPace :: "(PacketType \<times> PNSpace) list" where
  "packetTypeToPNSPace =
    [(Initial, PNSpaceInitial), (Retry, PNSpaceNoSpace), (Handshake, PNSpaceHandshake),
     (ZeroRTTProtected, PNSpaceAppData), (ShortHeaderPacket, PNSpaceAppData),
     (StatelessReset, PNSpaceNoSpace)]"

definition PacketType_String :: "PacketType \<Rightarrow> string" where
  "PacketType_String t = go_lookup [] packetTypeToString t"

definition PacketType_PNSpace :: "PacketType \<Rightarrow> PNSpace" where
  "PacketType_PNSpace t = go_lookup PNSpaceInitial packetTypeToPNSPace t"

section \<open>Encryption levels\<close>

datatype EncryptionLevel =
    EncryptionLevelNone
  | EncryptionLevelInitial
  | EncryptionLevel0RTT
  | EncryptionLevelHandshake
  | EncryptionLevel1RTT
  | EncryptionLevelBest
  | EncryptionLevelBestAppData

definition encryptionLevelToString :: "(EncryptionLevel \<times> string) list" where
  "encryptionLevelToString =
    [(EncryptionLevelNone, ''None''), (EncryptionLevelInitial, ''Initial''),
     (EncryptionLevelHandshake, ''Handshake''), (EncryptionLevel0RTT, ''0RTT''),
     (EncryptionLevel1RTT, ''1RTT''), (EncryptionLevelBest, ''Best''),
     (EncryptionLevelBestAppData, ''BestAppData'')]"

definition EncryptionLevel_String :: "EncryptionLevel \<Rightarrow> string" where
  "EncryptionLevel_String eL = go_lookup [] encryptionLevelToString eL"

definition EncryptionLevelToPNSpace :: "EncryptionLevel \<Rightarrow> PNSpace" where
  "EncryptionLevelToPNSpace = go_lookup PNSpaceInitial
    [(EncryptionLevelNone, PNSpaceNoSpace), (EncryptionLevelInitial, PNSpaceInitial),
     (EncryptionLevelHandshake, PNSpaceHandshake), (EncryptionLevel0RTT, PNSpaceAppData),
     (EncryptionLevel1RTT, PNSpaceAppData), (EncryptionLevelBest, PNSpaceNoSpace),
     (EncryptionLevelBestAppData, PNSpaceAppData)]"

definition PNSpaceToEncryptionLevel :: "PNSpace \<Rightarrow> EncryptionLevel" where
  "PNSpaceToEncryptionLevel = go_lookup EncryptionLevelNone
    [(PNSpaceNoSpace, EncryptionLevelNone), (PNSpaceInitial, EncryptionLevelInitial),
     (PNSpaceHandshake, EncryptionLevelHandshake), (PNSpaceAppData, EncryptionLevel1RTT)]"

definition EncryptionLevelToPacketType :: "EncryptionLevel \<Rightarrow> PacketType" where
  "EncryptionLevelToPacketType = go_lookup 0
    [(EncryptionLevelInitial, Initial), (EncryptionLevelHandshake, Handshake),
     (EncryptionLevel0RTT, ZeroRTTProtected), (EncryptionLevel1RTT, ShortHeaderPacket)]"

definition PacketTypeToEncryptionLevel :: "PacketType \<Rightarrow> EncryptionLevel" where
  "PacketTypeToEncryptionLevel = go_lookup EncryptionLevelNone
    [(VersionNegotiation, EncryptionLevelNone), (Initial, EncryptionLevelInitial),
     (Retry, EncryptionLevelNone), (Handshake, EncryptionLevelHandshake),
     (ZeroRTTProtected, EncryptionLevel0RTT), (ShortHeaderPacket, EncryptionLevel1RTT)]"

text \<open>The epochs of the TLS library.\<close>

datatype Epoch = EpochInitial | Epoch0RTT | EpochHandshake | Epoch1RTT

definition EpochToEncryptionLevel :: "Epoch \<Rightarrow> EncryptionLevel" where
  "EpochToEncryptionLevel = go_lookup EncryptionLevelNone
    [(EpochInitial, EncryptionLevelInitial), (Epoch0RTT, EncryptionLevel0RTT),
     (EpochHandshake, EncryptionLevelHandshake), (Epoch1RTT, EncryptionLevel1RTT)]"

definition EncryptionLevelToEpoch :: "EncryptionLevel \<Rightarrow> Epoch" where
  "EncryptionLevelToEpoch = go_lookup EpochInitial
    [(EncryptionLevelInitial, EpochInitial), (EncryptionLevel0RTT, Epoch0RTT),
     (EncryptionLevelHandshake, EpochHandshake), (EncryptionLevel1RTT, Epoch1RTT)]"

lemma level_epoch_inverse [simp]: "EncryptionLevelToEpoch (EpochToEncryptionLevel e) = e"
  by (cases e) (simp_all add: EncryptionLevelToEpoch_def EpochToEncryptionLevel_def go_lookup_def)

record DirectionalEncryptionLevel =
  del_EncryptionLevel :: EncryptionLevel
  del_Read :: bool
  del_Available :: bool

section \<open>Keys\<close>

text \<open>
  \<^verbatim>\<open>pigotls.AEAD\<close>: the size of the tag, \<^verbatim>\<open>Encrypt(cleartext, seq, aad)\<close> and \<^verbatim>\<open>Decrypt(ciphertext, seq, aad)\<close>, which
  answers \<^verbatim>\<open>nil\<close> for a forged ciphertext. \<^verbatim>\<open>pigotls.Cipher\<close>: \<^verbatim>\<open>Encrypt(iv, cleartext)\<close>.
\<close>

record AEAD =
  aead_Overhead :: nat
  aead_Encrypt :: "bytes \<Rightarrow> u64 \<Rightarrow> bytes \<Rightarrow> bytes"
  aead_Decrypt :: "bytes \<Rightarrow> u64 \<Rightarrow> bytes \<Rightarrow> bytes option"

type_synonym Cipher = "bytes \<Rightarrow> bytes \<Rightarrow> bytes"

record CryptoState =
  cs_Read :: "AEAD option"
  cs_Write :: "AEAD option"
  cs_HeaderRead :: "Cipher option"
  cs_HeaderWrite :: "Cipher option"

definition new_CryptoState :: CryptoState where
  "new_CryptoState = \<lparr>cs_Read = None, cs_Write = None, cs_HeaderRead = None, cs_HeaderWrite = None\<rparr>"

text \<open>The functions of \<^verbatim>\<open>pigotls.Connection\<close> and its two labels that the key schedule uses.\<close>

record Tls =
  tls_NewAEAD :: "bytes \<Rightarrow> bool \<Rightarrow> AEAD"
  tls_NewCipher :: "bytes \<Rightarrow> Cipher"
  tls_HkdfExtract :: "bytes \<Rightarrow> bytes \<Rightarrow> bytes"
  tls_HkdfExpandLabel :: "bytes \<Rightarrow> string \<Rightarrow> bytes \<Rightarrow> nat \<Rightarrow> string \<Rightarrow> bytes"
  tls_HashDigestSize :: nat
  tls_AEADKeySize :: nat
  tls_BaseLabel :: string
  tls_QuicBaseLabel :: string

definition quicVersionSalt :: bytes where
  "quicVersionSalt =
    [0xaf, 0xbf, 0xec, 0x28, 0x99, 0x93, 0xd2, 0x4c,
     0x9e, 0x97, 0x86, 0xf1, 0x9c, 0x61, 0x11, 0xe0,
     0x43, 0x90, 0xa8, 0x99]"

definition clientInitialLabel :: string where "clientInitialLabel = ''client in''"
definition serverInitialLabel :: string where "serverInitialLabel = ''server in''"

definition InitRead :: "Tls \<Rightarrow> bytes \<Rightarrow> CryptoState \<Rightarrow> CryptoState" where
  "InitRead tls readSecret s =
     s\<lparr>cs_Read := Some (tls_NewAEAD tls readSecret False),
       cs_HeaderRead := Some (tls_NewCipher tls
         (tls_HkdfExpandLabel tls readSecret ''hp'' [] (tls_AEADKeySize tls) (tls_QuicBaseLabel tls)))\<rparr>"

definition InitWrite :: "Tls \<Rightarrow> bytes \<Rightarrow> CryptoState \<Rightarrow> CryptoState" where
  "InitWrite tls writeSecret s =
     s\<lparr>cs_Write := Some (tls_NewAEAD tls writeSecret True),
       cs_HeaderWrite := Some (tls_NewCipher tls
         (tls_HkdfExpandLabel tls writeSecret ''hp'' [] (tls_AEADKeySize tls) (tls_QuicBaseLabel tls)))\<rparr>"

definition NewProtectedCryptoState :: "Tls \<Rightarrow> bytes \<Rightarrow> bytes \<Rightarrow> CryptoState" where
  "NewProtectedCryptoState tls readSecret writeSecret =
     (let s = new_CryptoState;
          s = (if length readSecret > 0 then InitRead tls readSecret s else s)
      in if length writeSecret > 0 then InitWrite tls writeSecret s else s)"

definition NewInitialPacketProtection :: "Tls \<Rightarrow> ConnectionID \<Rightarrow> CryptoState" where
  "NewInitialPacketProtection tls destinationCID =
     (let initialSecret = tls_HkdfExtract tls quicVersionSalt destinationCID;
          readSecret = tls_HkdfExpandLabel tls initialSecret serverInitialLabel [] (tls_HashDigestSize tls)
            (tls_BaseLabel tls);
          writeSecret = tls_HkdfExpandLabel tls initialSecret clientInitialLabel [] (tls_HashDigestSize tls)
            (tls_BaseLabel tls)
      in NewProtectedCryptoState tls readSecret writeSecret)"

text \<open>The keys of one direction are installed together.\<close>

lemma NewProtectedCryptoState_parts:
  "(cs_Read (NewProtectedCryptoState tls r w) = None \<longleftrightarrow> r = []) \<and>
   (cs_HeaderRead (NewProtectedCryptoState tls r w) = None \<longleftrightarrow> r = []) \<and>
   (cs_Write (NewProtectedCryptoState tls r w) = None \<longleftrightarrow> w = []) \<and>
   (cs_HeaderWrite (NewProtectedCryptoState tls r w) = None \<longleftrightarrow> w = [])"
  by (simp add: NewProtectedCryptoState_def Let_def new_CryptoState_def InitRead_def InitWrite_def)

record RetryPseudoPacket =
  rp_OriginalDestinationCID :: ConnectionID
  rp_UnusedByte :: u8
  rp_Version :: u32
  rp_DestinationCID :: ConnectionID
  rp_SourceCID :: ConnectionID
  rp_RetryToken :: bytes

definition RetryPseudoPacket_Encode :: "RetryPseudoPacket \<Rightarrow> bytes" where
  "RetryPseudoPacket_Encode r =
     ConnectionID_WriteTo (rp_OriginalDestinationCID r) @ [rp_UnusedByte r] @ PutUint32 (rp_Version r) @
     ConnectionID_WriteTo (rp_DestinationCID r) @ ConnectionID_WriteTo (rp_SourceCID r) @ rp_RetryToken r"

section \<open>The levels agree with each other\<close>

lemma PacketType_level_space:
  "t \<in> {Initial, ZeroRTTProtected, Handshake, ShortHeaderPacket} \<Longrightarrow>
   EncryptionLevelToPNSpace (PacketTypeToEncryptionLevel t) = PacketType_PNSpace t \<and>
   EncryptionLevelToPacketType (PacketTypeToEncryptionLevel t) = t"
  by (auto simp: EncryptionLevelToPNSpace_def PacketTypeToEncryptionLevel_def PacketType_PNSpace_def
      EncryptionLevelToPacketType_def packetTypeToPNSPace_def go_lookup_def packet_types)

end
