(* ===== verification/ConnData.thy ===== *)
theory ConnData
  imports Levels
begin

text \<open>
  The data the packet layer and the agents share: headers, packets, the messages on the broadcast
  channels (\<^verbatim>\<open>headers.go\<close>, \<^verbatim>\<open>packets.go\<close>, \<^verbatim>\<open>common.go\<close>) and the state of a connection (\<^verbatim>\<open>connection.go\<close>).

  A broadcast channel is the log of what was submitted to it. A Go map is a function, whose value at a key that
  was never set is the zero value. Sockets, loggers, traces, locks and the TLS stack are not
  in the record.
\<close>

section \<open>Headers\<close>

record LongHeader =
  lh_PacketType :: PacketType
  lh_LowerBits :: u8
  lh_Version :: u32
  lh_DestinationCID :: ConnectionID
  lh_SourceCID :: ConnectionID
  lh_TokenLength :: VarInt
  lh_Token :: bytes
  lh_Length :: VarInt
  lh_PacketNumber :: PacketNumber
  lh_TruncatedPN :: TruncatedPN

text \<open>\<open>sh_SpinBit\<close> and \<open>sh_KeyPhase\<close> are the boolean types \<^verbatim>\<open>SpinBit\<close> and \<^verbatim>\<open>KeyPhaseBit\<close>.\<close>

record ShortHeader =
  sh_SpinBit :: bool
  sh_KeyPhase :: bool
  sh_DestinationCID :: ConnectionID
  sh_TruncatedPN :: TruncatedPN
  sh_PacketNumber :: PacketNumber

datatype Header = Long LongHeader | Short ShortHeader

section \<open>Packets\<close>

datatype ECNStatus = ECNStatusNonECT | ECNStatusECT_1 | ECNStatusECT_0 | ECNStatusCE

text \<open>Time stamps are nanoseconds; the remote address is the text of the address.\<close>

type_synonym time = int

record PacketContext =
  pc_Timestamp :: time
  pc_RemoteAddr :: string
  pc_ECNStatus :: ECNStatus
  pc_DatagramSize :: u16
  pc_PacketSize :: u16
  pc_WasBuffered :: bool

definition zero_PacketContext :: PacketContext where
  "zero_PacketContext = \<lparr>pc_Timestamp = 0, pc_RemoteAddr = [], pc_ECNStatus = ECNStatusNonECT,
     pc_DatagramSize = 0, pc_PacketSize = 0, pc_WasBuffered = False\<rparr>"

text \<open>The contexts of \<^verbatim>\<open>AbstractPacket\<close>, which every packet embeds.\<close>

record AbstractPacket =
  receiveContext :: PacketContext
  sendContext :: PacketContext

definition zero_AbstractPacket :: AbstractPacket where
  "zero_AbstractPacket = \<lparr>receiveContext = zero_PacketContext, sendContext = zero_PacketContext\<rparr>"

text \<open>
  The field \<^verbatim>\<open>Header\<close> of \<^verbatim>\<open>AbstractPacket\<close> is set by the constructor of every packet with frames and of a Retry packet;
  a Version Negotiation and a Stateless Reset packet leave it \<^verbatim>\<open>nil\<close>, so they have no such field here.
\<close>

record FramePacket = AbstractPacket +
  fp_Header :: Header
  fp_Frames :: "Frame list"

record VersionNegotiationPacket = AbstractPacket +
  vn_UnusedField :: u8
  vn_Version :: u32
  vn_DestinationCID :: ConnectionID
  vn_SourceCID :: ConnectionID
  vn_SupportedVersions :: "u32 list"

record RetryPacket = AbstractPacket +
  rt_Header :: LongHeader
  rt_RetryToken :: bytes
  rt_RetryIntegrityTag :: bytes

record StatelessResetPacket = AbstractPacket +
  sr_UnpredictableBits :: bytes
  sr_StatelessResetToken :: bytes

datatype Packet =
    VersionNegotiationP VersionNegotiationPacket
  | InitialP FramePacket
  | RetryP RetryPacket
  | HandshakeP FramePacket
  | ProtectedP FramePacket
  | ZeroRTTP FramePacket
  | StatelessResetP StatelessResetPacket

section \<open>Messages\<close>

record IncomingPayload =
  ip_PacketContext :: PacketContext
  ip_Payload :: bytes

record UnprocessedPayload =
  up_IncomingPayload :: IncomingPayload
  up_EncryptionLevel :: EncryptionLevel

record QueuedFrame =
  qf_Frame :: Frame
  qf_EncryptionLevel :: EncryptionLevel

record PacketAcknowledged =
  pa_PacketNumber :: PacketNumber
  pa_PNSpace :: PNSpace

text \<open>The packet to send may be \<^verbatim>\<open>nil\<close>, when no first packet could be made.\<close>

record PacketToSend =
  ps_Packet :: "Packet option"
  ps_EncryptionLevel :: EncryptionLevel

record FrameRequest =
  fr_FrameType :: FrameType
  fr_EncryptionLevel :: EncryptionLevel

section \<open>The connection\<close>

record Connection =
  c_ServerName :: string
  c_UseIPv6 :: bool
  c_TLSTPHandler :: TLSTransportParameterHandler
  c_KeyPhaseIndex :: u64
  c_SpinBit :: bool
  c_CryptoStates :: "EncryptionLevel \<Rightarrow> CryptoState option"
  c_CryptoStreams :: CryptoStreams
  c_Streams :: Streams
  c_CurrentStreamID :: u64
  c_IncomingPackets :: "Packet list"
  c_OutgoingPackets :: "Packet list"
  c_IncomingPayloads :: "IncomingPayload list"
  c_UnprocessedPayloads :: "UnprocessedPayload list"
  c_EncryptionLevels :: "DirectionalEncryptionLevel list"
  c_FrameQueue :: "QueuedFrame list"
  c_TransportParameters :: "QuicTransportParameters list"
  c_PreparePacket :: "EncryptionLevel list"
  c_SendPacket :: "PacketToSend list"
  c_PacketAcknowledged :: "PacketAcknowledged list"
  c_OriginalDestinationCID :: ConnectionID
  c_SourceCID :: ConnectionID
  c_DestinationCID :: ConnectionID
  c_Version :: u32
  c_ALPN :: string
  c_Token :: bytes
  c_ResumptionTicket :: bytes
  c_PacketNumber :: "PNSpace \<Rightarrow> PacketNumber"
  c_LargestPNsReceived :: "PNSpace \<Rightarrow> PacketNumber"
  c_LargestPNsAcknowledged :: "PNSpace \<Rightarrow> PacketNumber"
  c_MinRTT :: u64
  c_SmoothedRTT :: u64
  c_RTTVar :: u64
  c_AckQueue :: "PNSpace \<Rightarrow> PacketNumber list"
  c_TlsQueue :: "EncryptionLevel \<Rightarrow> QueuedFrame list"
  c_FlowControlQueue :: "FrameRequest \<Rightarrow> QueuedFrame list"
  c_StreamQueue :: "FrameRequest \<Rightarrow> QueuedFrame list"
  c_ReceiveFrameBuffer :: "PNSpace \<Rightarrow> FrameType \<Rightarrow> Frame list"

text \<open>The datagrams written to the UDP socket are returned by the operations that write them.\<close>

text \<open>Submitting to the channels of the connection.\<close>

definition submit_frame :: "QueuedFrame \<Rightarrow> Connection \<Rightarrow> Connection" where
  "submit_frame f c = c\<lparr>c_FrameQueue := c_FrameQueue c @ [f]\<rparr>"

definition submit_prepare :: "EncryptionLevel \<Rightarrow> Connection \<Rightarrow> Connection" where
  "submit_prepare l c = c\<lparr>c_PreparePacket := c_PreparePacket c @ [l]\<rparr>"

definition submit_send :: "PacketToSend \<Rightarrow> Connection \<Rightarrow> Connection" where
  "submit_send p c = c\<lparr>c_SendPacket := c_SendPacket c @ [p]\<rparr>"

definition submit_level :: "DirectionalEncryptionLevel \<Rightarrow> Connection \<Rightarrow> Connection" where
  "submit_level l c = c\<lparr>c_EncryptionLevels := c_EncryptionLevels c @ [l]\<rparr>"

lemmas submit_defs = submit_frame_def submit_prepare_def submit_send_def submit_level_def

end
