(* ===== verification/Headers.thy ===== *)
theory Headers
  imports ConnData
begin

text \<open>
  Packet headers: \<^verbatim>\<open>headers.go\<close> and the sampling of \<^verbatim>\<open>crypto.go\<close>.

  The results: a written header is read back (up to the packet number, which the receiver completes from what it
  has received), \<^verbatim>\<open>HeaderLength\<close> is the number of bytes written, and the packet number stands
  at the offset \<^verbatim>\<open>GetPacketSample\<close> computes, which is what header protection relies on.
\<close>

section \<open>Operations on headers\<close>

definition typeByte_long :: "LongHeader \<Rightarrow> u8" where
  "typeByte_long h = 0xC0 OR push_bit 4 (lh_PacketType h) OR (of_nat (tpn_Length (lh_TruncatedPN h)) - 1)"

definition LongHeader_Encode :: "LongHeader \<Rightarrow> bytes res" where
  "LongHeader_Encode h =
     cat_res ([Inr [typeByte_long h], Inr (PutUint32 (lh_Version h)),
               Inr [CIDL (lh_DestinationCID h)], Inr (lh_DestinationCID h),
               Inr [CIDL (lh_SourceCID h)], Inr (lh_SourceCID h)] @
       (if lh_PacketType h = Initial then [VarInt_Encode (lh_TokenLength h), Inr (lh_Token h)] else []) @
       (if lh_PacketType h \<noteq> Retry then
          [VarInt_Encode (lh_Length h), Inr (TruncatedPN_Encode (lh_TruncatedPN h))] else []))"

definition LongHeader_HeaderLength :: "LongHeader \<Rightarrow> nat" where
  "LongHeader_HeaderLength h =
     (let len = 7 + length (lh_DestinationCID h) + length (lh_SourceCID h) + vi_Length (lh_Length h) +
            tpn_Length (lh_TruncatedPN h)
      in if lh_PacketType h = Initial then len + (vi_Length (lh_TokenLength h) + length (lh_Token h)) else len)"

definition typeByte_short :: "ShortHeader \<Rightarrow> u8" where
  "typeByte_short h =
     (let b = 0 OR 0x40;
          b = (if sh_SpinBit h then b OR 0x20 else b);
          b = (if sh_KeyPhase h then b OR 0x04 else b)
      in b OR (of_nat (tpn_Length (sh_TruncatedPN h)) - 1))"

definition ShortHeader_Encode :: "ShortHeader \<Rightarrow> bytes" where
  "ShortHeader_Encode h = typeByte_short h # sh_DestinationCID h @ TruncatedPN_Encode (sh_TruncatedPN h)"

definition ShortHeader_HeaderLength :: "ShortHeader \<Rightarrow> nat" where
  "ShortHeader_HeaderLength h = 1 + length (sh_DestinationCID h) + tpn_Length (sh_TruncatedPN h)"

text \<open>The methods of the interface \<^verbatim>\<open>Header\<close>.\<close>

fun GetPacketType :: "Header \<Rightarrow> PacketType" where
  "GetPacketType (Long h) = lh_PacketType h"
| "GetPacketType (Short h) = ShortHeaderPacket"

fun DestinationConnectionID :: "Header \<Rightarrow> ConnectionID" where
  "DestinationConnectionID (Long h) = lh_DestinationCID h"
| "DestinationConnectionID (Short h) = sh_DestinationCID h"

fun GetPacketNumber :: "Header \<Rightarrow> PacketNumber" where
  "GetPacketNumber (Long h) = lh_PacketNumber h"
| "GetPacketNumber (Short h) = sh_PacketNumber h"

fun SetPacketNumber :: "PacketNumber \<Rightarrow> Header \<Rightarrow> Header" where
  "SetPacketNumber n (Long h) = Long (h\<lparr>lh_PacketNumber := n\<rparr>)"
| "SetPacketNumber n (Short h) = Short (h\<lparr>sh_PacketNumber := n\<rparr>)"

fun GetTruncatedPN :: "Header \<Rightarrow> TruncatedPN" where
  "GetTruncatedPN (Long h) = lh_TruncatedPN h"
| "GetTruncatedPN (Short h) = sh_TruncatedPN h"

definition Header_EncryptionLevel :: "Header \<Rightarrow> EncryptionLevel" where
  "Header_EncryptionLevel h = PacketTypeToEncryptionLevel (GetPacketType h)"

fun Header_Encode :: "Header \<Rightarrow> bytes res" where
  "Header_Encode (Long h) = LongHeader_Encode h"
| "Header_Encode (Short h) = Inr (ShortHeader_Encode h)"

fun HeaderLength :: "Header \<Rightarrow> nat" where
  "HeaderLength (Long h) = LongHeader_HeaderLength h"
| "HeaderLength (Short h) = ShortHeader_HeaderLength h"

section \<open>Making a header\<close>

definition nextPacketNumber :: "PNSpace \<Rightarrow> Connection \<Rightarrow> PacketNumber \<times> Connection" where
  "nextPacketNumber space c =
     (let pn = c_PacketNumber c space
      in (pn, c\<lparr>c_PacketNumber := (c_PacketNumber c)(space := pn + 1)\<rparr>))"

definition NewLongHeader :: "PacketType \<Rightarrow> Connection \<Rightarrow> PNSpace \<Rightarrow> (LongHeader \<times> Connection) res" where
  "NewLongHeader packetType conn space =
     bind_res (NewVarInt 0) (\<lambda>tokenLength.
     case nextPacketNumber space conn of (pn, conn) \<Rightarrow>
     bind_res (Truncate pn (c_LargestPNsAcknowledged conn (PacketType_PNSpace packetType))) (\<lambda>tpn.
     Inr (\<lparr>lh_PacketType = packetType, lh_LowerBits = 0, lh_Version = c_Version conn,
           lh_DestinationCID = (if packetType = ZeroRTTProtected then c_OriginalDestinationCID conn
                                else c_DestinationCID conn),
           lh_SourceCID = c_SourceCID conn, lh_TokenLength = tokenLength, lh_Token = [],
           lh_Length = zero_VarInt, lh_PacketNumber = pn, lh_TruncatedPN = tpn\<rparr>, conn)))"

definition NewShortHeader :: "Connection \<Rightarrow> (ShortHeader \<times> Connection) res" where
  "NewShortHeader conn =
     (case nextPacketNumber PNSpaceAppData conn of (pn, conn) \<Rightarrow>
      bind_res (Truncate pn (c_LargestPNsAcknowledged conn PNSpaceAppData)) (\<lambda>tpn.
      Inr (\<lparr>sh_SpinBit = c_SpinBit conn, sh_KeyPhase = (c_KeyPhaseIndex conn mod 2 = 1),
            sh_DestinationCID = c_DestinationCID conn, sh_TruncatedPN = tpn, sh_PacketNumber = pn\<rparr>, conn)))"

section \<open>Reading a header\<close>

text \<open>\<^verbatim>\<open>binary.Read\<close> into a zeroed 32-bit field, the error dropped.\<close>

definition rd_u32 :: "reader \<Rightarrow> u32 \<times> reader" where
  "rd_u32 r = (case ReadFull 4 r of (Inr b, r') \<Rightarrow> (BE_Uint32 b, r') | (Inl e, r') \<Rightarrow> (0, r'))"

text \<open>A length byte and a connection identifier of that length.\<close>

definition rd_cid :: "reader \<Rightarrow> ConnectionID \<times> reader" where
  "rd_cid r = (case rd_byte r of (n, r) \<Rightarrow> binary_Read_bytes (unat n) r)"

text \<open>The token of an Initial packet, and the length and packet number of all but a Retry packet.\<close>

definition rd_token :: "PacketType \<Rightarrow> reader \<Rightarrow> (VarInt \<times> bytes \<times> reader) res" where
  "rd_token packetType r =
     (if packetType = Initial then
        (case rd_VarInt r of (tokenLength, r) \<Rightarrow>
         bind_res (make_Read (unat (vi_Value tokenLength)) r) (\<lambda>(token, r). Inr (tokenLength, token, r)))
      else Inr (zero_VarInt, [], r))"

definition rd_number ::
    "PacketType \<Rightarrow> u8 \<Rightarrow> Connection \<Rightarrow> reader \<Rightarrow> VarInt \<times> TruncatedPN \<times> PacketNumber \<times> reader" where
  "rd_number packetType typeByte conn r =
     (if packetType \<noteq> Retry then
        (case rd_VarInt r of (len, r) \<Rightarrow>
         case ReadTruncatedPN r (unat (typeByte AND 0x3) + 1) of (tpn, r) \<Rightarrow>
         (len, tpn, Join tpn (c_LargestPNsReceived conn (PacketType_PNSpace packetType)), r))
      else (zero_VarInt, \<lparr>tpn_Value = 0, tpn_Length = 0\<rparr>, 0, r))"

definition ReadLongHeader :: "reader \<Rightarrow> Connection \<Rightarrow> (LongHeader \<times> reader) res" where
  "ReadLongHeader r conn =
     (case rd_byte r of (typeByte, r) \<Rightarrow>
      let packetType = drop_bit 4 (typeByte - 0xC0) in
      case rd_u32 r of (version, r) \<Rightarrow>
      case rd_cid r of (dcid, r) \<Rightarrow>
      case rd_cid r of (scid, r) \<Rightarrow>
      bind_res (rd_token packetType r) (\<lambda>(tokenLength, token, r).
      case rd_number packetType typeByte conn r of (len, tpn, pn, r) \<Rightarrow>
      Inr (\<lparr>lh_PacketType = packetType, lh_LowerBits = typeByte AND 0x0F, lh_Version = version,
            lh_DestinationCID = dcid, lh_SourceCID = scid, lh_TokenLength = tokenLength, lh_Token = token,
            lh_Length = len, lh_PacketNumber = pn, lh_TruncatedPN = tpn\<rparr>, r)))"

definition ReadShortHeader :: "reader \<Rightarrow> Connection \<Rightarrow> (ShortHeader \<times> reader) res" where
  "ReadShortHeader r conn =
     (case rd_byte r of (typeByte, r) \<Rightarrow>
      bind_res (make_Read (length (c_SourceCID conn)) r) (\<lambda>(dcid, r).
      case ReadTruncatedPN r (unat (typeByte AND 0x3) + 1) of (tpn, r) \<Rightarrow>
      Inr (\<lparr>sh_SpinBit = (typeByte AND 0x20 = 0x20), sh_KeyPhase = (typeByte AND 0x04 = 0x04),
            sh_DestinationCID = dcid, sh_TruncatedPN = tpn,
            sh_PacketNumber = Join tpn (c_LargestPNsReceived conn PNSpaceAppData)\<rparr>, r)))"

text \<open>The first byte is read and put back; on an empty reader the put-back moves the position before the byte read earlier.\<close>

definition ReadHeader :: "reader \<Rightarrow> Connection \<Rightarrow> (Header \<times> reader) res" where
  "ReadHeader r conn =
     (case rd_byte r of (typeByte, r) \<Rightarrow>
      case UnreadByte r of (_, r) \<Rightarrow>
      if typeByte AND 0x80 = 0x80 then bind_res (ReadLongHeader r conn) (\<lambda>(h, r). Inr (Long h, r))
      else bind_res (ReadShortHeader r conn) (\<lambda>(h, r). Inr (Short h, r)))"

section \<open>Sampling\<close>

text \<open>The sample is \<^verbatim>\<open>nil\<close> when the packet is too short.\<close>

definition pn_offset :: "Header \<Rightarrow> nat" where
  "pn_offset header =
     (case header of
        Long h \<Rightarrow> LongHeader_HeaderLength h - tpn_Length (lh_TruncatedPN h)
      | Short h \<Rightarrow> 1 + length (sh_DestinationCID h))"

definition GetPacketSample :: "Header \<Rightarrow> bytes \<Rightarrow> bytes option \<times> nat" where
  "GetPacketSample header packetBytes =
     (let sampleLength = 16; pnOffset = pn_offset header; sampleOffset = pnOffset + 4
      in if sampleOffset + sampleLength > length packetBytes then (None, pnOffset)
         else (Some (take sampleLength (drop sampleOffset packetBytes)), pnOffset))"

section \<open>The first byte\<close>

lemma u8_below_4: "unat (p :: u8) < 4 \<Longrightarrow> p \<in> {0, 1, 2, 3}"
proof -
  assume "unat p < 4"
  then have "unat p = 0 \<or> unat p = 1 \<or> unat p = 2 \<or> unat p = 3" by linarith
  then show ?thesis by (auto simp: word_unat_eq_iff)
qed

lemma typeByte_long_bits:
  assumes "unat (lh_PacketType h) < 4" "tpn_Length (lh_TruncatedPN h) \<in> {1, 2, 3, 4}"
  shows "typeByte_long h AND 0x80 = 0x80" "drop_bit 4 (typeByte_long h - 0xC0) = lh_PacketType h"
    "Suc (unat (typeByte_long h AND 3)) = tpn_Length (lh_TruncatedPN h)"
  using assms(2) u8_below_4 [OF assms(1)] by (auto simp: typeByte_long_def)

lemma typeByte_short_bits:
  assumes "tpn_Length (sh_TruncatedPN h) \<in> {1, 2, 3, 4}"
  shows "typeByte_short h AND 0x80 \<noteq> 0x80" "(typeByte_short h AND 0x20 = 0x20) = sh_SpinBit h"
    "(typeByte_short h AND 0x04 = 0x04) = sh_KeyPhase h"
    "Suc (unat (typeByte_short h AND 3)) = tpn_Length (sh_TruncatedPN h)"
  using assms by (auto simp: typeByte_short_def Let_def)

section \<open>Reading what was written\<close>

lemma rd_u32_PutUint32 [codec_simps]: "rd_u32 (Reader d (PutUint32 v @ t)) = (v, Reader (rev (PutUint32 v) @ d) t)"
  by (simp add: rd_u32_def ReadFull_append)

lemma unat_CIDL: "length c < 256 \<Longrightarrow> unat (CIDL c) = length c"
  by (simp add: CIDL_def unsigned_of_nat take_bit_eq_mod)

lemma rd_cid_written [codec_simps]:
  "length c < 256 \<Longrightarrow> rd_cid (Reader d (CIDL c # c @ t)) = (c, Reader (rev c @ CIDL c # d) t)"
  by (simp add: rd_cid_def rd_byte_Cons unat_CIDL binary_Read_bytes_append)

text \<open>The headers that fit the format: what \<open>NewLongHeader\<close> and \<open>NewInitialPacket\<close> make, once the length is set.\<close>

definition wf_long :: "LongHeader \<Rightarrow> bool" where
  "wf_long h \<longleftrightarrow> lh_PacketType h \<in> {Initial, ZeroRTTProtected, Handshake} \<and>
     length (lh_DestinationCID h) < 256 \<and> length (lh_SourceCID h) < 256 \<and>
     wf_VarInt (lh_Length h) \<and> wf_TruncatedPN (lh_TruncatedPN h) \<and>
     (lh_PacketType h = Initial \<longrightarrow> wf_VarInt (lh_TokenLength h) \<and>
        unat (vi_Value (lh_TokenLength h)) = length (lh_Token h) \<and> length (lh_Token h) \<le> maxAlloc) \<and>
     (lh_PacketType h \<noteq> Initial \<longrightarrow> lh_Token h = [])"

text \<open>What the receiver makes of the header \<open>h\<close>.\<close>

definition received_long :: "Connection \<Rightarrow> LongHeader \<Rightarrow> LongHeader" where
  "received_long conn h = h
     \<lparr>lh_LowerBits := typeByte_long h AND 0x0F,
      lh_TokenLength := (if lh_PacketType h = Initial then lh_TokenLength h else zero_VarInt),
      lh_PacketNumber := Join (lh_TruncatedPN h) (c_LargestPNsReceived conn (PacketType_PNSpace (lh_PacketType h)))\<rparr>"

lemma rd_VarInt_struct: "wf_VarInt v \<Longrightarrow> VarInt_Encode v = Inr b \<Longrightarrow>
   rd_VarInt (Reader d (b @ t)) = (v, Reader (rev b @ d) t)"
  using varint_struct.dec_enc [of v b d t]
  by (simp add: rd_VarInt_def split: prod.splits sum.splits)

lemma VarInt_Encode_length: "wf_VarInt v \<Longrightarrow> VarInt_Encode v = Inr b \<Longrightarrow> length b = vi_Length v"
  using VarIntLen_EncodeVarInt [of "vi_Value v" b]
  by (simp add: wf_VarInt_def VarInt_Encode_def WriteVarInt_def)

lemma wf_long_bits:
  assumes "wf_long h"
  shows "typeByte_long h AND 0x80 = 0x80" "drop_bit 4 (typeByte_long h - 0xC0) = lh_PacketType h"
    "Suc (unat (typeByte_long h AND 3)) = tpn_Length (lh_TruncatedPN h)" "lh_PacketType h \<noteq> Retry"
  using assms typeByte_long_bits [of h] by (auto simp: wf_long_def packet_types wf_TruncatedPN_def)

text \<open>The parts of the written header.\<close>

lemma LongHeader_Encode_parts:
  assumes "LongHeader_Encode h = Inr b" "wf_long h"
  obtains k l where "VarInt_Encode (lh_Length h) = Inr l"
    "lh_PacketType h = Initial \<and> VarInt_Encode (lh_TokenLength h) = Inr k \<or> lh_PacketType h \<noteq> Initial \<and> k = []"
    "b = typeByte_long h # PutUint32 (lh_Version h) @ CIDL (lh_DestinationCID h) # lh_DestinationCID h @
       CIDL (lh_SourceCID h) # lh_SourceCID h @ k @ lh_Token h @ l @ TruncatedPN_Encode (lh_TruncatedPN h)"
  using assms wf_long_bits(4) [OF assms(2)] that
  by (cases "lh_PacketType h = Initial") (auto simp: LongHeader_Encode_def wf_long_def)

lemma rd_token_written:
  assumes "wf_long h"
    "lh_PacketType h = Initial \<and> VarInt_Encode (lh_TokenLength h) = Inr k \<or> lh_PacketType h \<noteq> Initial \<and> k = []"
  shows "rd_token (lh_PacketType h) (Reader d (k @ lh_Token h @ t)) =
    Inr (if lh_PacketType h = Initial then lh_TokenLength h else zero_VarInt, lh_Token h,
         Reader (rev (lh_Token h) @ rev k @ d) t)"
  using assms make_Read_append [of "lh_Token h" "length (lh_Token h)" "rev k @ d" t]
  by (auto simp: rd_token_def wf_long_def rd_VarInt_struct [of "lh_TokenLength h" k])

lemma rd_number_written:
  assumes "wf_long h" "VarInt_Encode (lh_Length h) = Inr l"
  shows "rd_number (lh_PacketType h) (typeByte_long h) conn
      (Reader d (l @ TruncatedPN_Encode (lh_TruncatedPN h) @ t)) =
    (lh_Length h, lh_TruncatedPN h,
     Join (lh_TruncatedPN h) (c_LargestPNsReceived conn (PacketType_PNSpace (lh_PacketType h))),
     Reader (rev (TruncatedPN_Encode (lh_TruncatedPN h)) @ rev l @ d) t)"
  using assms wf_long_bits(3,4) [OF assms(1)]
  by (simp add: rd_number_def wf_long_def rd_VarInt_struct [OF _ assms(2)] ReadTruncatedPN_Encode)

lemma ReadLongHeader_written:
  assumes "LongHeader_Encode h = Inr b" "wf_long h"
  shows "ReadLongHeader (Reader d (b @ t)) conn = Inr (received_long conn h, Reader (rev b @ d) t)"
proof -
  obtain k l where l: "VarInt_Encode (lh_Length h) = Inr l"
    and k: "lh_PacketType h = Initial \<and> VarInt_Encode (lh_TokenLength h) = Inr k \<or> lh_PacketType h \<noteq> Initial \<and> k = []"
    and b: "b = typeByte_long h # PutUint32 (lh_Version h) @ CIDL (lh_DestinationCID h) # lh_DestinationCID h @
       CIDL (lh_SourceCID h) # lh_SourceCID h @ k @ lh_Token h @ l @ TruncatedPN_Encode (lh_TruncatedPN h)"
    using LongHeader_Encode_parts [OF assms] by metis
  have "length (lh_DestinationCID h) < 256" "length (lh_SourceCID h) < 256"
    using assms(2) by (auto simp: wf_long_def)
  then show ?thesis
    by (simp add: ReadLongHeader_def b Let_def rd_byte_Cons rd_u32_PutUint32 rd_cid_written
        wf_long_bits(2) [OF assms(2)] rd_token_written [OF assms(2) k] rd_number_written [OF assms(2) l]
        received_long_def)
qed

lemma LongHeader_Encode_length:
  assumes "LongHeader_Encode h = Inr b" "wf_long h"
  shows "length b = LongHeader_HeaderLength h"
    "drop (pn_offset (Long h)) b = TruncatedPN_Encode (lh_TruncatedPN h)"
proof -
  obtain k l where l: "VarInt_Encode (lh_Length h) = Inr l"
    and k: "lh_PacketType h = Initial \<and> VarInt_Encode (lh_TokenLength h) = Inr k \<or> lh_PacketType h \<noteq> Initial \<and> k = []"
    and b: "b = typeByte_long h # PutUint32 (lh_Version h) @ CIDL (lh_DestinationCID h) # lh_DestinationCID h @
       CIDL (lh_SourceCID h) # lh_SourceCID h @ k @ lh_Token h @ l @ TruncatedPN_Encode (lh_TruncatedPN h)"
    using LongHeader_Encode_parts [OF assms] by metis
  have len: "length l = vi_Length (lh_Length h)"
    "length (TruncatedPN_Encode (lh_TruncatedPN h)) = tpn_Length (lh_TruncatedPN h)"
    "length k + length (lh_Token h) =
       (if lh_PacketType h = Initial then vi_Length (lh_TokenLength h) + length (lh_Token h) else 0)"
    using assms(2) k VarInt_Encode_length [OF _ l] VarInt_Encode_length [of "lh_TokenLength h" k]
      length_TruncatedPN_Encode by (auto simp: wf_long_def)
  then show "length b = LongHeader_HeaderLength h"
    by (auto simp: b LongHeader_HeaderLength_def Let_def split: if_splits)
  let ?pre = "typeByte_long h # PutUint32 (lh_Version h) @ CIDL (lh_DestinationCID h) #
      lh_DestinationCID h @ CIDL (lh_SourceCID h) # lh_SourceCID h @ k @ lh_Token h @ l"
  have "pn_offset (Long h) = length ?pre"
    using len by (auto simp: pn_offset_def LongHeader_HeaderLength_def Let_def split: if_splits)
  moreover have "b = ?pre @ TruncatedPN_Encode (lh_TruncatedPN h)" by (simp add: b)
  ultimately show "drop (pn_offset (Long h)) b = TruncatedPN_Encode (lh_TruncatedPN h)"
    by (metis append_eq_conv_conj)
qed

lemma LongHeader_Encode_total: "wf_long h \<Longrightarrow> \<exists>b. LongHeader_Encode h = Inr b"
  using varint_struct.enc_total [of "lh_Length h"] varint_struct.enc_total [of "lh_TokenLength h"]
  by (auto simp: wf_long_def LongHeader_Encode_def)

definition wf_short :: "Connection \<Rightarrow> ShortHeader \<Rightarrow> bool" where
  "wf_short conn h \<longleftrightarrow> length (sh_DestinationCID h) = length (c_SourceCID conn) \<and>
     length (c_SourceCID conn) < 256 \<and> wf_TruncatedPN (sh_TruncatedPN h)"

lemma ReadShortHeader_written:
  assumes "wf_short conn h"
  shows "ReadShortHeader (Reader d (ShortHeader_Encode h @ t)) conn =
    Inr (h\<lparr>sh_PacketNumber := Join (sh_TruncatedPN h) (c_LargestPNsReceived conn PNSpaceAppData)\<rparr>,
         Reader (rev (ShortHeader_Encode h) @ d) t)"
proof -
  have b: "tpn_Length (sh_TruncatedPN h) \<in> {1, 2, 3, 4}"
    using assms by (auto simp: wf_short_def wf_TruncatedPN_def)
  have "make_Read (length (c_SourceCID conn))
      (Reader d' (sh_DestinationCID h @ t')) = Inr (sh_DestinationCID h, Reader (rev (sh_DestinationCID h) @ d') t')"
    for d' t' using assms by (intro make_Read_append) (auto simp: wf_short_def maxAlloc_def)
  then show ?thesis
    using assms typeByte_short_bits [OF b]
    by (simp add: ReadShortHeader_def ShortHeader_Encode_def rd_byte_Cons wf_short_def ReadTruncatedPN_Encode)
qed

lemma ShortHeader_Encode_length:
  assumes "wf_TruncatedPN (sh_TruncatedPN h)"
  shows "length (ShortHeader_Encode h) = ShortHeader_HeaderLength h"
    "drop (pn_offset (Short h)) (ShortHeader_Encode h) = TruncatedPN_Encode (sh_TruncatedPN h)"
  using length_TruncatedPN_Encode [OF assms]
  by (simp_all add: ShortHeader_Encode_def ShortHeader_HeaderLength_def pn_offset_def)

text \<open>Both kinds together.\<close>

fun wf_header :: "Connection \<Rightarrow> Header \<Rightarrow> bool" where
  "wf_header conn (Long h) \<longleftrightarrow> wf_long h"
| "wf_header conn (Short h) \<longleftrightarrow> wf_short conn h"

fun received_header :: "Connection \<Rightarrow> Header \<Rightarrow> Header" where
  "received_header conn (Long h) = Long (received_long conn h)"
| "received_header conn (Short h) =
     Short (h\<lparr>sh_PacketNumber := Join (sh_TruncatedPN h) (c_LargestPNsReceived conn PNSpaceAppData)\<rparr>)"

lemma ReadHeader_Long:
  "b AND 0x80 = 0x80 \<Longrightarrow> ReadHeader (Reader d (b # t)) conn =
    bind_res (ReadLongHeader (Reader d (b # t)) conn) (\<lambda>(h, r). Inr (Long h, r))"
  by (simp add: ReadHeader_def rd_byte_Cons)

lemma ReadHeader_Short:
  "b AND 0x80 \<noteq> 0x80 \<Longrightarrow> ReadHeader (Reader d (b # t)) conn =
    bind_res (ReadShortHeader (Reader d (b # t)) conn) (\<lambda>(h, r). Inr (Short h, r))"
  by (simp add: ReadHeader_def rd_byte_Cons)

lemma ReadHeader_written:
  assumes "Header_Encode h = Inr b" "wf_header conn h"
  shows "ReadHeader (Reader d (b @ t)) conn = Inr (received_header conn h, Reader (rev b @ d) t)"
proof (cases h)
  case (Long l)
  with assms have l: "LongHeader_Encode l = Inr b" "wf_long l" by auto
  obtain b' where b': "b = typeByte_long l # b'"
    using LongHeader_Encode_parts [OF l] by metis
  show ?thesis
    using ReadLongHeader_written [OF l, of d t conn] ReadHeader_Long [OF wf_long_bits(1) [OF l(2)], of d "b' @ t" conn]
    by (simp add: Long b')
next
  case (Short s)
  with assms have s: "b = ShortHeader_Encode s" "wf_short conn s" by auto
  then have "tpn_Length (sh_TruncatedPN s) \<in> {1, 2, 3, 4}"
    by (auto simp: wf_short_def wf_TruncatedPN_def)
  from typeByte_short_bits(1) [OF this] show ?thesis
    using ReadShortHeader_written [OF s(2), of d t] ReadHeader_Short [of "typeByte_short s" d _ conn]
    by (simp add: Short s(1) ShortHeader_Encode_def)
qed

lemma Header_Encode_length:
  assumes "Header_Encode h = Inr b" "wf_header conn h"
  shows "length b = HeaderLength h" "drop (pn_offset h) b = TruncatedPN_Encode (GetTruncatedPN h)"
  using assms LongHeader_Encode_length ShortHeader_Encode_length
  by (cases h; force simp: wf_short_def)+

text \<open>
  For a receiver, the headers it completes to themselves are a wire format: no header is a prefix of another, and
  equal bytes mean equal headers.
\<close>

interpretation header_codec: wire_codec Header_Encode
  "\<lambda>r. case ReadHeader r conn of Inr x \<Rightarrow> Some x | Inl _ \<Rightarrow> None"
  "\<lambda>h. wf_header conn h \<and> received_header conn h = h"
  for conn :: Connection
proof (unfold_locales, goal_cases)
  case (1 h)
  then show ?case using LongHeader_Encode_total by (cases h) auto
next
  case (2 h b d t)
  then show ?case using ReadHeader_written [of h b conn d t] by simp
qed

section \<open>Fresh headers\<close>

lemma NewVarInt_0: "NewVarInt 0 = Inr \<lparr>vi_Value = 0, vi_Length = 1\<rparr>"
  by (simp add: NewVarInt_def VarIntLen_def maxVarInt1_def)

lemma NewLongHeader_wf:
  assumes "NewLongHeader p conn space = Inr (h, conn')" "p \<in> {Initial, ZeroRTTProtected, Handshake}"
    "length (c_DestinationCID conn) < 256" "length (c_OriginalDestinationCID conn) < 256"
    "length (c_SourceCID conn) < 256" "wf_VarInt v"
  shows "wf_long (h\<lparr>lh_Length := v\<rparr>)" "lh_PacketNumber h = c_PacketNumber conn space"
    "conn' = conn\<lparr>c_PacketNumber := (c_PacketNumber conn)(space := c_PacketNumber conn space + 1)\<rparr>"
  using assms Truncate_wf
  by (auto simp: NewLongHeader_def NewVarInt_0 nextPacketNumber_def Let_def wf_long_def wf_VarInt_def
      VarIntLen_def maxVarInt1_def)

section \<open>Properties\<close>

text \<open>
  C28. Every well-formed header, long or short, that is written is read back as the same header: the reader is left exactly
  behind it and the packet number is completed from the largest one received in the header's packet number space.
  Its length is the announced \<^verbatim>\<open>HeaderLength\<close>, and the packet number stands at the offset that
  header protection masks.
\<close>

theorem header_roundtrip:
  assumes "Header_Encode h = Inr b" "wf_header conn h"
  shows "ReadHeader (Reader d (b @ t)) conn = Inr (received_header conn h, Reader (rev b @ d) t) \<and>
    length b = HeaderLength h \<and>
    snd (GetPacketSample h (b @ t)) + tpn_Length (GetTruncatedPN h) = length b \<and>
    drop (snd (GetPacketSample h (b @ t))) b = TruncatedPN_Encode (GetTruncatedPN h)"
proof -
  have off: "snd (GetPacketSample h (b @ t)) = pn_offset h"
    by (simp add: GetPacketSample_def Let_def)
  have "HeaderLength h = pn_offset h + tpn_Length (GetTruncatedPN h)"
    by (cases h) (simp_all add: pn_offset_def LongHeader_HeaderLength_def ShortHeader_HeaderLength_def Let_def)
  then show ?thesis
    using ReadHeader_written [OF assms] Header_Encode_length [OF assms] off by simp
qed

lemma header_roundtrip_witness:
  "\<forall>conn. ReadHeader (Reader [] [0xE0, 0xff, 0, 0, 0x1d, 1, 7, 1, 8, 2, 5, 0]) conn =
     Inr (Long \<lparr>lh_PacketType = Handshake, lh_LowerBits = 0, lh_Version = 0xff00001d,
       lh_DestinationCID = [7], lh_SourceCID = [8], lh_TokenLength = zero_VarInt, lh_Token = [],
       lh_Length = \<lparr>vi_Value = 2, vi_Length = 1\<rparr>,
       lh_PacketNumber = Join \<lparr>tpn_Value = 5, tpn_Length = 1\<rparr> (c_LargestPNsReceived conn PNSpaceHandshake),
       lh_TruncatedPN = \<lparr>tpn_Value = 5, tpn_Length = 1\<rparr>\<rparr>,
       Reader [5, 2, 8, 1, 7, 1, 0x1d, 0, 0, 0xff, 0xE0] [0])"
proof
  fix conn
  let ?h = "\<lparr>lh_PacketType = Handshake, lh_LowerBits = 0, lh_Version = 0xff00001d,
       lh_DestinationCID = [7], lh_SourceCID = [8], lh_TokenLength = zero_VarInt, lh_Token = [],
       lh_Length = \<lparr>vi_Value = 2, vi_Length = 1\<rparr>, lh_PacketNumber = 5,
       lh_TruncatedPN = \<lparr>tpn_Value = 5, tpn_Length = 1\<rparr>\<rparr>"
  let ?b = "[0xE0, 0xff, 0, 0, 0x1d, 1, 7, 1, 8, 2, 5] :: bytes"
  have "Header_Encode (Long ?h) = Inr ?b"
    by (simp add: LongHeader_Encode_def typeByte_long_def PutUint32_def CIDL_def VarInt_Encode_def WriteVarInt_def
        EncodeVarInt_type TruncatedPN_Encode_def packet_types)
  moreover have "wf_header conn (Long ?h)"
    by (simp add: wf_long_def wf_VarInt_def VarIntLen_def maxVarInt1_def wf_TruncatedPN_def packet_types)
  ultimately show "ReadHeader (Reader [] [0xE0, 0xff, 0, 0, 0x1d, 1, 7, 1, 8, 2, 5, 0]) conn =
     Inr (Long \<lparr>lh_PacketType = Handshake, lh_LowerBits = 0, lh_Version = 0xff00001d,
       lh_DestinationCID = [7], lh_SourceCID = [8], lh_TokenLength = zero_VarInt, lh_Token = [],
       lh_Length = \<lparr>vi_Value = 2, vi_Length = 1\<rparr>,
       lh_PacketNumber = Join \<lparr>tpn_Value = 5, tpn_Length = 1\<rparr> (c_LargestPNsReceived conn PNSpaceHandshake),
       lh_TruncatedPN = \<lparr>tpn_Value = 5, tpn_Length = 1\<rparr>\<rparr>,
       Reader [5, 2, 8, 1, 7, 1, 0x1d, 0, 0, 0xff, 0xE0] [0])"
    using header_roundtrip [of "Long ?h" ?b conn "[]" "[0]"]
    by (simp add: received_long_def typeByte_long_def packet_types PacketType_PNSpace_def packetTypeToPNSPace_def
        go_lookup_def)
qed

end
