(* ===== verification/Packets.thy ===== *)
theory Packets
  imports Headers
begin

text \<open>
  Packets: \<^verbatim>\<open>packets.go\<close>.

  The methods of the interface \<^verbatim>\<open>Packet\<close> for the seven kinds of packets, the operations on the frames of a packet,
  padding, and the readers. The results: reading frames ends on every payload and recovers the frames that were
  written, with their data handed to the streams in order; padding ends and reaches the requested size, overshooting it by
  at most the growth of the length field; Retry and Stateless Reset packets that are too short panic; and the Version Negotiation
  writer does not produce what the reader expects.
\<close>

section \<open>Packets with frames\<close>

definition AddFrame :: "Frame \<Rightarrow> FramePacket \<Rightarrow> FramePacket" where
  "AddFrame frame p = p\<lparr>fp_Frames := fp_Frames p @ [frame]\<rparr>"

definition RemoveAtIndex :: "nat \<Rightarrow> FramePacket \<Rightarrow> FramePacket res" where
  "RemoveAtIndex i p =
     (if i < length (fp_Frames p)
      then Inr (p\<lparr>fp_Frames := take i (fp_Frames p) @ drop (i + 1) (fp_Frames p)\<rparr>) else Inl SliceBounds)"

definition GetRetransmittableFrames :: "FramePacket \<Rightarrow> Frame list" where
  "GetRetransmittableFrames p = filter shouldBeRetransmitted (fp_Frames p)"

definition Contains :: "FrameType \<Rightarrow> FramePacket \<Rightarrow> bool" where
  "Contains t p \<longleftrightarrow> (\<exists>f \<in> set (fp_Frames p). FrameType f = t)"

definition OnlyContains :: "FrameType \<Rightarrow> FramePacket \<Rightarrow> bool" where
  "OnlyContains t p \<longleftrightarrow> (\<forall>f \<in> set (fp_Frames p). FrameType f = t)"

definition GetFirst :: "FrameType \<Rightarrow> FramePacket \<Rightarrow> Frame option" where
  "GetFirst t p = find (\<lambda>f. FrameType f = t) (fp_Frames p)"

definition GetAll :: "FrameType \<Rightarrow> FramePacket \<Rightarrow> Frame list" where
  "GetAll t p = filter (\<lambda>f. FrameType f = t) (fp_Frames p)"

definition FramePacket_ShouldBeAcknowledged :: "FramePacket \<Rightarrow> bool" where
  "FramePacket_ShouldBeAcknowledged p \<longleftrightarrow>
     (\<exists>f \<in> set (fp_Frames p). FrameType f \<notin> {AckType, AckECNType, PaddingFrameType, ConnectionCloseType, ApplicationCloseType})"

definition FramePacket_EncodePayload :: "FramePacket \<Rightarrow> bytes res" where
  "FramePacket_EncodePayload p = cat_res (map WriteTo (fp_Frames p))"

text \<open>\<^verbatim>\<open>p.Encode(p.EncodePayload())\<close>.\<close>

definition FramePacket_Encode :: "FramePacket \<Rightarrow> bytes res" where
  "FramePacket_Encode p =
     bind_res (FramePacket_EncodePayload p) (\<lambda>payload.
     bind_res (Header_Encode (fp_Header p)) (\<lambda>h. Inr (h @ payload)))"

definition Initial_GetRetransmittableFrames :: "FramePacket \<Rightarrow> Frame list" where
  "Initial_GetRetransmittableFrames p =
     (let hasCrypto = Contains CryptoType p
      in filter (\<lambda>f. shouldBeRetransmitted f \<or> (hasCrypto \<and> FrameType f = PaddingFrameType)) (fp_Frames p))"

section \<open>Padding\<close>

text \<open>\<^verbatim>\<open>h.Length = NewVarInt(n)\<close> when the header is a long one.\<close>

fun set_Length :: "u64 \<Rightarrow> Header \<Rightarrow> Header res" where
  "set_Length n (Long h) = bind_res (NewVarInt n) (\<lambda>v. Inr (Long (h\<lparr>lh_Length := v\<rparr>)))"
| "set_Length n (Short h) = Inr (Short h)"

definition with_Length :: "u64 \<Rightarrow> FramePacket \<Rightarrow> FramePacket res" where
  "with_Length n p = bind_res (set_Length n (fp_Header p)) (\<lambda>h. Inr (p\<lparr>fp_Header := h\<rparr>))"

fun length_value :: "Header \<Rightarrow> u64" where
  "length_value (Long h) = vi_Value (lh_Length h)"
| "length_value (Short h) = 0"

text \<open>One round: a PADDING frame, and the length one larger.\<close>

definition pad_one :: "FramePacket \<Rightarrow> FramePacket res" where
  "pad_one p = with_Length (length_value (fp_Header p) + 1) (AddFrame PaddingFrame p)"

lemma EncodeVarInt_mono:
  assumes "EncodeVarInt i = Inr a" "EncodeVarInt (i + 1) = Inr b"
  shows "length a \<le> length b" "length b \<le> length a + 4"
proof -
  have "unat (i + 1) = unat i + 1"
    using EncodeVarInt_fits [OF assms(1)] unat_add_u64 [of i 1] by (simp add: fits62_def)
  then show "length a \<le> length b" "length b \<le> length a + 4"
    using assms by (auto simp: EncodeVarInt_def ranges split: if_splits)
qed

lemma set_Length_step:
  assumes "Header_Encode h = Inr a" "set_Length (length_value h + 1) h = Inr h'" "Header_Encode h' = Inr b"
  shows "length a \<le> length b \<and> length b \<le> length a + 4"
proof (cases h)
  case (Long l)
  then obtain v where v: "NewVarInt (vi_Value (lh_Length l) + 1) = Inr v" "h' = Long (l\<lparr>lh_Length := v\<rparr>)"
    using assms(2) by auto
  with assms(1,3) Long show ?thesis
    using EncodeVarInt_mono [of "vi_Value (lh_Length l)"] NewVarInt_wf [OF v(1)]
    by (fastforce simp: LongHeader_Encode_def VarInt_Encode_def WriteVarInt_def typeByte_long_def split: if_splits)
next
  case (Short s)
  then show ?thesis using assms by auto
qed

lemma pad_one_grows:
  assumes "FramePacket_Encode p = Inr a" "pad_one p = Inr p'" "FramePacket_Encode p' = Inr b"
  shows "length a < length b" "length b \<le> length a + 5"
proof -
  obtain x y where x: "FramePacket_EncodePayload p = Inr x" "Header_Encode (fp_Header p) = Inr y" "a = y @ x"
    using assms(1) by (auto simp: FramePacket_Encode_def)
  obtain h where h: "set_Length (length_value (fp_Header p) + 1) (fp_Header p) = Inr h"
    "p' = p\<lparr>fp_Frames := fp_Frames p @ [PaddingFrame], fp_Header := h\<rparr>"
    using assms(2) by (auto simp: pad_one_def with_Length_def AddFrame_def)
  have "FramePacket_EncodePayload p' = Inr (x @ [0])"
    using x(1) by (simp add: h(2) FramePacket_EncodePayload_def cat_res_append frame_types WriteVarInt_def
        EncodeVarInt_type)
  then obtain z where z: "Header_Encode h = Inr z" "b = z @ x @ [0]"
    using assms(3) h(2) by (auto simp: FramePacket_Encode_def)
  from set_Length_step [OF x(2) h(1) z(1)] x(3) z(2) show "length a < length b" "length b \<le> length a + 5"
    by auto
qed

text \<open>The loop: it ends because every round makes the packet longer.\<close>

function pad_loop :: "nat \<Rightarrow> FramePacket \<Rightarrow> FramePacket res" where
  "pad_loop len p =
     bind_res (FramePacket_Encode p) (\<lambda>cur.
     if length cur < len then bind_res (pad_one p) (\<lambda>p'. pad_loop len p') else Inr p)"
  by pat_completeness auto
termination
proof (relation "measure (\<lambda>(len, p). case FramePacket_Encode p of Inr b \<Rightarrow> Suc (len - length b) | Inl _ \<Rightarrow> 0)",
    goal_cases)
  case (2 len p cur p')
  then show ?case using pad_one_grows(1) [of p cur p'] by (auto split: sum.split)
qed simp

declare pad_loop.simps [simp del]

definition PadTo :: "nat \<Rightarrow> FramePacket \<Rightarrow> FramePacket res" where
  "PadTo len p =
     bind_res (FramePacket_EncodePayload p) (\<lambda>payload.
     bind_res (with_Length (of_nat (length payload)) p) (\<lambda>p.
     pad_loop len p))"

section \<open>Reading packets with frames\<close>

text \<open>\<^verbatim>\<open>conn.CryptoStreams.Get(space).addToRead(...)\<close> for a CRYPTO frame.\<close>

definition deliver_crypto :: "PNSpace \<Rightarrow> Frame \<Rightarrow> Connection \<Rightarrow> Connection res" where
  "deliver_crypto space f c =
     (case f of
        Crypto cf \<Rightarrow>
          (case CryptoStreams_Get space (c_CryptoStreams c) of (s, m) \<Rightarrow>
           bind_res (addToRead \<lparr>sf_FinBit = False, sf_LenBit = False, sf_OffBit = False, sf_StreamId = 0,
               sf_Offset = cf_Offset cf, sf_Length = cf_Length cf, sf_StreamData = cf_CryptoData cf\<rparr> s)
             (\<lambda>s. Inr (c\<lparr>c_CryptoStreams := m(space \<mapsto> s)\<rparr>)))
      | _ \<Rightarrow> Inr c)"

text \<open>The loop over the frames of a payload; an unknown frame is a panic with the error.\<close>

function read_frames :: "PNSpace \<Rightarrow> reader \<Rightarrow> Connection \<Rightarrow> (Frame list \<times> reader \<times> Connection) res" where
  "read_frames space r c =
     bind_res (NewFrame r (c_Streams c)) (\<lambda>x.
     case x of
       (Inl e, r', S) \<Rightarrow> Inl (PanicError e)
     | (Inr None, r', S) \<Rightarrow> Inr ([], r', c\<lparr>c_Streams := S\<rparr>)
     | (Inr (Some f), r', S) \<Rightarrow>
         bind_res (deliver_crypto space f (c\<lparr>c_Streams := S\<rparr>)) (\<lambda>c'.
         bind_res (read_frames space r' c') (\<lambda>(fs, r'', c'').
         Inr (f # fs, r'', c''))))"
  by pat_completeness auto
termination
  by (relation "measure (\<lambda>(_, r, _). length (rd_rest r))") (auto dest: NewFrame_less)

declare read_frames.simps [simp del]

definition new_FramePacket :: "Header \<Rightarrow> Frame list \<Rightarrow> FramePacket" where
  "new_FramePacket h fs = \<lparr>receiveContext = zero_PacketContext, sendContext = zero_PacketContext,
     fp_Header = h, fp_Frames = fs\<rparr>"

definition ReadInitialPacket :: "reader \<Rightarrow> Connection \<Rightarrow> (FramePacket \<times> Connection) res" where
  "ReadInitialPacket r conn =
     bind_res (ReadLongHeader r conn) (\<lambda>(h, r).
     bind_res (read_frames PNSpaceInitial r conn) (\<lambda>(fs, r, conn).
     Inr (new_FramePacket (Long h) fs, conn)))"

definition ReadHandshakePacket :: "reader \<Rightarrow> Connection \<Rightarrow> (FramePacket \<times> Connection) res" where
  "ReadHandshakePacket r conn =
     bind_res (ReadLongHeader r conn) (\<lambda>(h, r).
     bind_res (read_frames PNSpaceHandshake r conn) (\<lambda>(fs, r, conn).
     Inr (new_FramePacket (Long h) fs, conn)))"

definition ReadProtectedPacket :: "reader \<Rightarrow> Connection \<Rightarrow> (FramePacket \<times> Connection) res" where
  "ReadProtectedPacket r conn =
     bind_res (ReadHeader r conn) (\<lambda>(h, r).
     bind_res (read_frames PNSpaceAppData r conn) (\<lambda>(fs, r, conn).
     Inr (new_FramePacket h fs, conn)))"

section \<open>Fresh packets with frames\<close>

definition NewInitialPacket :: "Connection \<Rightarrow> (FramePacket \<times> Connection) res" where
  "NewInitialPacket conn =
     bind_res (NewLongHeader Initial conn PNSpaceInitial) (\<lambda>(h, conn).
     if length (c_Token conn) > 0 then
       bind_res (NewVarInt (of_nat (length (c_Token conn)))) (\<lambda>v.
       Inr (new_FramePacket (Long (h\<lparr>lh_Token := c_Token conn, lh_TokenLength := v\<rparr>)) [], conn))
     else Inr (new_FramePacket (Long h) [], conn))"

definition NewHandshakePacket :: "Connection \<Rightarrow> (FramePacket \<times> Connection) res" where
  "NewHandshakePacket conn =
     bind_res (NewLongHeader Handshake conn PNSpaceHandshake) (\<lambda>(h, conn). Inr (new_FramePacket (Long h) [], conn))"

definition NewProtectedPacket :: "Connection \<Rightarrow> (FramePacket \<times> Connection) res" where
  "NewProtectedPacket conn = bind_res (NewShortHeader conn) (\<lambda>(h, conn). Inr (new_FramePacket (Short h) [], conn))"

definition NewZeroRTTProtectedPacket :: "Connection \<Rightarrow> (FramePacket \<times> Connection) res" where
  "NewZeroRTTProtectedPacket conn =
     bind_res (NewLongHeader ZeroRTTProtected conn PNSpaceAppData) (\<lambda>(h, conn).
     Inr (new_FramePacket (Long h) [], conn))"

section \<open>The other packets\<close>

definition VersionNegotiationPacket_EncodePayload :: "VersionNegotiationPacket \<Rightarrow> bytes" where
  "VersionNegotiationPacket_EncodePayload p =
     [vn_UnusedField p AND 0x80] @ PutUint32 (vn_Version p) @
     [push_bit 4 (CIDL (vn_DestinationCID p)) OR CIDL (vn_SourceCID p)] @
     vn_DestinationCID p @ vn_SourceCID p @ concat (map PutUint32 (vn_SupportedVersions p))"

text \<open>The loop over the versions: groups of four bytes, until less than four are left.\<close>

lemma ReadFull_less:
  "ReadFull (Suc n) r = (Inr b, r') \<Longrightarrow> length (rd_rest r') < length (rd_rest r)"
  by (cases r) (auto simp: ReadFull_def split: if_splits)

function read_versions :: "reader \<Rightarrow> u32 list \<times> reader" where
  "read_versions r =
     (case ReadFull 4 r of
        (Inl e, r') \<Rightarrow> ([], r')
      | (Inr b, r') \<Rightarrow> (case read_versions r' of (vs, r'') \<Rightarrow> (BE_Uint32 b # vs, r'')))"
  by pat_completeness auto
termination
  by (relation "measure (\<lambda>r. length (rd_rest r))")
    (auto simp: eval_nat_numeral intro: ReadFull_less [OF sym])

declare read_versions.simps [simp del]

definition ReadVersionNegotationPacket :: "reader \<Rightarrow> VersionNegotiationPacket res" where
  "ReadVersionNegotationPacket r =
     (case ReadByte r of
        (Inl e, r) \<Rightarrow> Inl (PanicError e)
      | (Inr b, r) \<Rightarrow>
          (case rd_u32 r of (version, r) \<Rightarrow>
           case rd_cid r of (dcid, r) \<Rightarrow>
           case rd_cid r of (scid, r) \<Rightarrow>
           case read_versions r of (vs, r) \<Rightarrow>
           Inr \<lparr>receiveContext = zero_PacketContext, sendContext = zero_PacketContext,
                vn_UnusedField = b AND 0x7f, vn_Version = version, vn_DestinationCID = dcid,
                vn_SourceCID = scid, vn_SupportedVersions = vs\<rparr>))"

definition NewVersionNegotiationPacket :: "u8 \<Rightarrow> u32 \<Rightarrow> u32 list \<Rightarrow> Connection \<Rightarrow> VersionNegotiationPacket" where
  "NewVersionNegotiationPacket unusedField version versions conn =
     \<lparr>receiveContext = zero_PacketContext, sendContext = zero_PacketContext,
      vn_UnusedField = unusedField, vn_Version = version, vn_DestinationCID = c_DestinationCID conn,
      vn_SourceCID = c_SourceCID conn, vn_SupportedVersions = versions\<rparr>"

text \<open>\<^verbatim>\<open>make([]byte, buffer.Len() - 16)\<close>: a negative length is a panic.\<close>

definition make_but_16 :: "reader \<Rightarrow> bytes res" where
  "make_but_16 r = (if rd_Len r < 16 then Inl MakeSliceLen else make_bytes (rd_Len r - 16))"

definition ReadRetryPacket :: "reader \<Rightarrow> Connection \<Rightarrow> RetryPacket res" where
  "ReadRetryPacket r conn =
     bind_res (ReadLongHeader r conn) (\<lambda>(h, r).
     bind_res (make_but_16 r) (\<lambda>token.
     case rd_Read token r of (_, _, token, r) \<Rightarrow>
     case rd_array 16 r of (tag, r) \<Rightarrow>
     Inr \<lparr>receiveContext = zero_PacketContext, sendContext = zero_PacketContext,
          rt_Header = h, rt_RetryToken = token, rt_RetryIntegrityTag = tag\<rparr>))"

definition RetryPacket_EncodePayload :: "RetryPacket \<Rightarrow> bytes" where
  "RetryPacket_EncodePayload p = rt_RetryToken p @ rt_RetryIntegrityTag p"

definition ReadStatelessResetPacket :: "reader \<Rightarrow> StatelessResetPacket res" where
  "ReadStatelessResetPacket r =
     bind_res (make_but_16 r) (\<lambda>bits.
     case rd_Read bits r of (_, _, bits, r) \<Rightarrow>
     case rd_array 16 r of (token, r) \<Rightarrow>
     Inr \<lparr>receiveContext = zero_PacketContext, sendContext = zero_PacketContext,
          sr_UnpredictableBits = bits, sr_StatelessResetToken = token\<rparr>)"

section \<open>The interface \<^verbatim>\<open>Packet\<close>\<close>

text \<open>The packets with frames are the ones that implement \<^verbatim>\<open>Framer\<close>.\<close>

fun framer :: "Packet \<Rightarrow> FramePacket option" where
  "framer (InitialP p) = Some p"
| "framer (HandshakeP p) = Some p"
| "framer (ProtectedP p) = Some p"
| "framer (ZeroRTTP p) = Some p"
| "framer _ = None"

fun set_framer :: "FramePacket \<Rightarrow> Packet \<Rightarrow> Packet" where
  "set_framer q (InitialP p) = InitialP q"
| "set_framer q (HandshakeP p) = HandshakeP q"
| "set_framer q (ProtectedP p) = ProtectedP q"
| "set_framer q (ZeroRTTP p) = ZeroRTTP q"
| "set_framer q p = p"

fun GetHeader :: "Packet \<Rightarrow> Header option" where
  "GetHeader (RetryP p) = Some (Long (rt_Header p))"
| "GetHeader p = map_option fp_Header (framer p)"

fun Packet_PNSpace :: "Packet \<Rightarrow> PNSpace" where
  "Packet_PNSpace (VersionNegotiationP _) = PNSpaceNoSpace"
| "Packet_PNSpace (InitialP _) = PNSpaceInitial"
| "Packet_PNSpace (RetryP _) = PNSpaceNoSpace"
| "Packet_PNSpace (HandshakeP _) = PNSpaceHandshake"
| "Packet_PNSpace (ProtectedP _) = PNSpaceAppData"
| "Packet_PNSpace (ZeroRTTP _) = PNSpaceAppData"
| "Packet_PNSpace (StatelessResetP _) = PNSpaceNoSpace"

fun Packet_EncryptionLevel :: "Packet \<Rightarrow> EncryptionLevel" where
  "Packet_EncryptionLevel (VersionNegotiationP _) = EncryptionLevelNone"
| "Packet_EncryptionLevel (InitialP _) = EncryptionLevelInitial"
| "Packet_EncryptionLevel (RetryP _) = EncryptionLevelNone"
| "Packet_EncryptionLevel (HandshakeP _) = EncryptionLevelHandshake"
| "Packet_EncryptionLevel (ProtectedP _) = EncryptionLevel1RTT"
| "Packet_EncryptionLevel (ZeroRTTP _) = EncryptionLevel0RTT"
| "Packet_EncryptionLevel (StatelessResetP _) = EncryptionLevelNone"

fun ShouldBeAcknowledged :: "Packet \<Rightarrow> bool" where
  "ShouldBeAcknowledged p = (case framer p of Some q \<Rightarrow> FramePacket_ShouldBeAcknowledged q | None \<Rightarrow> False)"

fun EncodePayload :: "Packet \<Rightarrow> bytes res" where
  "EncodePayload (VersionNegotiationP p) = Inr (VersionNegotiationPacket_EncodePayload p)"
| "EncodePayload (RetryP p) = Inr (RetryPacket_EncodePayload p)"
| "EncodePayload (StatelessResetP p) = Inr []"
| "EncodePayload p = (case framer p of Some q \<Rightarrow> FramePacket_EncodePayload q | None \<Rightarrow> Inr [])"

text \<open>\<^verbatim>\<open>AbstractPacket.EncodeHeader\<close> follows the pointer \<^verbatim>\<open>Header\<close>.\<close>

definition EncodeHeader :: "Packet \<Rightarrow> bytes res" where
  "EncodeHeader p = (case GetHeader p of None \<Rightarrow> Inl NilPointer | Some h \<Rightarrow> Header_Encode h)"

definition Packet_Encode :: "Packet \<Rightarrow> bytes \<Rightarrow> bytes res" where
  "Packet_Encode p payload = bind_res (EncodeHeader p) (\<lambda>h. Inr (h @ payload))"

definition ShortString :: "Packet \<Rightarrow> string res" where
  "ShortString p = (case GetHeader p of None \<Rightarrow> Inl NilPointer | Some h \<Rightarrow>
     Inr (''{type='' @ PacketType_String (GetPacketType h) @ '', number='' @
          decimal (unat (GetPacketNumber h)) @ ''}''))"

fun Packet_GetRetransmittableFrames :: "Packet \<Rightarrow> Frame list" where
  "Packet_GetRetransmittableFrames (InitialP p) = Initial_GetRetransmittableFrames p"
| "Packet_GetRetransmittableFrames p = (case framer p of Some q \<Rightarrow> GetRetransmittableFrames q | None \<Rightarrow> [])"

fun ReceiveContext :: "Packet \<Rightarrow> PacketContext" where
  "ReceiveContext (VersionNegotiationP p) = receiveContext p"
| "ReceiveContext (InitialP p) = receiveContext p"
| "ReceiveContext (RetryP p) = receiveContext p"
| "ReceiveContext (HandshakeP p) = receiveContext p"
| "ReceiveContext (ProtectedP p) = receiveContext p"
| "ReceiveContext (ZeroRTTP p) = receiveContext p"
| "ReceiveContext (StatelessResetP p) = receiveContext p"

fun SetReceiveContext :: "PacketContext \<Rightarrow> Packet \<Rightarrow> Packet" where
  "SetReceiveContext x (VersionNegotiationP p) = VersionNegotiationP (p\<lparr>receiveContext := x\<rparr>)"
| "SetReceiveContext x (InitialP p) = InitialP (p\<lparr>receiveContext := x\<rparr>)"
| "SetReceiveContext x (RetryP p) = RetryP (p\<lparr>receiveContext := x\<rparr>)"
| "SetReceiveContext x (HandshakeP p) = HandshakeP (p\<lparr>receiveContext := x\<rparr>)"
| "SetReceiveContext x (ProtectedP p) = ProtectedP (p\<lparr>receiveContext := x\<rparr>)"
| "SetReceiveContext x (ZeroRTTP p) = ZeroRTTP (p\<lparr>receiveContext := x\<rparr>)"
| "SetReceiveContext x (StatelessResetP p) = StatelessResetP (p\<lparr>receiveContext := x\<rparr>)"

fun SetSendContext :: "PacketContext \<Rightarrow> Packet \<Rightarrow> Packet" where
  "SetSendContext x (VersionNegotiationP p) = VersionNegotiationP (p\<lparr>sendContext := x\<rparr>)"
| "SetSendContext x (InitialP p) = InitialP (p\<lparr>sendContext := x\<rparr>)"
| "SetSendContext x (RetryP p) = RetryP (p\<lparr>sendContext := x\<rparr>)"
| "SetSendContext x (HandshakeP p) = HandshakeP (p\<lparr>sendContext := x\<rparr>)"
| "SetSendContext x (ProtectedP p) = ProtectedP (p\<lparr>sendContext := x\<rparr>)"
| "SetSendContext x (ZeroRTTP p) = ZeroRTTP (p\<lparr>sendContext := x\<rparr>)"
| "SetSendContext x (StatelessResetP p) = StatelessResetP (p\<lparr>sendContext := x\<rparr>)"

section \<open>Padding reaches the size\<close>

text \<open>\<open>padded p q\<close>: \<open>q\<close> is \<open>p\<close> with PADDING frames behind its frames and another length.\<close>

definition padded :: "FramePacket \<Rightarrow> FramePacket \<Rightarrow> bool" where
  "padded p q \<longleftrightarrow> (\<exists>n. fp_Frames q = fp_Frames p @ replicate n PaddingFrame) \<and>
     GetPacketNumber (fp_Header q) = GetPacketNumber (fp_Header p) \<and>
     GetPacketType (fp_Header q) = GetPacketType (fp_Header p) \<and>
     GetTruncatedPN (fp_Header q) = GetTruncatedPN (fp_Header p)"

lemma padded_refl [simp]: "padded p p"
  by (auto simp: padded_def intro: exI [of _ 0])

lemma replicate_more: "(xs @ replicate n x) @ replicate m x = xs @ replicate (n + m) x"
  by (simp add: replicate_add)

lemma padded_trans: "padded p q \<Longrightarrow> padded q r \<Longrightarrow> padded p r"
  unfolding padded_def by (metis replicate_more)

lemma set_Length_same:
  "set_Length n h = Inr h' \<Longrightarrow> GetPacketNumber h' = GetPacketNumber h \<and>
    GetPacketType h' = GetPacketType h \<and> GetTruncatedPN h' = GetTruncatedPN h"
  by (cases h) auto

lemma padded_with_Length: "with_Length n p = Inr q \<Longrightarrow> padded p q"
  using set_Length_same by (auto simp: with_Length_def padded_def intro: exI [of _ 0])

lemma padded_AddFrame: "padded p (AddFrame PaddingFrame p)"
  by (auto simp: padded_def AddFrame_def intro: exI [of _ 1])

lemma padded_pad_one: "pad_one p = Inr q \<Longrightarrow> padded p q"
  using padded_with_Length [of _ "AddFrame PaddingFrame p" q] padded_trans [OF padded_AddFrame]
  by (simp add: pad_one_def)

lemma pad_loop_padded: "pad_loop len p = Inr q \<Longrightarrow> padded p q"
proof (induction len p rule: pad_loop.induct)
  case (1 len p)
  show ?case
  proof (cases "p = q")
    case False
    with 1(2) obtain a p' where p': "FramePacket_Encode p = Inr a" "length a < len" "pad_one p = Inr p'"
      "pad_loop len p' = Inr q"
      by (auto simp: pad_loop.simps [of len p] split: if_splits)
    show ?thesis
      by (rule padded_trans [OF padded_pad_one [OF p'(3)] 1(1) [OF p']])
  qed simp
qed

lemma pad_loop_size:
  assumes "pad_loop len p = Inr q" "FramePacket_Encode p = Inr a"
  shows "\<exists>b. FramePacket_Encode q = Inr b \<and> len \<le> length b \<and> length b \<le> max (length a) (len + 4)"
  using assms
proof (induction len p arbitrary: a rule: pad_loop.induct)
  case (1 len p)
  show ?case
  proof (cases "length a < len")
    case False
    with 1 show ?thesis by (simp add: pad_loop.simps [of len p])
  next
    case True
    with 1 obtain p' where p': "pad_one p = Inr p'" "pad_loop len p' = Inr q"
      by (auto simp: pad_loop.simps [of len p])
    then obtain a' where a': "FramePacket_Encode p' = Inr a'"
      by (auto simp: pad_loop.simps [of len p'])
    from pad_one_grows [OF 1(3) p'(1) a'] 1(1) [OF 1(3) True p'(1) p'(2) a'] True
    show ?thesis by fastforce
  qed
qed

section \<open>Reading the frames that were written\<close>

lemma wf_frame_rest: "(t = []) = (t' = []) \<Longrightarrow> wf_frame t f = wf_frame t' f"
  by (cases f) auto

text \<open>Well-formed frames, where only the last may be a STREAM frame without a length.\<close>

fun frames_ok :: "Frame list \<Rightarrow> bool" where
  "frames_ok [] \<longleftrightarrow> True"
| "frames_ok (f # fs) \<longleftrightarrow> wf_frame (if fs = [] then [] else [0]) f \<and> frames_ok fs"

text \<open>What the frames of a packet do to the connection, in order.\<close>

fun receive_frames :: "PNSpace \<Rightarrow> Frame list \<Rightarrow> Connection \<Rightarrow> Connection res" where
  "receive_frames space [] c = Inr c"
| "receive_frames space (f # fs) c =
     bind_res (frame_effect f (c_Streams c)) (\<lambda>S.
     bind_res (deliver_crypto space f (c\<lparr>c_Streams := S\<rparr>)) (\<lambda>c.
     receive_frames space fs c))"

lemma EncodeVarInt_nonempty: "EncodeVarInt x \<noteq> Inr []"
  by (simp add: EncodeVarInt_def)

lemma vars_nonempty: "cat_res (vars (x # xs) @ rest) \<noteq> Inr []" "cat_res (vars (x # xs)) \<noteq> Inr []"
  using vars_written [of x xs rest "[]"] vars_written [of x xs "[]" "[]"] EncodeVarInt_nonempty by auto

lemma WriteTo_nonempty: "WriteTo f \<noteq> Inr []"
  by (cases f) (simp_all add: frame_writers AckFrame_WriteTo_def AckECNFrame_WriteTo_def StreamFrame_WriteTo_def
      vars_nonempty WriteVarInt_def EncodeVarInt_nonempty)

lemma read_frames_written:
  "cat_res (map WriteTo fs) = Inr b \<Longrightarrow> frames_ok fs \<Longrightarrow>
   read_frames space (Reader d b) c =
     bind_res (receive_frames space fs c) (\<lambda>c'. Inr (fs, Reader (rev b @ d) [], c'))"
proof (induction fs arbitrary: b d c)
  case Nil
  then show ?case by (simp add: read_frames.simps NewFrame_def)
next
  case (Cons f fs)
  obtain x y where e: "WriteTo f = Inr x" "cat_res (map WriteTo fs) = Inr y" "b = x @ y"
    using Cons.prems(1) by auto
  have "(y = []) = (fs = [])"
    using e(2) WriteTo_nonempty by (cases fs) auto
  then have "wf_frame y f" using Cons.prems(2) wf_frame_rest [of y "if fs = [] then [] else [0]" f] by auto
  note r = NewFrame_written [OF e(1) this, of d "c_Streams c"]
  show ?case
    using Cons.IH [OF e(2), of "rev x @ d"] Cons.prems(2)
    by (simp add: read_frames.simps [of space "Reader d (x @ y)"] e(3) r bind_res_assoc)
qed

lemma packet_read:
  assumes "FramePacket_Encode p = Inr b" "wf_header conn (fp_Header p)" "frames_ok (fp_Frames p)"
  shows "ReadProtectedPacket (NewReader b) conn =
      bind_res (receive_frames PNSpaceAppData (fp_Frames p) conn)
        (\<lambda>c. Inr (new_FramePacket (received_header conn (fp_Header p)) (fp_Frames p), c)) \<and>
    (\<forall>h. fp_Header p = Long h \<longrightarrow>
      ReadInitialPacket (NewReader b) conn =
        bind_res (receive_frames PNSpaceInitial (fp_Frames p) conn)
          (\<lambda>c. Inr (new_FramePacket (Long (received_long conn h)) (fp_Frames p), c)) \<and>
      ReadHandshakePacket (NewReader b) conn =
        bind_res (receive_frames PNSpaceHandshake (fp_Frames p) conn)
          (\<lambda>c. Inr (new_FramePacket (Long (received_long conn h)) (fp_Frames p), c)))"
proof -
  obtain x y where x: "cat_res (map WriteTo (fp_Frames p)) = Inr x" "Header_Encode (fp_Header p) = Inr y" "b = y @ x"
    using assms(1) by (auto simp: FramePacket_Encode_def FramePacket_EncodePayload_def)
  note fs = read_frames_written [OF x(1) assms(3)]
  have "LongHeader_Encode h = Inr y" "wf_long h" if "fp_Header p = Long h" for h
    using x(2) assms(2) that by auto
  from ReadLongHeader_written [OF this] show ?thesis
    by (simp add: ReadProtectedPacket_def ReadInitialPacket_def ReadHandshakePacket_def NewReader_def x(3)
        ReadHeader_written [OF x(2) assms(2)] fs bind_res_assoc)
qed

section \<open>Padding does not panic\<close>

lemma set_Length_total:
  assumes "Header_Encode h = Inr a" "fits62 n"
  shows "\<exists>h' b. set_Length n h = Inr h' \<and> Header_Encode h' = Inr b \<and>
    (\<forall>l. h = Long l \<longrightarrow> length_value h' = n)"
proof (cases h)
  case (Long l)
  obtain v where v: "NewVarInt n = Inr v"
    using assms(2) EncodeVarInt_total VarIntLen_EncodeVarInt by (fastforce simp: NewVarInt_def)
  then have "\<exists>b. LongHeader_Encode (l\<lparr>lh_Length := v\<rparr>) = Inr b"
    using assms(1) Long EncodeVarInt_total [OF assms(2)] NewVarInt_wf [OF v]
    by (auto simp: LongHeader_Encode_def VarInt_Encode_def WriteVarInt_def)
  with v Long show ?thesis using NewVarInt_wf [OF v] by auto
qed (use assms in auto)

lemma payload_Padding:
  "FramePacket_EncodePayload p = Inr x \<Longrightarrow>
   FramePacket_EncodePayload (p\<lparr>fp_Frames := fp_Frames p @ [PaddingFrame], fp_Header := h\<rparr>) = Inr (x @ [0])"
  by (simp add: FramePacket_EncodePayload_def cat_res_append frame_types WriteVarInt_def EncodeVarInt_type)

text \<open>\<open>counted p\<close>: the length field of a long header is the size of the payload.\<close>

definition counted :: "FramePacket \<Rightarrow> bytes \<Rightarrow> bool" where
  "counted p x \<longleftrightarrow> FramePacket_EncodePayload p = Inr x \<and>
     (\<forall>l. fp_Header p = Long l \<longrightarrow> length_value (fp_Header p) = of_nat (length x))"

lemma pad_one_total:
  assumes "counted p x" "FramePacket_Encode p = Inr a" "length x + 1 < 2 ^ 62"
  shows "\<exists>q b. pad_one p = Inr q \<and> counted q (x @ [0]) \<and> FramePacket_Encode q = Inr b"
proof -
  let ?n = "length_value (fp_Header p) + 1"
  have x: "FramePacket_EncodePayload p = Inr x" using assms(1) by (simp add: counted_def)
  obtain y where y: "Header_Encode (fp_Header p) = Inr y"
    using assms(2) by (auto simp: FramePacket_Encode_def)
  have n: "(\<forall>l. fp_Header p = Long l \<longrightarrow> ?n = of_nat (length x + 1))"
    using assms(1) by (auto simp: counted_def)
  have "\<exists>h z. set_Length ?n (fp_Header p) = Inr h \<and> Header_Encode h = Inr z \<and>
      (\<forall>l. h = Long l \<longrightarrow> length_value h = of_nat (length x + 1))"
  proof (cases "fp_Header p")
    case (Long l)
    have "?n = of_nat (length x + 1)" using n Long by blast
    moreover have "fits62 (of_nat (length x + 1))" using assms(3) by (intro fits62_of_nat) simp
    ultimately have "fits62 ?n" by metis
    from set_Length_total [OF y this] n Long show ?thesis by metis
  qed (use y in simp)
  then obtain h z where h: "set_Length ?n (fp_Header p) = Inr h" "Header_Encode h = Inr z"
      "\<forall>l. h = Long l \<longrightarrow> length_value h = of_nat (length x + 1)" by metis
  let ?q = "p\<lparr>fp_Frames := fp_Frames p @ [PaddingFrame], fp_Header := h\<rparr>"
  have "pad_one p = Inr ?q" using h(1) by (simp add: pad_one_def with_Length_def AddFrame_def)
  moreover have "counted ?q (x @ [0])" using payload_Padding [OF x, of h] h(3) by (simp add: counted_def)
  moreover have "FramePacket_Encode ?q = Inr (z @ x @ [0])"
    using payload_Padding [OF x, of h] h(2) by (simp add: FramePacket_Encode_def)
  ultimately show ?thesis by metis
qed

lemma pad_loop_total:
  assumes "counted p x" "FramePacket_Encode p = Inr a" "len < 2 ^ 62"
  shows "\<exists>q. pad_loop len p = Inr q"
  using assms
proof (induction len p arbitrary: x a rule: pad_loop.induct)
  case (1 len p)
  show ?case
  proof (cases "length a < len")
    case True
    have "length x \<le> length a" using 1(2,3) by (auto simp: FramePacket_Encode_def counted_def)
    with True 1(4) have "length x + 1 < 2 ^ 62" by linarith
    from pad_one_total [OF 1(2,3) this] obtain q b where q: "pad_one p = Inr q" "counted q (x @ [0])"
      "FramePacket_Encode q = Inr b" by metis
    from 1(1) [OF 1(3) True q(1) q(2,3) 1(4)] show ?thesis
      using 1(3) True q(1) by (simp add: pad_loop.simps [of len p])
  qed (use 1 in \<open>simp add: pad_loop.simps [of len p]\<close>)
qed

lemma PadTo_total:
  assumes "FramePacket_Encode p = Inr a" "len < 2 ^ 62" "length a < 2 ^ 62"
  shows "\<exists>q. PadTo len p = Inr q"
proof -
  obtain x y where x: "FramePacket_EncodePayload p = Inr x" "Header_Encode (fp_Header p) = Inr y" "a = y @ x"
    using assms(1) by (auto simp: FramePacket_Encode_def)
  have "fits62 (of_nat (length x))" using assms(3) x(3) by (intro fits62_of_nat) simp
  from set_Length_total [OF x(2) this] obtain h z where
    h: "set_Length (of_nat (length x)) (fp_Header p) = Inr h" "Header_Encode h = Inr z"
      "\<forall>l. fp_Header p = Long l \<longrightarrow> length_value h = of_nat (length x)" by metis
  let ?q = "p\<lparr>fp_Header := h\<rparr>"
  have pay: "FramePacket_EncodePayload ?q = Inr x" using x(1) by (simp add: FramePacket_EncodePayload_def)
  have "\<forall>l. h = Long l \<longrightarrow> length_value h = of_nat (length x)"
    using h(1,3) by (cases "fp_Header p") auto
  then have "counted ?q x" using pay by (simp add: counted_def)
  moreover have "FramePacket_Encode ?q = Inr (z @ x)" using pay h(2) by (simp add: FramePacket_Encode_def)
  ultimately obtain r where "pad_loop len ?q = Inr r" using pad_loop_total assms(2) by metis
  then show ?thesis using x(1) h(1) by (simp add: PadTo_def with_Length_def)
qed

lemma Header_Encode_set_Length:
  assumes "Header_Encode h = Inr a" "set_Length n h = Inr h'" "Header_Encode h' = Inr b"
  shows "length b \<le> length a + 7"
proof (cases h)
  case (Long l)
  then obtain v where v: "NewVarInt n = Inr v" "h' = Long (l\<lparr>lh_Length := v\<rparr>)" using assms(2) by auto
  have "length y \<le> length x + 7" if "VarInt_Encode (lh_Length l) = Inr x" "VarInt_Encode v = Inr y" for x y
    using that VarIntLen_bounds [of "vi_Value v"] VarIntLen_EncodeVarInt [of "vi_Value v" y]
      EncodeVarInt_nonempty [of "vi_Value (lh_Length l)"]
    by (cases x) (auto simp: VarInt_Encode_def WriteVarInt_def)
  then show ?thesis
    using assms(1,3) Long v(2)
    by (fastforce simp: LongHeader_Encode_def typeByte_long_def split: if_splits)
qed (use assms in auto)

lemma with_Length_size:
  assumes "FramePacket_Encode p = Inr a" "with_Length n p = Inr q" "FramePacket_Encode q = Inr b"
  shows "length b \<le> length a + 7"
proof -
  obtain h where h: "set_Length n (fp_Header p) = Inr h" "q = p\<lparr>fp_Header := h\<rparr>"
    using assms(2) by (auto simp: with_Length_def)
  then show ?thesis
    using assms(1,3) Header_Encode_set_Length [OF _ h(1)]
    by (auto simp: FramePacket_Encode_def FramePacket_EncodePayload_def)
qed

lemma PadTo_spec:
  assumes "FramePacket_Encode p = Inr a" "len < 2 ^ 62" "length a < 2 ^ 62"
  shows "\<exists>q b. PadTo len p = Inr q \<and> FramePacket_Encode q = Inr b \<and> padded p q \<and>
    len \<le> length b \<and> length b \<le> max (length a + 7) (len + 4)"
proof -
  obtain q where q: "PadTo len p = Inr q" using PadTo_total [OF assms] ..
  then obtain x p' where p': "FramePacket_EncodePayload p = Inr x" "with_Length (of_nat (length x)) p = Inr p'"
    "pad_loop len p' = Inr q"
    by (auto simp: PadTo_def)
  obtain a' where a': "FramePacket_Encode p' = Inr a'"
    using p'(3) by (auto simp: pad_loop.simps [of len p'])
  have "length a' \<le> length a + 7" by (rule with_Length_size [OF assms(1) p'(2) a'])
  moreover have "padded p q"
    using padded_trans [OF padded_with_Length [OF p'(2)] pad_loop_padded [OF p'(3)]] .
  ultimately show ?thesis using q pad_loop_size [OF p'(3) a'] by fastforce
qed

section \<open>Version Negotiation, Retry and Stateless Reset\<close>

lemma read_versions_written:
  "length rest < 4 \<Longrightarrow>
   read_versions (Reader d (concat (map PutUint32 vs) @ rest)) =
     (vs, Reader (rev (concat (map PutUint32 vs) @ rest) @ d) [])"
proof (induction vs arbitrary: d)
  case Nil
  then show ?case by (simp add: read_versions.simps ReadFull_def)
next
  case (Cons v vs)
  have "ReadFull 4 (Reader d (PutUint32 v @ concat (map PutUint32 vs) @ rest)) =
      (Inr (PutUint32 v), Reader (rev (PutUint32 v) @ d) (concat (map PutUint32 vs) @ rest))"
    by (intro ReadFull_append) simp
  then show ?case
    using Cons by (simp add: read_versions.simps [of "Reader d (PutUint32 v @ t)" for t])
qed

lemma make_but_16_Reader:
  "make_but_16 (Reader d t) =
    (if length t < 16 \<or> maxAlloc + 16 < length t then Inl MakeSliceLen else Inr (replicate (length t - 16) 0))"
  by (auto simp: make_but_16_def make_bytes_def)

lemma rd_Read_split:
  "16 \<le> length t \<Longrightarrow> rd_Read (replicate (length t - 16) 0) (Reader d t) =
    (length t - 16, None, take (length t - 16) t, Reader (rev (take (length t - 16) t) @ d) (drop (length t - 16) t))"
  by (auto simp: rd_Read_def copy_bytes_def min_def Let_def)

lemma rd_array_rest: "length t = 16 \<Longrightarrow> rd_array 16 (Reader d t) = (t, Reader (rev t @ d) [])"
  using rd_array_append [of t 16 d "[]"] by simp

section \<open>Properties\<close>

text \<open>
  C27. A packet with well-formed frames that is written is read back with the same frames: all readers of packets recover the header
  (as the receiver completes it) and every frame in order, and the only effects are that the data of STREAM frames reaches the
  streams and that of CRYPTO frames the crypto stream of the packet's number space.
\<close>

theorem packet_roundtrip:
  assumes "FramePacket_Encode p = Inr b" "wf_header conn (fp_Header p)" "frames_ok (fp_Frames p)"
  shows "ReadProtectedPacket (NewReader b) conn =
      bind_res (receive_frames PNSpaceAppData (fp_Frames p) conn)
        (\<lambda>c. Inr (new_FramePacket (received_header conn (fp_Header p)) (fp_Frames p), c)) \<and>
    (\<forall>h. fp_Header p = Long h \<longrightarrow>
      ReadInitialPacket (NewReader b) conn =
        bind_res (receive_frames PNSpaceInitial (fp_Frames p) conn)
          (\<lambda>c. Inr (new_FramePacket (Long (received_long conn h)) (fp_Frames p), c)) \<and>
      ReadHandshakePacket (NewReader b) conn =
        bind_res (receive_frames PNSpaceHandshake (fp_Frames p) conn)
          (\<lambda>c. Inr (new_FramePacket (Long (received_long conn h)) (fp_Frames p), c)))"
  by (rule packet_read [OF assms])

lemma packet_roundtrip_witness:
  "\<forall>conn. ReadHandshakePacket (NewReader [0xE0, 0xff, 0, 0, 0x1d, 1, 7, 1, 8, 3, 5, 0x01, 0x1e]) conn =
     Inr (new_FramePacket (Long \<lparr>lh_PacketType = Handshake, lh_LowerBits = 0, lh_Version = 0xff00001d,
       lh_DestinationCID = [7], lh_SourceCID = [8], lh_TokenLength = zero_VarInt, lh_Token = [],
       lh_Length = \<lparr>vi_Value = 3, vi_Length = 1\<rparr>,
       lh_PacketNumber = Join \<lparr>tpn_Value = 5, tpn_Length = 1\<rparr> (c_LargestPNsReceived conn PNSpaceHandshake),
       lh_TruncatedPN = \<lparr>tpn_Value = 5, tpn_Length = 1\<rparr>\<rparr>) [PingFrame, HandshakeDone], conn)"
proof
  fix conn
  let ?h = "\<lparr>lh_PacketType = Handshake, lh_LowerBits = 0, lh_Version = 0xff00001d,
       lh_DestinationCID = [7], lh_SourceCID = [8], lh_TokenLength = zero_VarInt, lh_Token = [],
       lh_Length = \<lparr>vi_Value = 3, vi_Length = 1\<rparr>, lh_PacketNumber = 5,
       lh_TruncatedPN = \<lparr>tpn_Value = 5, tpn_Length = 1\<rparr>\<rparr>"
  let ?p = "new_FramePacket (Long ?h) [PingFrame, HandshakeDone]"
  let ?b = "[0xE0, 0xff, 0, 0, 0x1d, 1, 7, 1, 8, 3, 5, 0x01, 0x1e] :: bytes"
  have "FramePacket_Encode ?p = Inr ?b"
    by (simp add: FramePacket_Encode_def FramePacket_EncodePayload_def new_FramePacket_def LongHeader_Encode_def
        typeByte_long_def PutUint32_def CIDL_def VarInt_Encode_def WriteVarInt_def
        EncodeVarInt_type TruncatedPN_Encode_def packet_types frame_types)
  moreover have "wf_header conn (fp_Header ?p)"
    by (simp add: new_FramePacket_def wf_long_def wf_VarInt_def VarIntLen_def maxVarInt1_def wf_TruncatedPN_def
        packet_types)
  moreover have "frames_ok (fp_Frames ?p)" by (simp add: new_FramePacket_def)
  ultimately show "ReadHandshakePacket (NewReader ?b) conn =
     Inr (new_FramePacket (Long \<lparr>lh_PacketType = Handshake, lh_LowerBits = 0, lh_Version = 0xff00001d,
       lh_DestinationCID = [7], lh_SourceCID = [8], lh_TokenLength = zero_VarInt, lh_Token = [],
       lh_Length = \<lparr>vi_Value = 3, vi_Length = 1\<rparr>,
       lh_PacketNumber = Join \<lparr>tpn_Value = 5, tpn_Length = 1\<rparr> (c_LargestPNsReceived conn PNSpaceHandshake),
       lh_TruncatedPN = \<lparr>tpn_Value = 5, tpn_Length = 1\<rparr>\<rparr>) [PingFrame, HandshakeDone], conn)"
    using packet_roundtrip [of ?p ?b conn]
    by (simp add: new_FramePacket_def received_long_def typeByte_long_def packet_types PacketType_PNSpace_def
        packetTypeToPNSPace_def go_lookup_def deliver_crypto_def)
qed



text \<open>
  A Stateless Reset of at least 16 bytes is split into the unpredictable bits and the token; a shorter one, and one that
  cannot be allocated, panics. The caller reads one only after comparing the last 16 bytes of the datagram.
\<close>

lemma stateless_reset_split:
  "ReadStatelessResetPacket (NewReader b) =
    (if length b < 16 \<or> maxAlloc + 16 < length b then Inl MakeSliceLen
     else Inr \<lparr>receiveContext = zero_PacketContext, sendContext = zero_PacketContext,
       sr_UnpredictableBits = take (length b - 16) b, sr_StatelessResetToken = drop (length b - 16) b\<rparr>)"
  by (simp add: ReadStatelessResetPacket_def NewReader_def make_but_16_Reader rd_Read_split rd_array_rest)

text \<open>
  A Version Negotiation packet in the format of the specification (a length byte before each identifier) is read with exactly the
  versions it lists, in order; up to three stray bytes at the end are ignored.
\<close>

lemma version_negotiation_read:
  assumes "length dcid < 256" "length scid < 256" "length rest < 4"
  shows "ReadVersionNegotationPacket (NewReader
      (b # PutUint32 v @ ConnectionID_WriteTo dcid @ ConnectionID_WriteTo scid @ concat (map PutUint32 vs) @ rest)) =
    Inr \<lparr>receiveContext = zero_PacketContext, sendContext = zero_PacketContext, vn_UnusedField = b AND 0x7f,
      vn_Version = v, vn_DestinationCID = dcid, vn_SourceCID = scid, vn_SupportedVersions = vs\<rparr>"
  using assms
  by (simp add: ReadVersionNegotationPacket_def NewReader_def ConnectionID_WriteTo_def rd_u32_PutUint32
      rd_cid_written read_versions_written)

lemma version_negotiation_read_witness:
  "ReadVersionNegotationPacket (NewReader [0xff, 0, 0, 0, 0, 1, 7, 1, 8, 0xff, 0, 0, 0x1d, 9]) =
    Inr \<lparr>receiveContext = zero_PacketContext, sendContext = zero_PacketContext, vn_UnusedField = 0x7f,
      vn_Version = 0, vn_DestinationCID = [7], vn_SourceCID = [8], vn_SupportedVersions = [0xff00001d]\<rparr>"
proof -
  have "PutUint32 0xff00001d = [0xff, 0, 0, 0x1d]" "PutUint32 0 = [0, 0, 0, 0]" by (simp_all add: PutUint32_def)
  then show ?thesis
    using version_negotiation_read [of "[7]" "[8]" "[9]" "0xff" 0 "[0xff00001d]"]
    by (simp add: ConnectionID_WriteTo_def CIDL_def)
qed

text \<open>
  What the Version Negotiation writer produces is not that format: it packs the two identifier lengths into one byte and clears
  the header form bit of \<^verbatim>\<open>UnusedField\<close>'s low part, so its own reader takes the packed byte for the length of the
  destination identifier and loses the identifiers and the versions.
\<close>

lemma version_negotiation_not_written:
  "ReadVersionNegotationPacket (NewReader (VersionNegotiationPacket_EncodePayload
      \<lparr>receiveContext = zero_PacketContext, sendContext = zero_PacketContext, vn_UnusedField = 0x7f,
       vn_Version = 0, vn_DestinationCID = [7], vn_SourceCID = [8], vn_SupportedVersions = [0xff00001d]\<rparr>)) =
   Inr \<lparr>receiveContext = zero_PacketContext, sendContext = zero_PacketContext, vn_UnusedField = 0,
      vn_Version = 0, vn_DestinationCID = replicate 17 0, vn_SourceCID = [], vn_SupportedVersions = []\<rparr>"
  by (simp add: VersionNegotiationPacket_EncodePayload_def ReadVersionNegotationPacket_def NewReader_def CIDL_def
      PutUint32_def rd_u32_def ReadFull_def BE_Uint32_def rd_cid_def rd_byte_def binary_Read_bytes_def
      read_versions.simps)

end
