(* ===== verification/Acks.thy ===== *)
theory Acks
  imports Packets
begin

text \<open>
  Acknowledgements: \<^verbatim>\<open>Connection.GetAckFrame\<close> (\<^verbatim>\<open>connection.go\<close>) and the agent of \<^verbatim>\<open>agents/ack_agent.go\<close>.

  The abstract meaning of an ACK frame is the set of packet numbers it acknowledges (\<open>ack_set\<close>, after the
  specification: a range covers its length plus one packets, and the gap field is two less than the
  distance). \<^verbatim>\<open>GetAckFrame\<close> refines the queue of received packet numbers to a frame that means exactly the set of the queue.
\<close>

section \<open>Building the frame\<close>

text \<open>\<^verbatim>\<open>sort.Sort(PacketNumberQueue(...))\<close>: descending order.\<close>

definition sort_queue :: "PacketNumber list \<Rightarrow> PacketNumber list" where
  "sort_queue q = rev (sort q)"

text \<open>The loop that drops repeated numbers: \<open>lst\<close> is the number appended last.\<close>

fun drop_repeats :: "PacketNumber \<Rightarrow> PacketNumber list \<Rightarrow> PacketNumber list" where
  "drop_repeats lst [] = []"
| "drop_repeats lst (i # q) = (if i \<noteq> lst then i # drop_repeats i q else drop_repeats lst q)"

text \<open>The loop over the numbers below the largest.\<close>

fun ack_blocks :: "PacketNumber \<Rightarrow> AckRange \<Rightarrow> PacketNumber list \<Rightarrow> AckRange list" where
  "ack_blocks previous block [] = [block]"
| "ack_blocks previous block (number # ns) =
     (if previous - number = 1 then ack_blocks number (block\<lparr>ar_AckRange := ar_AckRange block + 1\<rparr>) ns
      else block # ack_blocks number \<lparr>ar_Gap = previous - number - 2, ar_AckRange = 0\<rparr> ns)"

definition GetAckFrame :: "PNSpace \<Rightarrow> Connection \<Rightarrow> AckFrame option \<times> Connection" where
  "GetAckFrame space c =
     (let q = sort_queue (c_AckQueue c space);
          c = c\<lparr>c_AckQueue := (c_AckQueue c)(space := q)\<rparr>
      in case q of
           [] \<Rightarrow> (None, c)
         | first # _ \<Rightarrow>
             (let packetNumbers = first # drop_repeats first q;
                  ranges = ack_blocks first \<lparr>ar_Gap = 0, ar_AckRange = 0\<rparr> (tl packetNumbers)
              in (Some \<lparr>af_LargestAcknowledged = first, af_AckDelay = 0,
                        af_AckRangeCount = of_nat (length ranges - 1), af_AckRanges = ranges\<rparr>, c)))"

section \<open>The meaning of an ACK frame\<close>

text \<open>The packets of the ranges, counted downwards from the first packet \<open>hi\<close> of the first of them.\<close>

fun ranges_set :: "int \<Rightarrow> AckRange list \<Rightarrow> int set" where
  "ranges_set hi [] = {}"
| "ranges_set hi (b # bs) =
     (let low = hi - uint (ar_AckRange b)
      in {low .. hi} \<union> (case bs of [] \<Rightarrow> {} | b' # _ \<Rightarrow> ranges_set (low - uint (ar_Gap b') - 2) bs))"

definition ack_set :: "AckFrame \<Rightarrow> int set" where
  "ack_set f = ranges_set (uint (af_LargestAcknowledged f)) (af_AckRanges f)"

section \<open>Sorting and repeats\<close>

lemma set_drop_repeats: "insert lst (set (drop_repeats lst q)) = insert lst (set q)"
  by (induction lst q rule: drop_repeats.induct) auto

lemma drop_repeats_sorted:
  "sorted_wrt (\<ge>) (lst # q) \<Longrightarrow> sorted_wrt (>) (lst # drop_repeats lst q)"
proof (induction lst q rule: drop_repeats.induct)
  case (2 lst i q)
  show ?case
  proof (cases "i = lst")
    case False
    with 2(3) have "i < lst" "sorted_wrt (\<ge>) (i # q)" by auto
    with 2(1) False show ?thesis by fastforce
  next
    case True
    with 2 show ?thesis by auto
  qed
qed simp

lemma length_drop_repeats: "length (drop_repeats lst q) \<le> length q"
  by (induction lst q rule: drop_repeats.induct) auto

lemma sort_queue_sorted: "sorted_wrt (\<ge>) (sort_queue q)" "set (sort_queue q) = set q"
  by (simp_all add: sort_queue_def sorted_wrt_rev)

text \<open>For the head of a sorted queue, the loop starts by skipping the head itself.\<close>

lemma drop_repeats_head: "sort_queue q = a # l \<Longrightarrow> sorted_wrt (>) (a # drop_repeats a (a # l)) \<and>
    set (a # drop_repeats a (a # l)) = set q"
  using drop_repeats_sorted [of a l] set_drop_repeats [of a l] sort_queue_sorted [of q] by auto

section \<open>The ranges mean the numbers\<close>

lemma uint_minus: "(y :: u64) \<le> x \<Longrightarrow> uint (x - y) = uint x - uint y"
  by (simp add: uint_sub_lem word_le_def)

lemma minus_one_iff: "(y :: u64) < x \<Longrightarrow> x - y = 1 \<longleftrightarrow> uint x = uint y + 1"
  using uint_minus [of y x] by (auto simp: word_uint_eq_iff)

lemma uint_minus_2: "(y :: u64) < x \<Longrightarrow> x - y \<noteq> 1 \<Longrightarrow> uint (x - y - 2) = uint x - uint y - 2"
proof -
  assume a: "y < x" "x - y \<noteq> 1"
  have "uint (x - y) = uint x - uint y" using a uint_minus by simp
  moreover have "uint y < uint x" using a by (simp add: word_less_def)
  moreover have "uint x \<noteq> uint y + 1" using a minus_one_iff by blast
  ultimately have "2 \<le> x - y" by (simp add: word_le_def)
  then show ?thesis using uint_minus [of 2 "x - y"] \<open>uint (x - y) = uint x - uint y\<close> by simp
qed

text \<open>
  The invariant of the loop: the open block ends at \<open>previous\<close>, so its top is its length above.
\<close>

lemma ack_blocks_set:
  "sorted_wrt (>) (previous # ns) \<Longrightarrow> uint previous + uint (ar_AckRange block) < 2 ^ 64 \<Longrightarrow>
   ranges_set (uint previous + uint (ar_AckRange block)) (ack_blocks previous block ns) =
     {uint previous .. uint previous + uint (ar_AckRange block)} \<union> uint ` set ns \<and>
   (\<exists>b bs. ack_blocks previous block ns = b # bs \<and> ar_Gap b = ar_Gap block) \<and>
   length (ack_blocks previous block ns) \<le> Suc (length ns)"
proof (induction previous block ns rule: ack_blocks.induct)
  case (1 previous block)
  then show ?case by simp
next
  case (2 previous block number ns)
  let ?r = "ar_AckRange block"
  have less: "number < previous" and sorted: "sorted_wrt (>) (number # ns)" using 2(3) by auto
  show ?case
  proof (cases "previous - number = 1")
    case True
    then have p: "uint previous = uint number + 1" using minus_one_iff [OF less] by simp
    have r: "uint (?r + 1) = uint ?r + 1"
      using 2(4) p uint_add_lem [of ?r 1] uint_ge_0 [of number] by simp
    let ?block = "block\<lparr>ar_AckRange := ?r + 1\<rparr>"
    have hi: "uint number + uint (ar_AckRange ?block) = uint previous + uint ?r" using p r by simp
    have "{uint number .. uint previous + uint ?r} = insert (uint number) {uint previous .. uint previous + uint ?r}"
      using p uint_ge_0 [of ?r] by auto
    moreover have "ack_blocks previous block (number # ns) = ack_blocks number ?block ns" using True by simp
    ultimately show ?thesis
      using 2(1) [OF True sorted, unfolded hi] 2(4) by auto
  next
    case False
    let ?b = "\<lparr>ar_Gap = previous - number - 2, ar_AckRange = 0\<rparr> :: AckRange"
    have "uint number < 2 ^ 64" using uint_lt2p [of number] by simp
    with 2(2) [OF False sorted] obtain b bs where
      s: "ranges_set (uint number) (ack_blocks number ?b ns) = {uint number} \<union> uint ` set ns"
      and b: "ack_blocks number ?b ns = b # bs" "ar_Gap b = previous - number - 2"
      and l: "length (ack_blocks number ?b ns) \<le> Suc (length ns)" by auto
    have "uint previous - uint (ar_Gap b) - 2 = uint number"
      using uint_minus_2 [OF less False] b(2) by simp
    then have "ranges_set (uint previous + uint ?r) (block # b # bs) =
        {uint previous .. uint previous + uint ?r} \<union> ranges_set (uint number) (b # bs)"
      by (subst ranges_set.simps) (simp add: Let_def del: ranges_set.simps)
    with s b l False show ?thesis by (simp del: ranges_set.simps)
  qed
qed

lemma GetAckFrame_empty: "c_AckQueue c space = [] \<Longrightarrow> GetAckFrame space c = (None, c)"
  by (simp add: GetAckFrame_def sort_queue_def fun_upd_idem)

lemma GetAckFrame_Some:
  assumes "c_AckQueue c space \<noteq> []"
  obtains f where
    "GetAckFrame space c = (Some f, c\<lparr>c_AckQueue := (c_AckQueue c)(space := sort_queue (c_AckQueue c space))\<rparr>)"
    "ack_set f = uint ` set (c_AckQueue c space)" "af_LargestAcknowledged f = Max (set (c_AckQueue c space))"
    "af_AckDelay f = 0"
    "\<exists>b bs. af_AckRanges f = b # bs \<and> ar_Gap b = 0 \<and> af_AckRangeCount f = of_nat (length bs) \<and>
       length bs < length (c_AckQueue c space)"
proof -
  let ?q = "c_AckQueue c space"
  have "sort_queue ?q \<noteq> []" using assms sort_queue_sorted(2) [of ?q] by force
  then obtain a l where q: "sort_queue ?q = a # l" by (cases "sort_queue ?q") auto
  let ?ns = "drop_repeats a (a # l)" and ?z = "\<lparr>ar_Gap = 0, ar_AckRange = 0\<rparr> :: AckRange"
  let ?f = "\<lparr>af_LargestAcknowledged = a, af_AckDelay = 0,
    af_AckRangeCount = of_nat (length (ack_blocks a ?z ?ns) - 1), af_AckRanges = ack_blocks a ?z ?ns\<rparr>"
  note s = drop_repeats_head [OF q]
  have "uint a < 2 ^ 64" using uint_lt2p [of a] by simp
  with ack_blocks_set [of a ?ns ?z] s obtain b bs where
    r: "ranges_set (uint a) (ack_blocks a ?z ?ns) = {uint a} \<union> uint ` set ?ns"
    and b: "ack_blocks a ?z ?ns = b # bs" "ar_Gap b = 0" "length (b # bs) \<le> Suc (length ?ns)" by auto
  have "GetAckFrame space c = (Some ?f, c\<lparr>c_AckQueue := (c_AckQueue c)(space := sort_queue ?q)\<rparr>)"
    by (simp add: GetAckFrame_def q Let_def)
  moreover have "ack_set ?f = uint ` set ?q"
    using r s by (auto simp: ack_set_def)
  moreover have "a = Max (set ?q)"
    using s by (intro Max_eqI [symmetric]) fastforce+
  moreover have "length ?ns < length ?q"
    using length_drop_repeats [of a l] arg_cong [OF q, of length] by (simp add: sort_queue_def)
  ultimately show ?thesis using b by (intro that [of ?f]) auto
qed


section \<open>The agent\<close>

text \<open>
  The state of the agent: what its user disabled, the bytes acknowledged, and the time stamps of the received packets, which
  are a local map of the goroutine.
\<close>

record AckAgent =
  aa_DisableAcks :: "PNSpace \<Rightarrow> bool"
  aa_TotalDataAcked :: "PNSpace \<Rightarrow> u64"
  aa_DisablePathResponse :: bool
  aa_recvdTimestamps :: "PNSpace \<Rightarrow> PacketNumber \<Rightarrow> time option"

text \<open>The case of an incoming packet.\<close>

definition answer_challenge :: "Packet \<Rightarrow> AckAgent \<Rightarrow> Connection \<Rightarrow> Connection" where
  "answer_challenge p a c =
     (case framer p of
        None \<Rightarrow> c
      | Some q \<Rightarrow>
          (case GetFirst PathChallengeType q of
             Some (PathChallenge d) \<Rightarrow>
               if \<not> aa_DisablePathResponse a
               then submit_frame \<lparr>qf_Frame = PathResponse d, qf_EncryptionLevel = Packet_EncryptionLevel p\<rparr> c else c
           | _ \<Rightarrow> c))"

definition ack_incoming :: "Packet \<Rightarrow> AckAgent \<Rightarrow> Connection \<Rightarrow> (AckAgent \<times> Connection) res" where
  "ack_incoming p a c =
     (let space = Packet_PNSpace p in
      if space \<noteq> PNSpaceNoSpace then
        (case GetHeader p of
           None \<Rightarrow> Inl NilPointer
         | Some h \<Rightarrow>
             (let pn = GetPacketNumber h;
                  c = c\<lparr>c_AckQueue := (c_AckQueue c)(space := c_AckQueue c space @ [pn])\<rparr>;
                  a = a\<lparr>aa_recvdTimestamps := (aa_recvdTimestamps a)
                        (space := (aa_recvdTimestamps a space)(pn \<mapsto> pc_Timestamp (ReceiveContext p)))\<rparr>;
                  c = answer_challenge p a c
              in if \<not> aa_DisableAcks a space \<and> ShouldBeAcknowledged p then
                   (let c = submit_prepare (Packet_EncryptionLevel p) c in
                    bind_res (EncodePayload p) (\<lambda>payload.
                    bind_res (Packet_Encode p payload) (\<lambda>b.
                    Inr (a\<lparr>aa_TotalDataAcked := (aa_TotalDataAcked a)
                            (space := aa_TotalDataAcked a space + of_nat (length b))\<rparr>, c))))
                 else Inr (a, c)))
      else Inr (a, c))"

text \<open>
  The delay: \<^verbatim>\<open>Round(time.Microsecond)\<close> rounds half away from zero, the shift of a signed number is arithmetic.
\<close>

definition round_us :: "int \<Rightarrow> int" where
  "round_us d = (if d \<ge> 0 then (d + 500) div 1000 else - ((- d + 500) div 1000))"

definition ack_delay :: "time \<Rightarrow> time \<Rightarrow> u64 \<Rightarrow> u64" where
  "ack_delay now ts exponent = of_int (round_us (now - ts) div 2 ^ unat exponent)"

text \<open>The case of a request for frames; the result is what is sent to \<^verbatim>\<open>a.frames\<close>.\<close>

definition ack_request ::
    "time \<Rightarrow> int \<Rightarrow> EncryptionLevel \<Rightarrow> AckAgent \<Rightarrow> Connection \<Rightarrow> (Frame list \<times> Connection) res" where
  "ack_request now availableSpace level a c =
     (let pnSpace = EncryptionLevelToPNSpace level in
      if aa_DisableAcks a pnSpace \<or> level = EncryptionLevelBest \<or> level = EncryptionLevelBestAppData \<or>
         level = EncryptionLevel0RTT then Inr ([], c)
      else case GetAckFrame pnSpace c of
        (None, c) \<Rightarrow> Inr ([], c)
      | (Some f, c) \<Rightarrow>
          (let f = (case aa_recvdTimestamps a pnSpace (af_LargestAcknowledged f) of
                      Some ts \<Rightarrow> f\<lparr>af_AckDelay := ack_delay now ts (tp_AckDelayExponent (h_Params (c_TLSTPHandler c)))\<rparr>
                    | None \<Rightarrow> f)
           in bind_res (FrameLength (Ack f)) (\<lambda>l.
              if availableSpace \<ge> uint l then Inr ([Ack f], c)
              else Inr ([], submit_prepare level c))))"

text \<open>The case of \<^verbatim>\<open>SendFromQueue\<close>: an empty queue is acknowledged with a frame for packet 0.\<close>

definition ack_send_from_queue :: "PNSpace \<Rightarrow> Connection \<Rightarrow> Connection" where
  "ack_send_from_queue pnSpace c =
     (case GetAckFrame pnSpace c of
        (Some f, c) \<Rightarrow> submit_frame \<lparr>qf_Frame = Ack f, qf_EncryptionLevel = PNSpaceToEncryptionLevel pnSpace\<rparr> c
      | (None, c) \<Rightarrow> submit_frame \<lparr>qf_Frame = Ack \<lparr>af_LargestAcknowledged = 0, af_AckDelay = 0,
            af_AckRangeCount = 0, af_AckRanges = [\<lparr>ar_Gap = 0, ar_AckRange = 0\<rparr>]\<rparr>,
          qf_EncryptionLevel = PNSpaceToEncryptionLevel pnSpace\<rparr> c)"

subsection \<open>The agent as a machine\<close>

datatype ack_event = AckIncoming Packet | AckRequested time int EncryptionLevel | AckSend PNSpace

inductive ack_step :: "AckAgent \<times> Connection \<Rightarrow> ack_event \<Rightarrow> AckAgent \<times> Connection \<Rightarrow> bool" where
  incoming: "ack_incoming p a c = Inr (a', c') \<Longrightarrow> ack_step (a, c) (AckIncoming p) (a', c')"
| request: "ack_request now n level a c = Inr (fs, c') \<Longrightarrow> ack_step (a, c) (AckRequested now n level) (a, c')"
| send: "ack_step (a, c) (AckSend space) (a, ack_send_from_queue space c)"

inductive_cases ack_stepE: "ack_step s e s'"

text \<open>A fresh agent on a connection that has not received anything.\<close>

definition ack_init :: "AckAgent \<times> Connection \<Rightarrow> bool" where
  "ack_init s \<longleftrightarrow> (\<forall>space. aa_recvdTimestamps (fst s) space = Map.empty \<and> c_AckQueue (snd s) space = [])"

definition ack_inv :: "AckAgent \<times> Connection \<Rightarrow> bool" where
  "ack_inv s \<longleftrightarrow> (\<forall>space. set (c_AckQueue (snd s) space) = dom (aa_recvdTimestamps (fst s) space))"

lemma GetAckFrame_queue:
  "set (c_AckQueue (snd (GetAckFrame space c)) sp) = set (c_AckQueue c sp)"
proof -
  have "snd (GetAckFrame space c) = c\<lparr>c_AckQueue := (c_AckQueue c)(space := sort_queue (c_AckQueue c space))\<rparr>"
    by (simp add: GetAckFrame_def Let_def split: list.split)
  then show ?thesis using sort_queue_sorted(2) by simp
qed

lemma submit_queue [simp]:
  "c_AckQueue (submit_frame f c) = c_AckQueue c" "c_AckQueue (submit_prepare l c) = c_AckQueue c"
  by (simp_all add: submit_defs)

lemma answer_challenge_queue [simp]: "c_AckQueue (answer_challenge p a c) = c_AckQueue c"
  by (simp add: answer_challenge_def split: option.split Frame.split)

lemma ack_incoming_queue:
  assumes "ack_incoming p a c = Inr (a', c')"
  shows "(a', c') = (a, c) \<or>
     c_AckQueue c' = (c_AckQueue c)(Packet_PNSpace p :=
       c_AckQueue c (Packet_PNSpace p) @ [GetPacketNumber (the (GetHeader p))]) \<and>
     aa_recvdTimestamps a' = (aa_recvdTimestamps a)(Packet_PNSpace p := (aa_recvdTimestamps a (Packet_PNSpace p))
       (GetPacketNumber (the (GetHeader p)) \<mapsto> pc_Timestamp (ReceiveContext p)))"
  using assms
  by (auto simp: ack_incoming_def Let_def simp del: ShouldBeAcknowledged.simps split: option.splits if_splits)

lemma ack_request_queue:
  assumes "ack_request now n level a c = Inr (fs, c')"
  shows "set (c_AckQueue c' sp) = set (c_AckQueue c sp)"
proof -
  obtain m c1 where g: "GetAckFrame (EncryptionLevelToPNSpace level) c = (m, c1)" by (meson surj_pair)
  with assms have "c_AckQueue c' = c_AckQueue c \<or> c_AckQueue c' = c_AckQueue c1"
    by (auto simp: ack_request_def Let_def split: option.splits if_splits)
  then show ?thesis
    using g GetAckFrame_queue [of "EncryptionLevelToPNSpace level" c sp] by (metis snd_conv)
qed

lemma ack_send_queue: "set (c_AckQueue (ack_send_from_queue space c) sp) = set (c_AckQueue c sp)"
proof -
  obtain m c1 where g: "GetAckFrame space c = (m, c1)" by (meson surj_pair)
  then have "c_AckQueue (ack_send_from_queue space c) = c_AckQueue c1"
    by (cases m) (simp_all add: ack_send_from_queue_def)
  then show ?thesis using g GetAckFrame_queue [of space c sp] by (metis snd_conv)
qed

interpretation ack_machine: machine ack_init ack_step ack_inv
proof (unfold_locales, goal_cases)
  case (1 s)
  then show ?case by (simp add: ack_init_def ack_inv_def)
next
  case (2 s e s')
  from 2(2) show ?case
  proof cases
    case (incoming p a c a' c')
    with 2(1) ack_incoming_queue [OF incoming(4)] show ?thesis
      by (auto simp: ack_inv_def)
  next
    case (request now n level a c fs c')
    with 2(1) ack_request_queue [OF request(4)] show ?thesis by (simp add: ack_inv_def)
  next
    case (send a c space)
    with 2(1) ack_send_queue show ?thesis by (simp add: ack_inv_def)
  qed
qed

lemma ack_request_frame:
  assumes "ack_request now n level a c = Inr (fs, c')" "Ack f \<in> set fs"
  obtains g l where "GetAckFrame (EncryptionLevelToPNSpace level) c = (Some g, c')"
    "af_AckRanges f = af_AckRanges g" "af_LargestAcknowledged f = af_LargestAcknowledged g"
    "FrameLength (Ack f) = Inr l" "uint l \<le> n"
  using assms by (auto simp: ack_request_def Let_def split: prod.splits option.splits if_splits)

section \<open>Properties\<close>

text \<open>
  C7. The ACK frame built from the queue of received packet numbers means exactly the set of the queue, whatever the order and the
  repetitions in it: no packet is acknowledged that was not received, and none is left out. The largest number is the maximum of the
  queue; there is no frame exactly for an empty queue. Written to a packet, the frame is read back by the peer as the same frame, and so with
  the same meaning.
\<close>

theorem ack_frame_exact:
  assumes "length (c_AckQueue c space) < 2 ^ 62"
  shows "case GetAckFrame space c of
      (None, c') \<Rightarrow> c_AckQueue c space = []
    | (Some f, c') \<Rightarrow> ack_set f = uint ` set (c_AckQueue c space) \<and>
        af_LargestAcknowledged f = Max (set (c_AckQueue c space)) \<and>
        (\<forall>b d t S. WriteTo (Ack f) = Inr b \<longrightarrow>
           NewFrame (Reader d (b @ t)) S = Inr (Inr (Some (Ack f)), Reader (rev b @ d) t, S))"
proof (cases "c_AckQueue c space = []")
  case False
  then obtain f b bs where f: "fst (GetAckFrame space c) = Some f" "ack_set f = uint ` set (c_AckQueue c space)"
    "af_LargestAcknowledged f = Max (set (c_AckQueue c space))" "af_AckRanges f = b # bs" "ar_Gap b = 0"
    "af_AckRangeCount f = of_nat (length bs)" "length bs < length (c_AckQueue c space)"
    by (metis GetAckFrame_Some fst_conv)
  then have "wf_ack f" using assms by simp
  then have "NewFrame (Reader d (b @ t)) S = Inr (Inr (Some (Ack f)), Reader (rev b @ d) t, S)"
    if "WriteTo (Ack f) = Inr b" for b d t S
    using NewFrame_written [OF that, of t d S] by simp
  with f show ?thesis by (cases "GetAckFrame space c") auto
qed (simp add: GetAckFrame_empty)

lemma ack_frame_exact_witness:
  "\<forall>c :: Connection. \<exists>f c'. GetAckFrame PNSpaceAppData (c\<lparr>c_AckQueue := \<lambda>_. [3, 1, 7, 3, 2]\<rparr>) = (Some f, c') \<and>
     ack_set f = {1, 2, 3, 7} \<and> af_AckRanges f =
       [\<lparr>ar_Gap = 0, ar_AckRange = 0\<rparr>, \<lparr>ar_Gap = 2, ar_AckRange = 2\<rparr>]"
proof
  fix c :: Connection
  let ?c = "c\<lparr>c_AckQueue := \<lambda>_. [3, 1, 7, 3, 2]\<rparr>"
  have "length (c_AckQueue ?c PNSpaceAppData) < 2 ^ 62" by simp
  from ack_frame_exact [OF this] obtain f c' where f: "GetAckFrame PNSpaceAppData ?c = (Some f, c')"
    "ack_set f = {1, 2, 3, 7}"
    by (auto split: prod.splits option.splits)
  moreover have "af_AckRanges f = [\<lparr>ar_Gap = 0, ar_AckRange = 0\<rparr>, \<lparr>ar_Gap = 2, ar_AckRange = 2\<rparr>]"
  proof -
    have "sort_queue [3, 1, 7, 3, 2] = [7, 3, 3, 2, 1]" by code_simp
    with f(1) show ?thesis by (auto simp: GetAckFrame_def Let_def)
  qed
  ultimately show "\<exists>f c'. GetAckFrame PNSpaceAppData ?c = (Some f, c') \<and> ack_set f = {1, 2, 3, 7} \<and>
      af_AckRanges f = [\<lparr>ar_Gap = 0, ar_AckRange = 0\<rparr>, \<lparr>ar_Gap = 2, ar_AckRange = 2\<rparr>]" by blast
qed



end
