(* ===== verification/Protect.thy ===== *)
theory Protect
  imports Acks
begin

text \<open>
  Packet protection on the sending side: \<^verbatim>\<open>EncodeAndEncrypt\<close>, \<^verbatim>\<open>PacketWasSent\<close>, \<^verbatim>\<open>DoSendPacket\<close> and \<^verbatim>\<open>CryptoState\<close> of
  \<^verbatim>\<open>connection.go\<close>.

  A packet that is too short to sample the header protection is padded and encrypted again by a recursive call. The recursion is
  bounded by fuel, and \<open>seal_fuel\<close> shows that two rounds are always enough for an AEAD with a tag of 16 bytes,
  the size of every TLS 1.3 cipher suite the library offers.
\<close>

section \<open>Header protection\<close>

text \<open>The loop \<^verbatim>\<open>packetBytes[pnOffset+i] ^= mask[1+i]\<close> for \<open>n\<close> bytes.\<close>

fun mask_pn :: "bytes \<Rightarrow> nat \<Rightarrow> nat \<Rightarrow> bytes \<Rightarrow> bytes" where
  "mask_pn msk off 0 b = b"
| "mask_pn msk off (Suc n) b =
     (let b = mask_pn msk off n b in b[off + n := b ! (off + n) XOR msk ! (1 + n)])"

definition mask_first :: "bytes \<Rightarrow> u8 \<Rightarrow> bytes \<Rightarrow> bytes" where
  "mask_first msk firstByteMask b = b[0 := b ! 0 XOR (msk ! 0 AND firstByteMask)]"

text \<open>\<open>n\<close> is at least 1, so the index check of the loop covers \<^verbatim>\<open>mask[0]\<close> and \<^verbatim>\<open>packetBytes[0]\<close>.\<close>

definition protect_header :: "bytes \<Rightarrow> u8 \<Rightarrow> nat \<Rightarrow> nat \<Rightarrow> bytes \<Rightarrow> bytes res" where
  "protect_header msk firstByteMask off n b =
     (if length msk < 1 + n \<or> length b < off + n then Inl IndexOutOfRange
      else Inr (mask_pn msk off n (mask_first msk firstByteMask b)))"

section \<open>Encryption\<close>

definition Connection_CryptoState :: "EncryptionLevel \<Rightarrow> Connection \<Rightarrow> CryptoState option" where
  "Connection_CryptoState level c = c_CryptoStates c level"

text \<open>One call up to the sampling: the protected packet, or the size to pad to.\<close>

datatype sealed = Sealed bytes | TooShort nat

definition first_byte_mask :: "Header \<Rightarrow> u8" where
  "first_byte_mask h = (if GetPacketType h \<noteq> ShortHeaderPacket then 0x0F else 0x1F)"

definition seal :: "FramePacket \<Rightarrow> EncryptionLevel \<Rightarrow> Connection \<Rightarrow> (sealed \<times> FramePacket) res" where
  "seal p level c =
     bind_res (FramePacket_EncodePayload p) (\<lambda>payload.
     case Connection_CryptoState level c of None \<Rightarrow> Inl NilPointer | Some cs \<Rightarrow>
     case cs_Write cs of None \<Rightarrow> Inl NilPointer | Some w \<Rightarrow>
     bind_res (with_Length (of_nat (tpn_Length (GetTruncatedPN (fp_Header p)) + length payload + aead_Overhead w)) p) (\<lambda>p.
     bind_res (Header_Encode (fp_Header p)) (\<lambda>header.
     let packetBytes = header @ aead_Encrypt w payload (GetPacketNumber (fp_Header p)) header in
     case GetPacketSample (fp_Header p) packetBytes of
       (None, pnOffset) \<Rightarrow> Inr (TooShort (pnOffset + 4), p)
     | (Some sample, pnOffset) \<Rightarrow>
         (case cs_HeaderWrite cs of None \<Rightarrow> Inl NilPointer | Some hp \<Rightarrow>
          bind_res (protect_header (hp sample (replicate 5 0)) (first_byte_mask (fp_Header p)) pnOffset
                      (tpn_Length (GetTruncatedPN (fp_Header p))) packetBytes) (\<lambda>b.
          Inr (Sealed b, p))))))"

text \<open>
  The result is the datagram and the packet as the call leaves it (its length field set, possibly padded), \<open>None\<close> when the
  fuel is used up. Packets without frames are not sent: the code returns \<^verbatim>\<open>nil\<close>.
\<close>

fun EncodeAndEncrypt ::
    "nat \<Rightarrow> Packet \<Rightarrow> EncryptionLevel \<Rightarrow> Connection \<Rightarrow> (bytes option \<times> Packet) res option" where
  "EncodeAndEncrypt 0 p level c = None"
| "EncodeAndEncrypt (Suc n) p level c =
     (case framer p of
        None \<Rightarrow> Some (Inr (None, p))
      | Some q \<Rightarrow>
          (case seal q level c of
             Inl e \<Rightarrow> Some (Inl e)
           | Inr (Sealed b, q) \<Rightarrow> Some (Inr (Some b, set_framer q p))
           | Inr (TooShort paddedSize, q) \<Rightarrow>
               (case PadTo paddedSize q of
                  Inl e \<Rightarrow> Some (Inl e)
                | Inr q \<Rightarrow> EncodeAndEncrypt n (set_framer q p) level c)))"

definition seal_fuel :: nat where
  "seal_fuel = 2"

section \<open>Sending\<close>

text \<open>
  \<^verbatim>\<open>PacketWasSent\<close>, without the optional capture handler; \<^verbatim>\<open>DoSendPacket\<close> returns the datagram it writes to the socket. The time and the
  remote address are arguments.
\<close>

definition PacketWasSent :: "Packet \<Rightarrow> Connection \<Rightarrow> Connection" where
  "PacketWasSent p c = c\<lparr>c_OutgoingPackets := c_OutgoingPackets c @ [p]\<rparr>"

definition DoSendPacket ::
    "time \<Rightarrow> string \<Rightarrow> Packet \<Rightarrow> EncryptionLevel \<Rightarrow> Connection \<Rightarrow> (bytes option \<times> Connection) res option" where
  "DoSendPacket now remote p level c =
     (if Packet_PNSpace p = PNSpaceNoSpace then Some (Inr (None, c))
      else case Connection_CryptoState level c of
        None \<Rightarrow> Some (Inr (None, c))
      | Some _ \<Rightarrow>
          (case EncodeAndEncrypt seal_fuel p level c of
             None \<Rightarrow> None
           | Some (Inl e) \<Rightarrow> Some (Inl e)
           | Some (Inr (b, p)) \<Rightarrow>
               (let size = of_nat (length (nil_bytes b)) in
                Some (Inr (b, PacketWasSent (SetSendContext
                  \<lparr>pc_Timestamp = now, pc_RemoteAddr = remote, pc_ECNStatus = ECNStatusNonECT,
                   pc_DatagramSize = size, pc_PacketSize = size, pc_WasBuffered = False\<rparr> p) c)))))"

section \<open>Masking\<close>

lemma length_mask_pn [simp]: "length (mask_pn msk off n b) = length b"
  by (induction n) (simp_all add: Let_def)

lemma nth_mask_pn:
  "off + n \<le> length b \<Longrightarrow> mask_pn msk off n b ! i =
    (if off \<le> i \<and> i < off + n then b ! i XOR msk ! (1 + (i - off)) else b ! i)"
  by (induction n) (auto simp: Let_def nth_list_update less_Suc_eq)

lemma length_mask_first [simp]: "length (mask_first msk m b) = length b"
  by (simp add: mask_first_def)

lemma nth_mask_first:
  "b \<noteq> [] \<Longrightarrow> mask_first msk m b ! i = (if i = 0 then b ! 0 XOR (msk ! 0 AND m) else b ! i)"
  by (cases i) (auto simp: mask_first_def)

text \<open>Masking twice restores the bytes, and bytes behind the packet number are not touched.\<close>

lemma mask_pn_twice:
  assumes "off + n \<le> length b"
  shows "mask_pn msk off n (mask_pn msk off n b) = b"
  using assms by (intro nth_equalityI) (simp_all add: nth_mask_pn xor.assoc)

lemma mask_first_twice: "mask_first msk m (mask_first msk m b) = b"
  by (cases b) (simp_all add: mask_first_def xor.assoc)

lemma mask_first_pn_commute:
  assumes "0 < off" "off + n \<le> length b" "b \<noteq> []"
  shows "mask_first msk m (mask_pn msk off n b) = mask_pn msk off n (mask_first msk m b)"
proof (intro nth_equalityI, goal_cases)
  case (2 i)
  have "mask_pn msk off n b \<noteq> []" using assms(3) by (metis length_0_conv length_mask_pn)
  with assms show ?case by (auto simp: nth_mask_pn nth_mask_first)
qed simp

lemma drop_mask_pn: "off + n \<le> k \<Longrightarrow> off + n \<le> length b \<Longrightarrow> drop k (mask_pn msk off n b) = drop k b"
  by (intro nth_equalityI) (auto simp: nth_mask_pn)

lemma drop_mask_first: "0 < k \<Longrightarrow> drop k (mask_first msk m b) = drop k b"
  by (cases b; cases k) (simp_all add: mask_first_def)

section \<open>Headers to send\<close>

text \<open>A header without its length field, which is set when the packet is encrypted.\<close>

fun strip :: "Header \<Rightarrow> Header" where
  "strip (Long h) = Long (h\<lparr>lh_Length := zero_VarInt\<rparr>)"
| "strip (Short h) = Short h"

fun wf_len :: "Header \<Rightarrow> bool" where
  "wf_len (Long h) \<longleftrightarrow> wf_VarInt (lh_Length h)"
| "wf_len (Short h) \<longleftrightarrow> True"

fun len_len :: "Header \<Rightarrow> nat" where
  "len_len (Long h) = vi_Length (lh_Length h)"
| "len_len (Short h) = 0"

text \<open>The headers that can be sent, whatever their length field.\<close>

fun sendable :: "Header \<Rightarrow> bool" where
  "sendable (Long h) \<longleftrightarrow> wf_long (h\<lparr>lh_Length := \<lparr>vi_Value = 0, vi_Length = 1\<rparr>\<rparr>)"
| "sendable (Short h) \<longleftrightarrow> wf_TruncatedPN (sh_TruncatedPN h) \<and> length (sh_DestinationCID h) < 256"

lemma wf_long_sendable: "wf_long h \<longleftrightarrow> sendable (Long h) \<and> wf_VarInt (lh_Length h)"
  by (auto simp: wf_long_def wf_VarInt_def VarIntLen_def maxVarInt1_def)

lemma strip_cases:
  assumes "strip h = strip h'"
  obtains (same) "h' = h" | (len) l v where "h = Long l" "h' = Long (l\<lparr>lh_Length := v\<rparr>)"
proof (cases h)
  case (Long l)
  with assms obtain l' where l': "h' = Long l'" "l\<lparr>lh_Length := zero_VarInt\<rparr> = l'\<lparr>lh_Length := zero_VarInt\<rparr>"
    by (cases h') auto
  have "l' = l'\<lparr>lh_Length := zero_VarInt, lh_Length := lh_Length l'\<rparr>" by simp
  also have "\<dots> = l\<lparr>lh_Length := lh_Length l'\<rparr>" unfolding l'(2) [symmetric] by simp
  finally show ?thesis using len Long l'(1) by metis
next
  case (Short s)
  with assms show ?thesis using same by (cases h') auto
qed

lemma strip_same:
  assumes "strip h = strip h'"
  shows "sendable h = sendable h'" "GetPacketNumber h = GetPacketNumber h'" "GetPacketType h = GetPacketType h'"
    "GetTruncatedPN h = GetTruncatedPN h'" "HeaderLength h + len_len h' = HeaderLength h' + len_len h"
  using assms by (cases rule: strip_cases; simp add: LongHeader_HeaderLength_def Let_def)+

lemma set_Length_strip:
  assumes "set_Length n h = Inr h'"
  shows "strip h' = strip h" "wf_len h'" "(\<forall>l. h' = Long l \<longrightarrow> length_value h' = n)"
  using assms NewVarInt_wf by (cases h; auto)+

lemma sendable_encode:
  assumes "sendable h" "wf_len h"
  obtains hb where "Header_Encode h = Inr hb" "length hb = HeaderLength h"
    "pn_offset h + tpn_Length (GetTruncatedPN h) = HeaderLength h"
    "drop (pn_offset h) hb = TruncatedPN_Encode (GetTruncatedPN h)"
    "wf_TruncatedPN (GetTruncatedPN h)" "0 < pn_offset h"
proof (cases h)
  case (Long l)
  with assms have wf: "wf_long l" using wf_long_sendable [of l] by simp
  then obtain hb where hb: "LongHeader_Encode l = Inr hb" using LongHeader_Encode_total by blast
  from LongHeader_Encode_length [OF this wf] hb Long wf show ?thesis
    by (intro that [of hb]) (auto simp: pn_offset_def LongHeader_HeaderLength_def Let_def wf_long_def)
next
  case (Short s)
  with assms ShortHeader_Encode_length [of s] show ?thesis
    by (intro that [of "ShortHeader_Encode s"]) (auto simp: pn_offset_def ShortHeader_HeaderLength_def)
qed

lemma sendable_small:
  assumes "sendable h" "wf_len h"
  shows "HeaderLength h < 2 ^ 49"
proof (cases h)
  case (Long l)
  with assms have "wf_long l" using wf_long_sendable [of l] by simp
  then show ?thesis
    using VarIntLen_bounds [of "vi_Value (lh_Length l)"] VarIntLen_bounds [of "vi_Value (lh_TokenLength l)"]
    by (auto simp: Long wf_long_def LongHeader_HeaderLength_def Let_def wf_VarInt_def wf_TruncatedPN_def maxAlloc_def)
qed (use assms in \<open>auto simp: ShortHeader_HeaderLength_def wf_TruncatedPN_def\<close>)

section \<open>One round\<close>

text \<open>What the code relies on of the cryptographic library: a tag of 16 bytes, and a mask as long as its argument.\<close>

definition aead_ok :: "AEAD \<Rightarrow> bool" where
  "aead_ok w \<longleftrightarrow> aead_Overhead w = 16 \<and> (\<forall>x n a. length (aead_Encrypt w x n a) = length x + 16)"

definition cipher_ok :: "Cipher \<Rightarrow> bool" where
  "cipher_ok hp \<longleftrightarrow> (\<forall>iv x. length (hp iv x) = length x)"

definition write_keys :: "EncryptionLevel \<Rightarrow> Connection \<Rightarrow> AEAD \<Rightarrow> Cipher \<Rightarrow> bool" where
  "write_keys level c w hp \<longleftrightarrow> (\<exists>cs. Connection_CryptoState level c = Some cs \<and>
     cs_Write cs = Some w \<and> cs_HeaderWrite cs = Some hp) \<and> aead_ok w \<and> cipher_ok hp"

text \<open>The bytes of the protected packet: header, payload, and the mask from the sample.\<close>

definition protected_bytes :: "AEAD \<Rightarrow> Cipher \<Rightarrow> Header \<Rightarrow> bytes \<Rightarrow> bytes \<Rightarrow> bytes" where
  "protected_bytes w hp h hb x =
     (let b = hb @ aead_Encrypt w x (GetPacketNumber h) hb;
          m = hp (take 16 (drop (pn_offset h + 4) b)) (replicate 5 0)
      in mask_pn m (pn_offset h) (tpn_Length (GetTruncatedPN h)) (mask_first m (first_byte_mask h) b))"

lemma seal_round:
  assumes "write_keys level c w hp" "sendable (fp_Header p)" "FramePacket_EncodePayload p = Inr x"
    "length x < 2 ^ 61"
  obtains h hb where "strip h = strip (fp_Header p)" "wf_len h" "Header_Encode h = Inr hb"
    "set_Length (of_nat (tpn_Length (GetTruncatedPN h) + length x + 16)) (fp_Header p) = Inr h"
    "seal p level c = Inr (if tpn_Length (GetTruncatedPN h) + length x < 4 then TooShort (pn_offset h + 4)
                           else Sealed (protected_bytes w hp h hb x), p\<lparr>fp_Header := h\<rparr>)"
proof -
  let ?k = "tpn_Length (GetTruncatedPN (fp_Header p))"
  let ?n = "of_nat (?k + length x + 16) :: u64"
  obtain cs where cs: "Connection_CryptoState level c = Some cs" "cs_Write cs = Some w" "cs_HeaderWrite cs = Some hp"
    and w: "aead_Overhead w = 16" "\<And>x n a. length (aead_Encrypt w x n a) = length x + 16"
    and hp: "\<And>iv x. length (hp iv x) = length x"
    using assms(1) by (auto simp: write_keys_def aead_ok_def cipher_ok_def)
  have k: "?k \<in> {1, 2, 3, 4}"
    using assms(2) by (cases "fp_Header p") (auto simp: wf_long_def wf_TruncatedPN_def)
  have "fits62 ?n" using assms(4) k by (intro fits62_of_nat) auto
  then obtain h where h: "set_Length ?n (fp_Header p) = Inr h"
    using EncodeVarInt_total VarIntLen_EncodeVarInt by (cases "fp_Header p") (fastforce simp: NewVarInt_def)+
  have wl: "with_Length ?n p = Inr (p\<lparr>fp_Header := h\<rparr>)" unfolding with_Length_def h by simp
  have ph: "fp_Header (p\<lparr>fp_Header := h\<rparr>) = h" by simp
  note sl = set_Length_strip [OF h]
  have tpn: "GetTruncatedPN h = GetTruncatedPN (fp_Header p)" using strip_same(4) [OF sl(1)] .
  have "sendable h" using strip_same(1) [OF sl(1)] assms(2) by simp
  from sendable_encode [OF this sl(2)] obtain hb where hb: "Header_Encode h = Inr hb" "length hb = HeaderLength h"
    "pn_offset h + tpn_Length (GetTruncatedPN h) = HeaderLength h" by metis
  let ?b = "hb @ aead_Encrypt w x (GetPacketNumber h) hb"
  have len: "length ?b = pn_offset h + ?k + length x + 16" using hb(2,3) w(2) tpn by simp
  have "seal p level c = Inr (if tpn_Length (GetTruncatedPN h) + length x < 4 then TooShort (pn_offset h + 4)
                           else Sealed (protected_bytes w hp h hb x), p\<lparr>fp_Header := h\<rparr>)"
    unfolding seal_def assms(3) bind_res.simps cs option.case w(1) wl ph hb(1) Let_def GetPacketSample_def
    using len k tpn by (auto simp: protect_header_def hp protected_bytes_def Let_def cs)
  with h hb(1) sl tpn show ?thesis by (intro that [of h hb]) simp_all
qed

section \<open>Padding and the second round\<close>

definition pad_inv :: "FramePacket \<Rightarrow> bytes \<Rightarrow> bool" where
  "pad_inv p x \<longleftrightarrow> counted p x \<and> wf_len (fp_Header p)"

lemma pad_one_inv:
  assumes "pad_one p = Inr q" "pad_inv p x"
  shows "pad_inv q (x @ [0]) \<and> strip (fp_Header q) = strip (fp_Header p)"
proof -
  obtain h where h: "set_Length (length_value (fp_Header p) + 1) (fp_Header p) = Inr h"
    "q = p\<lparr>fp_Frames := fp_Frames p @ [PaddingFrame], fp_Header := h\<rparr>"
    using assms(1) by (auto simp: pad_one_def with_Length_def AddFrame_def)
  have x: "FramePacket_EncodePayload p = Inr x" using assms(2) by (simp add: pad_inv_def counted_def)
  have "length_value h = of_nat (length (x @ [0]))" if "h = Long l" for l
    using set_Length_strip(3) [OF h(1)] assms(2) that h(1)
    by (cases "fp_Header p") (auto simp: pad_inv_def counted_def)
  then show ?thesis
    using set_Length_strip [OF h(1)] payload_Padding [OF x, of h] h(2) by (simp add: pad_inv_def counted_def)
qed

lemma pad_loop_inv:
  "pad_loop len p = Inr q \<Longrightarrow> pad_inv p x \<Longrightarrow> \<exists>y. pad_inv q y \<and> strip (fp_Header q) = strip (fp_Header p)"
proof (induction len p arbitrary: x rule: pad_loop.induct)
  case (1 len p)
  show ?case
  proof (cases "p = q")
    case False
    with 1(2) obtain a p' where p': "FramePacket_Encode p = Inr a" "length a < len" "pad_one p = Inr p'"
      "pad_loop len p' = Inr q"
      by (auto simp: pad_loop.simps [of len p] split: if_splits)
    from pad_one_inv [OF p'(3) 1(3)] 1(1) [OF p'(1-4)] show ?thesis by metis
  qed (use 1 in blast)
qed

lemma PadTo_inv:
  assumes "PadTo len p = Inr q"
  shows "\<exists>y. pad_inv q y \<and> strip (fp_Header q) = strip (fp_Header p)"
proof -
  obtain x h where x: "FramePacket_EncodePayload p = Inr x" "set_Length (of_nat (length x)) (fp_Header p) = Inr h"
    "pad_loop len (p\<lparr>fp_Header := h\<rparr>) = Inr q"
    using assms by (auto simp: PadTo_def with_Length_def)
  have "pad_inv (p\<lparr>fp_Header := h\<rparr>) x"
    using x(1) set_Length_strip [OF x(2)] by (simp add: pad_inv_def counted_def FramePacket_EncodePayload_def)
  from pad_loop_inv [OF x(3) this] set_Length_strip(1) [OF x(2)] show ?thesis by simp
qed

lemma VarIntLen_small: "n < 64 \<Longrightarrow> VarIntLen (of_nat n) = Inr 1"
  by (simp add: VarIntLen_def range1)

lemma len_len_small:
  assumes "wf_len h" "\<forall>l. h = Long l \<longrightarrow> length_value h = of_nat n" "n < 64"
  shows "len_len h = (case h of Long _ \<Rightarrow> 1 | Short _ \<Rightarrow> 0)"
  using assms VarIntLen_small [of n] by (cases h) (auto simp: wf_VarInt_def)

text \<open>After padding, packet number and payload have at least the four bytes the sample needs.\<close>

lemma padded_enough:
  assumes "PadTo (pn_offset h + 4) (p\<lparr>fp_Header := h\<rparr>) = Inr q" "sendable h" "wf_len h"
    "\<forall>l. h = Long l \<longrightarrow> length_value h = of_nat n" "n < 64"
    "FramePacket_Encode q = Inr b" "pn_offset h + 4 \<le> length b"
  shows "\<exists>y. FramePacket_EncodePayload q = Inr y \<and> 4 \<le> tpn_Length (GetTruncatedPN h) + length y \<and>
     strip (fp_Header q) = strip h"
proof -
  obtain y where y: "pad_inv q y" "strip (fp_Header q) = strip h" using PadTo_inv [OF assms(1)] by auto
  have "sendable (fp_Header q)" using strip_same(1) [OF y(2)] assms(2) by simp
  moreover have wfq: "wf_len (fp_Header q)" using y(1) by (simp add: pad_inv_def)
  ultimately obtain hb where hb: "Header_Encode (fp_Header q) = Inr hb" "length hb = HeaderLength (fp_Header q)"
    using sendable_encode by metis
  have pay: "FramePacket_EncodePayload q = Inr y" using y(1) by (simp add: pad_inv_def counted_def)
  then have b: "length b = HeaderLength (fp_Header q) + length y"
    using assms(6) hb by (auto simp: FramePacket_Encode_def)
  have off: "pn_offset h + tpn_Length (GetTruncatedPN h) = HeaderLength h"
    using sendable_encode [OF assms(2,3)] by metis
  have "4 \<le> tpn_Length (GetTruncatedPN h) + length y"
  proof (cases "length y < 64")
    case True
    have "len_len (fp_Header q) = len_len h"
      using len_len_small [OF wfq, of "length y"] len_len_small [OF assms(3,4,5)] True y
      by (cases h; cases "fp_Header q") (auto simp: pad_inv_def counted_def)
    then show ?thesis using strip_same(5) [OF y(2)] b off assms(7) by linarith
  qed simp
  with pay y(2) show ?thesis by blast
qed

lemma framer_set_framer: "framer p = Some q \<Longrightarrow> framer (set_framer r p) = Some r"
  by (cases p) auto

lemma set_framer_twice: "set_framer a (set_framer b p) = set_framer a p"
  by (cases p) auto

text \<open>
  Two rounds are enough. The packet that comes out carries the frames of the packet and PADDING, under the same header up
  to the length.
\<close>

lemma encrypt_two_rounds:
  assumes k: "write_keys level c w hp" and f: "framer p = Some q" and s: "sendable (fp_Header q)"
    and x: "FramePacket_EncodePayload q = Inr x" "length x < 2 ^ 61"
  obtains h hb y r where
    "EncodeAndEncrypt seal_fuel p level c = Some (Inr (Some (protected_bytes w hp h hb y), set_framer r p))"
    "padded q r" "fp_Header r = h" "strip h = strip (fp_Header q)" "wf_len h" "Header_Encode h = Inr hb"
    "FramePacket_EncodePayload r = Inr y" "4 \<le> tpn_Length (GetTruncatedPN h) + length y"
    "\<forall>l. h = Long l \<longrightarrow> length_value h = of_nat (tpn_Length (GetTruncatedPN h) + length y + 16)"
    "length y < 2 ^ 61"
proof -
  from seal_round [OF k s x] obtain h hb where r: "strip h = strip (fp_Header q)" "wf_len h" "Header_Encode h = Inr hb"
    "set_Length (of_nat (tpn_Length (GetTruncatedPN h) + length x + 16)) (fp_Header q) = Inr h"
    "seal q level c = Inr (if tpn_Length (GetTruncatedPN h) + length x < 4 then TooShort (pn_offset h + 4)
                           else Sealed (protected_bytes w hp h hb x), q\<lparr>fp_Header := h\<rparr>)" by metis
  have hb: "length hb = HeaderLength h" "pn_offset h + tpn_Length (GetTruncatedPN h) = HeaderLength h"
    using sendable_encode [of h] r(2,3) strip_same(1) [OF r(1)] s by (metis Inr_inject)+
  let ?q = "q\<lparr>fp_Header := h\<rparr>"
  have pq: "padded q ?q" using strip_same [OF r(1)] by (auto simp: padded_def intro: exI [of _ 0])
  have pay: "FramePacket_EncodePayload ?q = Inr x" using x(1) by (simp add: FramePacket_EncodePayload_def)
  note lv = set_Length_strip(3) [OF r(4)]
  show thesis
  proof (cases "tpn_Length (GetTruncatedPN h) + length x < 4")
    case False
    then show ?thesis
      using r pq pay lv f x(2) by (intro that [of h hb x ?q]) (simp_all add: seal_fuel_def numeral_2_eq_2)
  next
    case True
    have e: "FramePacket_Encode ?q = Inr (hb @ x)" using pay r(3) by (simp add: FramePacket_Encode_def)
    have sh: "sendable h" using strip_same(1) [OF r(1)] s by simp
    then have small: "HeaderLength h < 2 ^ 49" by (rule sendable_small [OF _ r(2)])
    obtain t b where t: "PadTo (pn_offset h + 4) ?q = Inr t" "FramePacket_Encode t = Inr b" "padded ?q t"
      "pn_offset h + 4 \<le> length b" "length b \<le> max (length (hb @ x) + 7) (pn_offset h + 4 + 4)"
      using PadTo_spec [OF e, of "pn_offset h + 4"] small True hb by fastforce
    obtain y where y: "FramePacket_EncodePayload t = Inr y" "4 \<le> tpn_Length (GetTruncatedPN h) + length y"
      "strip (fp_Header t) = strip h"
      using padded_enough [OF t(1) sh r(2) lv _ t(2,4)] True by auto
    have y61: "length y < 2 ^ 61"
      using t(2,5) y(1) small True hb by (auto simp: FramePacket_Encode_def)
    moreover have "sendable (fp_Header t)" using strip_same(1) [OF y(3)] sh by simp
    ultimately obtain h' hb' where r': "strip h' = strip (fp_Header t)" "wf_len h'" "Header_Encode h' = Inr hb'"
      "set_Length (of_nat (tpn_Length (GetTruncatedPN h') + length y + 16)) (fp_Header t) = Inr h'"
      "seal t level c = Inr (if tpn_Length (GetTruncatedPN h') + length y < 4 then TooShort (pn_offset h' + 4)
                           else Sealed (protected_bytes w hp h' hb' y), t\<lparr>fp_Header := h'\<rparr>)"
      using seal_round [OF k _ y(1)] by metis
    have same: "GetTruncatedPN h' = GetTruncatedPN h" using strip_same(4) r'(1) y(3) by metis
    let ?t = "t\<lparr>fp_Header := h'\<rparr>"
    have "padded t ?t" using strip_same [OF r'(1)] by (auto simp: padded_def intro: exI [of _ 0])
    then have "padded q ?t" using padded_trans [OF padded_trans [OF pq t(3)]] by blast
    moreover have "EncodeAndEncrypt seal_fuel p level c =
        Some (Inr (Some (protected_bytes w hp h' hb' y), set_framer ?t p))"
      using r(5) r'(5) True y(2) same f t(1)
      by (simp add: seal_fuel_def numeral_2_eq_2 framer_set_framer [OF f] set_framer_twice)
    ultimately show ?thesis
      using r' y y61 r(1) same set_Length_strip(3) [OF r'(4)]
      by (intro that [of h' hb' y ?t]) (simp_all add: FramePacket_EncodePayload_def)
  qed
qed

section \<open>Properties\<close>

text \<open>
  C33. Encryption returns: with the keys of the level installed, every packet that can be written is encrypted after at most one padded retry of
  the recursive call, without a panic. The datagram consists of the header, the payload and the tag; the packet kept for
  retransmission is the original one with PADDING added.
\<close>

theorem encrypt_returns:
  assumes "write_keys level c w hp" "framer p = Some q" "sendable (fp_Header q)"
    "FramePacket_EncodePayload q = Inr x" "length x < 2 ^ 61"
  shows "\<exists>b r y. EncodeAndEncrypt seal_fuel p level c = Some (Inr (Some b, set_framer r p)) \<and> padded q r \<and>
    FramePacket_EncodePayload r = Inr y \<and> length b = HeaderLength (fp_Header r) + length y + 16"
proof -
  obtain h hb y r where r:
    "EncodeAndEncrypt seal_fuel p level c = Some (Inr (Some (protected_bytes w hp h hb y), set_framer r p))"
    "padded q r" "fp_Header r = h" "strip h = strip (fp_Header q)" "wf_len h" "Header_Encode h = Inr hb"
    "FramePacket_EncodePayload r = Inr y"
    using encrypt_two_rounds [OF assms] by metis
  have "length hb = HeaderLength h"
    using sendable_encode [of h] r(5,6) strip_same(1) [OF r(4)] assms(3) by (metis Inr_inject)
  moreover have "length (aead_Encrypt w y n a) = length y + 16" for n a
    using assms(1) by (simp add: write_keys_def aead_ok_def)
  ultimately have "length (protected_bytes w hp h hb y) = HeaderLength h + length y + 16"
    by (simp add: protected_bytes_def Let_def)
  with r show ?thesis by blast
qed

text \<open>A pair of functions with the lengths the code relies on, to show that the hypotheses can hold.\<close>

definition plain_AEAD :: AEAD where
  "plain_AEAD = \<lparr>aead_Overhead = 16, aead_Encrypt = (\<lambda>x n a. x @ replicate 16 0),
     aead_Decrypt = (\<lambda>x n a. if 16 \<le> length x then Some (take (length x - 16) x) else None)\<rparr>"

definition plain_keys :: CryptoState where
  "plain_keys = \<lparr>cs_Read = Some plain_AEAD, cs_Write = Some plain_AEAD, cs_HeaderRead = Some (\<lambda>iv x. x),
     cs_HeaderWrite = Some (\<lambda>iv x. x)\<rparr>"

lemma plain_write_keys: "write_keys level (c\<lparr>c_CryptoStates := \<lambda>_. Some plain_keys\<rparr>) plain_AEAD (\<lambda>iv x. x)"
  by (simp add: write_keys_def Connection_CryptoState_def plain_keys_def aead_ok_def cipher_ok_def plain_AEAD_def)

lemma encrypt_returns_witness:
  "\<forall>c :: Connection. \<exists>b p. EncodeAndEncrypt 2 (ProtectedP (new_FramePacket (Short \<lparr>sh_SpinBit = False,
      sh_KeyPhase = False, sh_DestinationCID = [7], sh_TruncatedPN = \<lparr>tpn_Value = 5, tpn_Length = 1\<rparr>,
      sh_PacketNumber = 5\<rparr>) [PingFrame])) EncryptionLevel1RTT (c\<lparr>c_CryptoStates := \<lambda>_. Some plain_keys\<rparr>) =
    Some (Inr (Some b, p))"
proof
  fix c :: Connection
  let ?q = "new_FramePacket (Short \<lparr>sh_SpinBit = False, sh_KeyPhase = False, sh_DestinationCID = [7],
      sh_TruncatedPN = \<lparr>tpn_Value = 5, tpn_Length = 1\<rparr>, sh_PacketNumber = 5\<rparr>) [PingFrame]"
  have "sendable (fp_Header ?q)" by (simp add: new_FramePacket_def wf_TruncatedPN_def)
  moreover have "FramePacket_EncodePayload ?q = Inr [1]"
    by (simp add: FramePacket_EncodePayload_def new_FramePacket_def WriteVarInt_def EncodeVarInt_type frame_types)
  ultimately show "\<exists>b p. EncodeAndEncrypt 2 (ProtectedP ?q) EncryptionLevel1RTT
      (c\<lparr>c_CryptoStates := \<lambda>_. Some plain_keys\<rparr>) = Some (Inr (Some b, p))"
    using encrypt_returns [OF plain_write_keys, of "ProtectedP ?q" ?q "[1]" EncryptionLevel1RTT c]
    by (simp add: seal_fuel_def) blast
qed

end
