(* ===== verification/Parse.thy ===== *)
theory Parse
  imports Protect
begin

text \<open>
  The receiving side: the parsing agent (\<^verbatim>\<open>agents/parse_agent.go\<close>).

  The comparison of frames by the package \<^verbatim>\<open>cmp\<close> is a parameter. The results: a datagram produced by
  \<^verbatim>\<open>EncodeAndEncrypt\<close> is decrypted and parsed by a peer with the matching keys to the packet that was sent; the removal of retransmitted frames by
  index is a filter and never goes out of range; the loop over a datagram ends; and the places where a
  datagram from the network panics the agent.
\<close>

section \<open>Retransmitted frames\<close>

text \<open>A frame that was logged before, by \<^verbatim>\<open>cmp.Equal\<close> or by the comparison of STREAM frames.\<close>

definition same_stream_data :: "Frame \<Rightarrow> Frame \<Rightarrow> bool" where
  "same_stream_data f g =
     (case f of
        StreamF a \<Rightarrow>
          (case g of
             StreamF b \<Rightarrow> sf_StreamData a = sf_StreamData b \<and> sf_StreamId a = sf_StreamId b \<and> sf_Offset a = sf_Offset b
           | _ \<Rightarrow> False)
      | _ \<Rightarrow> False)"

fun is_logged :: "(Frame \<Rightarrow> Frame \<Rightarrow> bool) \<Rightarrow> PNSpace \<Rightarrow> Frame \<Rightarrow> Frame list \<Rightarrow> bool" where
  "is_logged cmpEqual space frame [] = False"
| "is_logged cmpEqual space frame (loggedFrame # rest) =
     (if cmpEqual frame loggedFrame then True
      else if space = PNSpaceAppData \<and> FrameType frame = StreamType \<and> same_stream_data frame loggedFrame then True
      else is_logged cmpEqual space frame rest)"

text \<open>
  The loop over the indices of the frames the packet had at its start: \<open>k\<close> indices are left, \<open>initIndex\<close> is the current one, and
  \<open>deleted\<close> frames have been removed.
\<close>

fun filter_loop ::
    "(Frame \<Rightarrow> Frame \<Rightarrow> bool) \<Rightarrow> PNSpace \<Rightarrow> (FrameType \<Rightarrow> Frame list) \<Rightarrow> nat \<Rightarrow> nat \<Rightarrow> nat \<Rightarrow> FramePacket \<Rightarrow>
     FramePacket res" where
  "filter_loop cmpEqual space logged 0 initIndex deleted p = Inr p"
| "filter_loop cmpEqual space logged (Suc k) initIndex deleted p =
     (let index = initIndex - deleted in
      if index < length (fp_Frames p) then
        (let frame = fp_Frames p ! index in
         if FrameType frame = StreamDataBlockedType \<or> FrameType frame = StreamsBlockedType
         then filter_loop cmpEqual space logged k (initIndex + 1) deleted p
         else if FrameType frame = PingType \<or> is_logged cmpEqual space frame (logged (FrameType frame)) then
           bind_res (RemoveAtIndex index p) (\<lambda>p.
           filter_loop cmpEqual space logged k (initIndex + 1) (deleted + 1) p)
         else filter_loop cmpEqual space logged k (initIndex + 1) deleted p)
      else Inl IndexOutOfRange)"

definition filterOutRetransmits ::
    "(Frame \<Rightarrow> Frame \<Rightarrow> bool) \<Rightarrow> PNSpace \<Rightarrow> (FrameType \<Rightarrow> Frame list) \<Rightarrow> FramePacket \<Rightarrow> FramePacket res" where
  "filterOutRetransmits cmpEqual space logged p =
     filter_loop cmpEqual space logged (length (fp_Frames p)) 0 0 p"

text \<open>The abstract version: the frames that are kept.\<close>

definition kept :: "(Frame \<Rightarrow> Frame \<Rightarrow> bool) \<Rightarrow> PNSpace \<Rightarrow> (FrameType \<Rightarrow> Frame list) \<Rightarrow> Frame \<Rightarrow> bool" where
  "kept cmpEqual space logged f \<longleftrightarrow>
     FrameType f = StreamDataBlockedType \<or> FrameType f = StreamsBlockedType \<or>
     (FrameType f \<noteq> PingType \<and> \<not> is_logged cmpEqual space f (logged (FrameType f)))"

lemma filter_loop_filter:
  "fp_Frames p = done @ todo \<Longrightarrow> length done + deleted = initIndex \<Longrightarrow>
   filter_loop cmpEqual space logged (length todo) initIndex deleted p =
     Inr (p\<lparr>fp_Frames := done @ filter (kept cmpEqual space logged) todo\<rparr>)"
proof (induction todo arbitrary: p "done" initIndex deleted)
  case Nil
  then show ?case by simp
next
  case (Cons f fs)
  let ?q = "p\<lparr>fp_Frames := done @ fs\<rparr>"
  have i: "initIndex - deleted = length done" "fp_Frames p ! length done = f" "length done < length (fp_Frames p)"
    using Cons.prems by auto
  have rm: "RemoveAtIndex (length done) p = Inr ?q"
    using Cons.prems(1) by (simp add: RemoveAtIndex_def)
  show ?case
  proof (cases "kept cmpEqual space logged f")
    case True
    with i Cons.IH [of p "done @ [f]" deleted "initIndex + 1"] Cons.prems show ?thesis
      by (auto simp: Let_def kept_def frame_types)
  next
    case False
    with i rm Cons.IH [of ?q "done" "deleted + 1" "initIndex + 1"] Cons.prems show ?thesis
      by (auto simp: Let_def kept_def)
  qed
qed

lemma filterOutRetransmits_filter:
  "filterOutRetransmits cmpEqual space logged p =
     Inr (p\<lparr>fp_Frames := filter (kept cmpEqual space logged) (fp_Frames p)\<rparr>)"
  unfolding filterOutRetransmits_def using filter_loop_filter [of p "[]" "fp_Frames p" 0 0] by simp

section \<open>Header protection removed\<close>

text \<open>
  \<^verbatim>\<open>ciphertext\<close> with the mask removed from the first byte and, for the length that byte then tells, from the packet number.
\<close>

definition unprotect_header :: "bytes \<Rightarrow> nat \<Rightarrow> bytes \<Rightarrow> bytes res" where
  "unprotect_header msk pnOffset ciphertext =
     (let firstByteMask = (if ciphertext ! 0 AND 0x80 = 0x80 then 0x0F else 0x1F);
          b = mask_first msk firstByteMask ciphertext;
          pnLength = unat (b ! 0 AND 0x3) + 1
      in if length msk < 1 + pnLength \<or> length b < pnOffset + pnLength then Inl IndexOutOfRange
         else Inr (mask_pn msk pnOffset pnLength b))"

section \<open>The loop over a datagram\<close>

text \<open>
  One round: the agent stops with the datagram, or continues with what is left after the consumed bytes.
\<close>

datatype parsed = Stop | Next nat

text \<open>
  The part after a packet was read: retransmissions are removed, the frames are logged, and the packet number is noted.
\<close>

definition log_frames :: "PNSpace \<Rightarrow> Frame list \<Rightarrow> Connection \<Rightarrow> Connection" where
  "log_frames space fs c =
     c\<lparr>c_ReceiveFrameBuffer := fold (\<lambda>f m. m(space := (m space)(FrameType f := m space (FrameType f) @ [f])))
         fs (c_ReceiveFrameBuffer c)\<rparr>"

definition note_number :: "PNSpace \<Rightarrow> PacketNumber \<Rightarrow> Connection \<Rightarrow> Connection" where
  "note_number space pn c =
     (if pn > c_LargestPNsReceived c space
      then c\<lparr>c_LargestPNsReceived := (c_LargestPNsReceived c)(space := pn)\<rparr> else c)"

definition after_read ::
    "(Frame \<Rightarrow> Frame \<Rightarrow> bool) \<Rightarrow> PacketContext \<Rightarrow> nat \<Rightarrow> Packet \<Rightarrow> Connection \<Rightarrow> Connection res" where
  "after_read cmpEqual ctx consumed packet c =
     (let deliver = (\<lambda>packet c. c\<lparr>c_IncomingPackets := c_IncomingPackets c @
              [SetReceiveContext (ctx\<lparr>pc_PacketSize := of_nat consumed\<rparr>) packet]\<rparr>)
      in case framer packet of
           None \<Rightarrow> Inr (deliver packet c)
         | Some p \<Rightarrow>
             (let space = Packet_PNSpace packet in
              bind_res (filterOutRetransmits cmpEqual space (c_ReceiveFrameBuffer c space) p) (\<lambda>p.
              Inr (deliver (set_framer p packet)
                (note_number space (GetPacketNumber (fp_Header p)) (log_frames space (fp_Frames p) c))))))"

text \<open>The decryption and reading of the three kinds of packets, after header protection is removed.\<close>

definition open_long ::
    "(Frame \<Rightarrow> Frame \<Rightarrow> bool) \<Rightarrow> PacketContext \<Rightarrow> LongHeader \<Rightarrow> AEAD \<Rightarrow> bytes \<Rightarrow> Connection \<Rightarrow> (parsed \<times> Connection) res" where
  "open_long cmpEqual ctx h r ciphertext c =
     (let hLen = LongHeader_HeaderLength h;
          pLen = int (unat (vi_Value (lh_Length h))) - int (tpn_Length (lh_TruncatedPN h))
      in if int hLen + pLen > int (length ciphertext) then Inr (Stop, c)
         else if pLen < 0 then Inl SliceBounds
         else
           (case aead_Decrypt r (take (nat pLen) (drop hLen ciphertext)) (lh_PacketNumber h) (take hLen ciphertext) of
              None \<Rightarrow> Inr (Stop, c)
            | Some payload \<Rightarrow>
                (let cleartext = take hLen ciphertext @ payload; consumed = hLen + nat pLen in
                 if lh_PacketType h = Initial then
                   bind_res (ReadInitialPacket (NewReader cleartext) c) (\<lambda>(p, c).
                   bind_res (after_read cmpEqual ctx consumed (InitialP p) c) (\<lambda>c. Inr (Next consumed, c)))
                 else
                   bind_res (ReadHandshakePacket (NewReader cleartext) c) (\<lambda>(p, c).
                   bind_res (after_read cmpEqual ctx consumed (HandshakeP p) c) (\<lambda>c. Inr (Next consumed, c))))))"

text \<open>For a short header and a Retry packet the whole datagram (\<open>size0\<close> bytes) counts as consumed.\<close>

definition open_short ::
    "(Frame \<Rightarrow> Frame \<Rightarrow> bool) \<Rightarrow> PacketContext \<Rightarrow> nat \<Rightarrow> Header \<Rightarrow> AEAD \<Rightarrow> bytes \<Rightarrow> Connection \<Rightarrow> (parsed \<times> Connection) res" where
  "open_short cmpEqual ctx size0 h r ciphertext c =
     (let hLen = HeaderLength h in
      case aead_Decrypt r (drop hLen ciphertext) (GetPacketNumber h) (take hLen ciphertext) of
        None \<Rightarrow>
          (let statelessResetToken = drop (length ciphertext - 16) ciphertext in
           case h_ReceivedParameters (c_TLSTPHandler c) of
             None \<Rightarrow> Inl NilPointer
           | Some rp \<Rightarrow>
               if statelessResetToken = nil_bytes (tp_StatelessResetToken rp) then
                 bind_res (ReadStatelessResetPacket (NewReader ciphertext)) (\<lambda>p.
                 bind_res (after_read cmpEqual ctx size0 (StatelessResetP p) c) (\<lambda>c. Inr (Next size0, c)))
               else Inr (Stop, c))
      | Some payload \<Rightarrow>
          bind_res (ReadProtectedPacket (NewReader (take hLen ciphertext @ payload)) c) (\<lambda>(p, c).
          bind_res (after_read cmpEqual ctx size0 (ProtectedP p) c) (\<lambda>c. Inr (Next size0, c))))"

text \<open>
  The second switch on the type, for the types whose header protection was removed. That leaves the type bits alone, so a
  long header is none of a Retry packet here; a 0-RTT packet is not opened.
\<close>

fun open_packet ::
    "(Frame \<Rightarrow> Frame \<Rightarrow> bool) \<Rightarrow> PacketContext \<Rightarrow> nat \<Rightarrow> Header \<Rightarrow> AEAD \<Rightarrow> bytes \<Rightarrow> Connection \<Rightarrow> (parsed \<times> Connection) res" where
  "open_packet cmpEqual ctx size0 (Long h) r ciphertext c =
     (if lh_PacketType h \<in> {Handshake, Initial} then open_long cmpEqual ctx h r ciphertext c else Inr (Stop, c))"
| "open_packet cmpEqual ctx size0 (Short h) r ciphertext c = open_short cmpEqual ctx size0 (Short h) r ciphertext c"

text \<open>The condition \<^verbatim>\<open>cryptoState != nil && cryptoState.HeaderRead != nil && cryptoState.Read != nil\<close>, with the keys.\<close>

definition read_keys :: "EncryptionLevel \<Rightarrow> Connection \<Rightarrow> (AEAD \<times> Cipher) option" where
  "read_keys level c =
     (case Connection_CryptoState level c of
        None \<Rightarrow> None
      | Some cs \<Rightarrow> (case (cs_Read cs, cs_HeaderRead cs) of (Some r, Some hp) \<Rightarrow> Some (r, hp) | _ \<Rightarrow> None))"

definition parse_one ::
    "(Frame \<Rightarrow> Frame \<Rightarrow> bool) \<Rightarrow> PacketContext \<Rightarrow> nat \<Rightarrow> bytes \<Rightarrow> Connection \<Rightarrow> (parsed \<times> Connection) res" where
  "parse_one cmpEqual ctx size0 ciphertext c =
     (if ciphertext ! 0 AND 0x80 = 0x80 \<and> length ciphertext < 5 then Inl SliceBounds
      else if ciphertext ! 0 AND 0x80 = 0x80 \<and> take 4 (drop 1 ciphertext) = [0, 0, 0, 0] then
        bind_res (ReadVersionNegotationPacket (NewReader ciphertext)) (\<lambda>p.
        Inr (Stop, c\<lparr>c_IncomingPackets := c_IncomingPackets c @
          [SetReceiveContext (ctx\<lparr>pc_PacketSize := of_nat (length ciphertext)\<rparr>) (VersionNegotiationP p)]\<rparr>))
      else
        bind_res (ReadHeader (NewReader ciphertext) c) (\<lambda>(header, _).
        if GetPacketType header \<in> {Initial, Handshake, ZeroRTTProtected, ShortHeaderPacket} then
          (case read_keys (Header_EncryptionLevel header) c of
             Some (r, hp) \<Rightarrow>
               (case GetPacketSample header ciphertext of
                  (None, _) \<Rightarrow> Inr (Stop, c)
                | (Some sample, pnOffset) \<Rightarrow>
                    bind_res (unprotect_header (hp sample (replicate 5 0)) pnOffset ciphertext) (\<lambda>ciphertext.
                    bind_res (ReadHeader (NewReader ciphertext) c) (\<lambda>(header, _).
                    open_packet cmpEqual ctx size0 header r ciphertext c)))
           | None \<Rightarrow>
               Inr (Stop, c\<lparr>c_UnprocessedPayloads := c_UnprocessedPayloads c @
                 [\<lparr>up_IncomingPayload = \<lparr>ip_PacketContext = ctx, ip_Payload = ciphertext\<rparr>,
                   up_EncryptionLevel = Header_EncryptionLevel header\<rparr>]\<rparr>))
        else if GetPacketType header = Retry then
          bind_res (ReadRetryPacket (NewReader ciphertext) c) (\<lambda>p.
          bind_res (after_read cmpEqual ctx size0 (RetryP p) c) (\<lambda>c. Inr (Next size0, c)))
        else Inr (Stop, c)))"


lemma LongHeader_HeaderLength_pos: "0 < LongHeader_HeaderLength h"
  by (simp add: LongHeader_HeaderLength_def Let_def)

lemma open_long_Next: "open_long cmpEqual ctx h r b c = Inr (Next n, c') \<Longrightarrow> 0 < n \<and> n \<le> length b"
  using LongHeader_HeaderLength_pos [of h]
  by (auto simp: open_long_def Let_def split: if_splits option.splits)

lemma open_short_Next: "open_short cmpEqual ctx n h r b c = Inr (Next k, c') \<Longrightarrow> k = n"
  by (auto simp: open_short_def Let_def split: if_splits option.splits)

lemma open_packet_Next: "open_packet cmpEqual ctx n h r b c = Inr (Next k, c') \<Longrightarrow> 0 < k \<or> k = n"
  by (cases h) (auto dest: open_long_Next open_short_Next split: if_splits)

lemma parse_one_Next:
  assumes "parse_one cmpEqual ctx size0 b c = Inr (Next n, c')"
  shows "0 < n \<or> n = size0"
  using assms
  by (auto simp: parse_one_def split: if_splits option.splits prod.splits dest: open_packet_Next)

text \<open>
  The loop \<^verbatim>\<open>for off < len(ic.Payload)\<close> on what is left of a datagram of \<open>size0\<close> bytes; it ends because every round
  consumes something.
\<close>

function parse_loop ::
    "(Frame \<Rightarrow> Frame \<Rightarrow> bool) \<Rightarrow> PacketContext \<Rightarrow> nat \<Rightarrow> bytes \<Rightarrow> Connection \<Rightarrow> Connection res" where
  "parse_loop cmpEqual ctx size0 b c =
     (if b = [] \<or> size0 = 0 then Inr c
      else bind_res (parse_one cmpEqual ctx size0 b c) (\<lambda>x.
           case x of (Stop, c') \<Rightarrow> Inr c' | (Next n, c') \<Rightarrow> parse_loop cmpEqual ctx size0 (drop n b) c'))"
  by pat_completeness auto
termination
  by (relation "measure (\<lambda>(_, _, _, b, _). length b)") (auto dest: parse_one_Next)

declare parse_loop.simps [simp del]

definition parse_incoming ::
    "(Frame \<Rightarrow> Frame \<Rightarrow> bool) \<Rightarrow> IncomingPayload \<Rightarrow> Connection \<Rightarrow> Connection res" where
  "parse_incoming cmpEqual ic c =
     parse_loop cmpEqual (ip_PacketContext ic) (length (ip_Payload ic)) (ip_Payload ic) c"

section \<open>Reading the header under its protection\<close>

text \<open>
  The first reading of a header sees the masked packet number and its masked length. Only these differ: all that the
  offset of the packet number depends on is read as it was written.
\<close>

definition same_offset :: "Header \<Rightarrow> Header \<Rightarrow> bool" where
  "same_offset h h' \<longleftrightarrow> pn_offset h' = pn_offset h \<and> GetPacketType h' = GetPacketType h"

lemma rd_number_offset:
  assumes "wf_long h" "VarInt_Encode (lh_Length h) = Inr l"
  shows "\<exists>t pn r. rd_number (lh_PacketType h) tb conn (Reader d (l @ rest)) = (lh_Length h, t, pn, r)"
proof -
  obtain t r where "ReadTruncatedPN (Reader (rev l @ d) rest) (unat (tb AND 3) + 1) = (t, r)" by fastforce
  then show ?thesis
    using assms(1) wf_long_bits(4) [OF assms(1)]
    by (simp add: rd_number_def wf_long_def rd_VarInt_struct [OF _ assms(2)])
qed

lemma ReadLongHeader_masked:
  assumes "LongHeader_Encode h = Inr b" "wf_long h" "drop_bit 4 (tb - 0xC0) = lh_PacketType h"
  shows "\<exists>h' r. ReadLongHeader (Reader d (tb # take (pn_offset (Long h) - 1) (tl b) @ rest)) conn = Inr (h', r) \<and>
    same_offset (Long h) (Long h')"
proof -
  obtain k l where l: "VarInt_Encode (lh_Length h) = Inr l"
    and k: "lh_PacketType h = Initial \<and> VarInt_Encode (lh_TokenLength h) = Inr k \<or> lh_PacketType h \<noteq> Initial \<and> k = []"
    and b: "b = typeByte_long h # PutUint32 (lh_Version h) @ CIDL (lh_DestinationCID h) # lh_DestinationCID h @
       CIDL (lh_SourceCID h) # lh_SourceCID h @ k @ lh_Token h @ l @ TruncatedPN_Encode (lh_TruncatedPN h)"
    using LongHeader_Encode_parts [OF assms(1,2)] by metis
  let ?pre = "PutUint32 (lh_Version h) @ CIDL (lh_DestinationCID h) # lh_DestinationCID h @
       CIDL (lh_SourceCID h) # lh_SourceCID h @ k @ lh_Token h @ l"
  have len: "length (TruncatedPN_Encode (lh_TruncatedPN h)) = tpn_Length (lh_TruncatedPN h)"
    using assms(2) length_TruncatedPN_Encode by (simp add: wf_long_def)
  have "pn_offset (Long h) = Suc (length ?pre)"
    using LongHeader_Encode_length(1) [OF assms(1,2)] len by (simp add: pn_offset_def b)
  then have t: "take (pn_offset (Long h) - 1) (tl b) = ?pre" by (simp add: b)
  have cid: "length (lh_DestinationCID h) < 256" "length (lh_SourceCID h) < 256"
    using assms(2) by (auto simp: wf_long_def)
  let ?d = "rev (lh_Token h) @ rev k @ rev (lh_SourceCID h) @ CIDL (lh_SourceCID h) # rev (lh_DestinationCID h) @
    CIDL (lh_DestinationCID h) # rev (PutUint32 (lh_Version h)) @ tb # d"
  obtain t pn r where n: "rd_number (lh_PacketType h) tb conn (Reader ?d (l @ rest)) = (lh_Length h, t, pn, r)"
    using rd_number_offset [OF assms(2) l] by blast
  have "ReadLongHeader (Reader d (tb # ?pre @ rest)) conn =
    Inr (h\<lparr>lh_LowerBits := tb AND 0x0F,
      lh_TokenLength := (if lh_PacketType h = Initial then lh_TokenLength h else zero_VarInt),
      lh_PacketNumber := pn, lh_TruncatedPN := t\<rparr>, r)"
    using n cid
    by (simp add: ReadLongHeader_def Let_def rd_byte_Cons rd_u32_PutUint32 rd_cid_written
        assms(3) rd_token_written [OF assms(2) k])
  then show ?thesis unfolding t
    by (auto simp: same_offset_def pn_offset_def LongHeader_HeaderLength_def Let_def)
qed

lemma ReadShortHeader_masked:
  assumes "length (sh_DestinationCID s) = length (c_SourceCID conn)" "length (c_SourceCID conn) < 256"
  shows "\<exists>s' r. ReadShortHeader (Reader d (tb # sh_DestinationCID s @ rest)) conn = Inr (s', r) \<and>
    same_offset (Short s) (Short s')"
proof -
  have m: "make_Read (length (c_SourceCID conn)) (Reader (tb # d) (sh_DestinationCID s @ rest)) =
      Inr (sh_DestinationCID s, Reader (rev (sh_DestinationCID s) @ tb # d) rest)"
    using assms by (intro make_Read_append) (auto simp: maxAlloc_def)
  obtain t r where "ReadTruncatedPN (Reader (rev (sh_DestinationCID s) @ tb # d) rest) (unat (tb AND 3) + 1) = (t, r)"
    by fastforce
  then show ?thesis by (simp add: ReadShortHeader_def rd_byte_Cons m same_offset_def pn_offset_def)
qed

text \<open>The masks leave the form bit alone, and for a long header the type bits.\<close>

lemma masked_form:
  "(x XOR (k AND 0x0F)) AND 0x80 = x AND (0x80 :: u8)" "(x XOR (k AND 0x1F)) AND 0x80 = x AND (0x80 :: u8)"
  by (simp_all add: bit.conj_xor_distrib2 and.assoc)

lemma high_nibble: "\<forall>y :: u8. drop_bit 4 (y - 0xC0) = (drop_bit 4 y - 0xC) AND 0xF"
  by code_simp

lemma masked_type: "drop_bit 4 ((x XOR (k AND 0x0F)) - 0xC0) = drop_bit 4 ((x :: u8) - 0xC0)"
proof -
  have "drop_bit 4 (x XOR (k AND 0x0F)) = drop_bit 4 x" by (rule bit_word_eqI) (auto simp: bit_simps)
  then show ?thesis by (simp only: high_nibble [rule_format])
qed

lemma ReadHeader_masked:
  assumes "Header_Encode h = Inr hb" "wf_header c h"
  shows "\<exists>h' r. ReadHeader (Reader d ((hb ! 0 XOR (k AND first_byte_mask h)) # take (pn_offset h - 1) (tl hb) @ rest)) c =
     Inr (h', r) \<and> same_offset h h'"
proof (cases h)
  case (Long l)
  then have l: "LongHeader_Encode l = Inr hb" "wf_long l" "first_byte_mask (Long l) = 0x0F"
    using assms by (auto simp: first_byte_mask_def wf_long_def packet_types)
  have hb0: "hb ! 0 = typeByte_long l" using LongHeader_Encode_parts [OF l(1,2)] by (metis nth_Cons_0)
  let ?tb = "typeByte_long l XOR (k AND 0x0F)"
  have tb: "drop_bit 4 (?tb - 0xC0) = lh_PacketType l" "?tb AND 0x80 = 0x80"
    using masked_type wf_long_bits(1,2) [OF l(2)] masked_form(1) by simp_all
  from ReadLongHeader_masked [OF l(1,2) tb(1), of d rest c] obtain h' r where
    "ReadLongHeader (Reader d (?tb # take (pn_offset (Long l) - 1) (tl hb) @ rest)) c = Inr (h', r)"
    "same_offset (Long l) (Long h')" by blast
  then show ?thesis
    by (intro exI [of _ "Long h'"] exI [of _ r]) (simp add: Long l(3) hb0 ReadHeader_Long [OF tb(2)])
next
  case (Short s)
  then have s: "hb = ShortHeader_Encode s" "wf_short c s" "first_byte_mask (Short s) = 0x1F"
    using assms by (auto simp: first_byte_mask_def)
  let ?tb = "typeByte_short s XOR (k AND 0x1F)"
  have "?tb AND 0x80 \<noteq> 0x80"
    using s(2) typeByte_short_bits(1) [of s] masked_form(2) by (simp add: wf_short_def wf_TruncatedPN_def)
  moreover have "take (pn_offset h - 1) (tl hb) = sh_DestinationCID s" "hb ! 0 = typeByte_short s"
    by (simp_all add: Short s(1) ShortHeader_Encode_def pn_offset_def)
  moreover have "\<exists>s' r. ReadShortHeader (Reader d (?tb # sh_DestinationCID s @ rest)) c = Inr (s', r) \<and>
      same_offset (Short s) (Short s')"
    using s(2) by (intro ReadShortHeader_masked) (auto simp: wf_short_def)
  ultimately show ?thesis
    by (auto simp: Short s(3) ReadHeader_Short)
qed

section \<open>The protection is removed\<close>

lemma take_mask_pn: "off + n \<le> length b \<Longrightarrow> take off (mask_pn msk off n b) = take off b"
  by (intro nth_equalityI) (auto simp: nth_mask_pn)

lemma masked_shape:
  assumes "0 < off" "off + n \<le> length b"
  shows "mask_pn msk off n (mask_first msk m b) =
    (b ! 0 XOR (msk ! 0 AND m)) # take (off - 1) (tl b) @ drop off (mask_pn msk off n (mask_first msk m b))"
proof -
  have "take off (mask_pn msk off n (mask_first msk m b)) = take off (mask_first msk m b)"
    using assms by (intro take_mask_pn) simp
  also have "\<dots> = (b ! 0 XOR (msk ! 0 AND m)) # take (off - 1) (tl b)"
    using assms by (cases b; cases off) (simp_all add: mask_first_def)
  finally show ?thesis by (metis append_Cons append_take_drop_id)
qed

lemma unprotect_protected:
  assumes "0 < off" "off + n \<le> length b" "n = unat (b ! 0 AND 3) + 1" "n < length msk"
    "m = (if b ! 0 AND 0x80 = 0x80 then 0x0F else 0x1F)"
  shows "unprotect_header msk off (mask_pn msk off n (mask_first msk m b)) = Inr b"
proof -
  let ?B = "mask_pn msk off n (mask_first msk m b)"
  have ne: "b \<noteq> []" using assms by auto
  have B0: "?B ! 0 = b ! 0 XOR (msk ! 0 AND m)"
    using masked_shape [OF assms(1,2), of msk m] by (metis nth_Cons_0)
  have "?B ! 0 AND 0x80 = b ! 0 AND 0x80"
    unfolding B0 using masked_form assms(5) by auto
  then have m: "(if ?B ! 0 AND 0x80 = 0x80 then 0x0F else 0x1F) = m" using assms(5) by simp
  have "mask_first msk m ?B = mask_pn msk off n b"
    using mask_first_pn_commute [of off n "mask_first msk m b" msk m] assms(1,2) ne
    by (simp add: mask_first_twice) (metis length_0_conv length_mask_first)
  moreover have "mask_pn msk off n b ! 0 = b ! 0" using assms(1,2) by (simp add: nth_mask_pn)
  ultimately show ?thesis
    using assms(2-4) mask_pn_twice [OF assms(2)] m by (simp add: unprotect_header_def Let_def)
qed

section \<open>A protected packet is opened\<close>

text \<open>The first bytes of a written header.\<close>

lemma header_start_long:
  assumes "LongHeader_Encode l = Inr hb" "wf_long l"
  obtains t where "hb = typeByte_long l # PutUint32 (lh_Version l) @ t" "4 < pn_offset (Long l)"
proof -
  have "4 < pn_offset (Long l)" by (simp add: pn_offset_def LongHeader_HeaderLength_def Let_def)
  then show thesis using that LongHeader_Encode_parts [OF assms] by metis
qed

lemma header_start:
  assumes "Header_Encode h = Inr hb" "wf_header c h"
  shows "hb \<noteq> []" "hb ! 0 AND 0x80 = 0x80 \<longleftrightarrow> (\<exists>l. h = Long l)"
    "unat (hb ! 0 AND 3) + 1 = tpn_Length (GetTruncatedPN h)"
    "first_byte_mask h = (if hb ! 0 AND 0x80 = 0x80 then 0x0F else 0x1F)"
proof -
  consider (long) l t where "h = Long l" "wf_long l" "hb = typeByte_long l # t"
    | (short) s t where "h = Short s" "hb = typeByte_short s # t" "tpn_Length (sh_TruncatedPN s) \<in> {1, 2, 3, 4}"
    using assms header_start_long
    by (cases h) (auto simp: ShortHeader_Encode_def wf_short_def wf_TruncatedPN_def, metis)
  then have "hb \<noteq> [] \<and> (hb ! 0 AND 0x80 = 0x80 \<longleftrightarrow> (\<exists>l. h = Long l)) \<and>
    unat (hb ! 0 AND 3) + 1 = tpn_Length (GetTruncatedPN h) \<and>
    first_byte_mask h = (if hb ! 0 AND 0x80 = 0x80 then 0x0F else 0x1F)"
  proof cases
    case long
    moreover have "lh_PacketType l \<noteq> ShortHeaderPacket" using long(2) by (auto simp: wf_long_def packet_types)
    ultimately show ?thesis using wf_long_bits [OF long(2)] by (simp add: first_byte_mask_def)
  next
    case short
    then show ?thesis using typeByte_short_bits [OF short(3)] by (simp add: first_byte_mask_def)
  qed
  then show "hb \<noteq> []" "hb ! 0 AND 0x80 = 0x80 \<longleftrightarrow> (\<exists>l. h = Long l)"
    "unat (hb ! 0 AND 3) + 1 = tpn_Length (GetTruncatedPN h)"
    "first_byte_mask h = (if hb ! 0 AND 0x80 = 0x80 then 0x0F else 0x1F)" by blast+
qed

text \<open>What a packet must be for its protection to be removed again: a header as it is written, enough bytes to sample, no version 0.\<close>

definition sealed_ok :: "AEAD \<Rightarrow> Cipher \<Rightarrow> Connection \<Rightarrow> Header \<Rightarrow> bytes \<Rightarrow> bytes \<Rightarrow> bool" where
  "sealed_ok w hp c h hb y \<longleftrightarrow> Header_Encode h = Inr hb \<and> wf_header c h \<and> aead_ok w \<and> cipher_ok hp \<and>
     4 \<le> tpn_Length (GetTruncatedPN h) + length y \<and> (\<forall>l. h = Long l \<longrightarrow> lh_Version l \<noteq> 0)"

lemma PutUint32_zero: "PutUint32 v = [0, 0, 0, 0] \<Longrightarrow> v = 0"
  using BE_PutUint32 [of v] by (simp add: BE_Uint32_def eval_nat_numeral)

lemma header_offset:
  assumes "Header_Encode h = Inr hb" "wf_header c h"
  shows "pn_offset h + tpn_Length (GetTruncatedPN h) = HeaderLength h" "0 < pn_offset h"
    "tpn_Length (GetTruncatedPN h) \<le> 4"
  using assms LongHeader_Encode_length(1)
  by (cases h; fastforce simp: pn_offset_def LongHeader_HeaderLength_def ShortHeader_HeaderLength_def Let_def
      wf_long_def wf_short_def wf_TruncatedPN_def)+

lemma protected_shape:
  assumes "sealed_ok w hp c h hb y"
  obtains m rest where "length m = 5"
    "protected_bytes w hp h hb y = mask_pn m (pn_offset h) (tpn_Length (GetTruncatedPN h))
       (mask_first m (first_byte_mask h) (hb @ aead_Encrypt w y (GetPacketNumber h) hb))"
    "protected_bytes w hp h hb y =
       (hb ! 0 XOR (m ! 0 AND first_byte_mask h)) # take (pn_offset h - 1) (tl hb) @ rest"
    "length (protected_bytes w hp h hb y) = HeaderLength h + length y + 16"
    "\<And>h'. pn_offset h' = pn_offset h \<Longrightarrow> \<exists>sample. GetPacketSample h' (protected_bytes w hp h hb y) = (Some sample, pn_offset h) \<and>
       hp sample (replicate 5 0) = m"
proof -
  let ?b = "hb @ aead_Encrypt w y (GetPacketNumber h) hb"
  let ?m = "hp (take 16 (drop (pn_offset h + 4) ?b)) (replicate 5 0)"
  let ?k = "tpn_Length (GetTruncatedPN h)"
  let ?B = "mask_pn ?m (pn_offset h) ?k (mask_first ?m (first_byte_mask h) ?b)"
  have e: "Header_Encode h = Inr hb" "wf_header c h" "4 \<le> ?k + length y"
    and len: "length ?m = 5" "length (aead_Encrypt w y (GetPacketNumber h) hb) = length y + 16"
    using assms by (auto simp: sealed_ok_def aead_ok_def cipher_ok_def)
  have hb: "length hb = HeaderLength h" "pn_offset h + ?k = HeaderLength h" "0 < pn_offset h" "?k \<le> 4"
    using Header_Encode_length [OF e(1,2)] header_offset [OF e(1,2)] by auto
  have B: "protected_bytes w hp h hb y = ?B" by (simp add: protected_bytes_def Let_def)
  have off: "pn_offset h + ?k \<le> length ?b" using hb(1,2) by simp
  have "?b ! 0 = hb ! 0" "take (pn_offset h - 1) (tl ?b) = take (pn_offset h - 1) (tl hb)"
    using hb header_start(1) [OF e(1,2)] by (cases hb; simp)+
  then have 3: "?B = (hb ! 0 XOR (?m ! 0 AND first_byte_mask h)) # take (pn_offset h - 1) (tl hb) @ drop (pn_offset h) ?B"
    using masked_shape [OF hb(3) off, of ?m "first_byte_mask h"] by simp
  have "drop (pn_offset h + 4) ?B = drop (pn_offset h + 4) ?b"
    using drop_mask_pn [of "pn_offset h" ?k "pn_offset h + 4"] drop_mask_first [of "pn_offset h + 4"] off hb(4) by simp
  then have 5: "pn_offset h' = pn_offset h \<Longrightarrow> GetPacketSample h' ?B = (Some (take 16 (drop (pn_offset h + 4) ?b)), pn_offset h)" for h'
    using hb len(2) e(3) by (simp add: GetPacketSample_def Let_def)
  have 4: "length ?B = HeaderLength h + length y + 16" using len(2) hb(1) by simp
  show thesis by (rule that [of ?m "drop (pn_offset h) ?B"], unfold B) (rule len(1), rule refl, rule 3, rule 4, use 5 in blast)
qed

text \<open>One round of the loop gets back to the bytes before protection.\<close>

lemma parse_one_protected:
  assumes "sealed_ok w hp c h hb y" "read_keys (Header_EncryptionLevel h) c = Some (r, hp)"
    "GetPacketType h \<in> {Initial, Handshake, ZeroRTTProtected, ShortHeaderPacket}"
  shows "parse_one cmpEqual ctx n (protected_bytes w hp h hb y) c =
    open_packet cmpEqual ctx n (received_header c h) r (hb @ aead_Encrypt w y (GetPacketNumber h) hb) c"
proof -
  let ?B = "protected_bytes w hp h hb y"
  let ?b = "hb @ aead_Encrypt w y (GetPacketNumber h) hb"
  have e: "Header_Encode h = Inr hb" "wf_header c h" using assms(1) by (auto simp: sealed_ok_def)
  note st = header_start [OF e] and off = header_offset [OF e]
  obtain m rest where m: "length m = 5"
    "?B = mask_pn m (pn_offset h) (tpn_Length (GetTruncatedPN h)) (mask_first m (first_byte_mask h) ?b)"
    "?B = (hb ! 0 XOR (m ! 0 AND first_byte_mask h)) # take (pn_offset h - 1) (tl hb) @ rest"
    "length ?B = HeaderLength h + length y + 16"
    "\<And>h'. pn_offset h' = pn_offset h \<Longrightarrow> \<exists>sample. GetPacketSample h' ?B = (Some sample, pn_offset h) \<and>
       hp sample (replicate 5 0) = m"
    using protected_shape [OF assms(1)] by metis
  obtain h' r' where h': "ReadHeader (NewReader ?B) c = Inr (h', r')" "pn_offset h' = pn_offset h"
    "GetPacketType h' = GetPacketType h"
    using ReadHeader_masked [OF e, of "[]" "m ! 0" rest] m(3) by (auto simp: NewReader_def same_offset_def)
  have b0: "?b ! 0 = hb ! 0" using st(1) by (cases hb) simp_all
  have un: "unprotect_header m (pn_offset h) ?B = Inr ?b"
    unfolding m(2) using off st(3,4) m(1) b0 Header_Encode_length(1) [OF e]
    by (intro unprotect_protected) simp_all
  have again: "ReadHeader (NewReader ?b) c = Inr (received_header c h, Reader (rev hb) (aead_Encrypt w y (GetPacketNumber h) hb))"
    using ReadHeader_written [OF e, of "[]"] by (simp add: NewReader_def)
  have form: "?B ! 0 AND 0x80 = hb ! 0 AND 0x80"
    using m(3) st(4) masked_form by (metis nth_Cons_0)
  have long: "4 < length ?B \<and> take 4 (drop 1 ?B) \<noteq> [0, 0, 0, 0]" if B0: "?B ! 0 AND 0x80 = 0x80"
  proof -
    obtain l where l: "h = Long l" using B0 form st(2) by auto
    with e obtain t where t: "hb = typeByte_long l # PutUint32 (lh_Version l) @ t" "4 < pn_offset h"
      using header_start_long by (metis Header_Encode.simps(1) wf_header.simps(1))
    have "take 4 (drop 1 ?B) = PutUint32 (lh_Version l)"
      using t(2) by (subst m(3)) (simp add: t(1))
    then show ?thesis
      using PutUint32_zero assms(1) l t(2) off(1) m(4) by (auto simp: sealed_ok_def)
  qed
  have lev: "Header_EncryptionLevel h' = Header_EncryptionLevel h" by (simp add: Header_EncryptionLevel_def h'(3))
  obtain sample where s: "GetPacketSample h' ?B = (Some sample, pn_offset h)" "hp sample (replicate 5 0) = m"
    using m(5) [OF h'(2)] by blast
  have "parse_one cmpEqual ctx n ?B c = (if GetPacketType h' \<in> {Initial, Handshake, ZeroRTTProtected, ShortHeaderPacket}
     then open_packet cmpEqual ctx n (received_header c h) r ?b c else Inr (Stop, c))"
    using long assms(3) h'(3) unfolding parse_one_def h'(1) bind_res.simps
    by (auto simp: lev assms(2) s un again)
  then show ?thesis using h'(3) assms(3) by simp
qed

text \<open>The kinds of packets the parser opens, with the header of their kind.\<close>

fun opened :: "Packet \<Rightarrow> bool" where
  "opened (InitialP q) \<longleftrightarrow> GetPacketType (fp_Header q) = Initial"
| "opened (HandshakeP q) \<longleftrightarrow> GetPacketType (fp_Header q) = Handshake"
| "opened (ProtectedP q) \<longleftrightarrow> (\<exists>s. fp_Header q = Short s)"
| "opened _ \<longleftrightarrow> False"

text \<open>The packet as its receiver reads it, and the state after it was delivered.\<close>

definition received_packet :: "Connection \<Rightarrow> Packet \<Rightarrow> FramePacket \<Rightarrow> Packet" where
  "received_packet c p q = set_framer (new_FramePacket (received_header c (fp_Header q)) (fp_Frames q)) p"

definition delivered ::
    "(Frame \<Rightarrow> Frame \<Rightarrow> bool) \<Rightarrow> PacketContext \<Rightarrow> nat \<Rightarrow> Packet \<Rightarrow> FramePacket \<Rightarrow> Connection \<Rightarrow> Connection res" where
  "delivered cmpEqual ctx n p q c =
     bind_res (receive_frames (Packet_PNSpace p) (fp_Frames q) c) (after_read cmpEqual ctx n (received_packet c p q))"

lemma received_header_length: "HeaderLength (received_header c h) = HeaderLength h"
  by (cases h) (simp_all add: received_long_def LongHeader_HeaderLength_def ShortHeader_HeaderLength_def Let_def)

lemma open_packet_sealed:
  assumes "opened p" "framer p = Some q" "fp_Header q = h" "FramePacket_EncodePayload q = Inr y"
    "frames_ok (fp_Frames q)" "sealed_ok w hp c h hb y"
    "\<forall>l. h = Long l \<longrightarrow> unat (length_value h) = tpn_Length (GetTruncatedPN h) + length y + 16"
    "GetPacketNumber (received_header c h) = GetPacketNumber h"
    "\<And>x n a. aead_Decrypt r (aead_Encrypt w x n a) n a = Some x"
    "n = HeaderLength h + length y + 16"
  shows "open_packet cmpEqual ctx n (received_header c h) r (hb @ aead_Encrypt w y (GetPacketNumber h) hb) c =
    bind_res (delivered cmpEqual ctx n p q c) (\<lambda>c. Inr (Next n, c))"
proof -
  have e: "Header_Encode h = Inr hb" "wf_header c h" "\<And>x n a. length (aead_Encrypt w x n a) = length x + 16"
    using assms(6) by (auto simp: sealed_ok_def aead_ok_def)
  have len: "length hb = HeaderLength h" using Header_Encode_length [OF e(1,2)] by simp
  have enc: "FramePacket_Encode q = Inr (hb @ y)" using assms(3,4) e(1) by (simp add: FramePacket_Encode_def)
  note rd = packet_read [OF enc _ assms(5), of c, unfolded assms(3), OF e(2)]
  show ?thesis
  proof (cases h)
    case (Long l)
    then have p: "p = InitialP q \<and> lh_PacketType l = Initial \<or> p = HandshakeP q \<and> lh_PacketType l = Handshake"
      using assms(1-3) by (cases p) auto
    have hl: "LongHeader_HeaderLength (received_long c l) = length hb" "lh_PacketType (received_long c l) = lh_PacketType l"
      "lh_Length (received_long c l) = lh_Length l" "lh_TruncatedPN (received_long c l) = lh_TruncatedPN l"
      "lh_PacketNumber (received_long c l) = lh_PacketNumber l"
      using received_header_length [of c h] len assms(8) by (simp_all add: Long received_long_def)
    have pl: "int (unat (vi_Value (lh_Length l))) - int (tpn_Length (lh_TruncatedPN l)) = int (length y + 16)"
      using assms(7) by (simp add: Long)
    show ?thesis
      unfolding Long received_header.simps open_packet.simps open_long_def Let_def hl pl nat_int
      using p rd len
      by (auto simp: Long e(3) assms(9,10) bind_res_assoc delivered_def received_packet_def packet_types assms(3) add.assoc)
  next
    case (Short s)
    then have p: "p = ProtectedP q" using assms(1-3) by (cases p) (auto simp: packet_types)
    have ne: "GetPacketNumber (received_header c (Short s)) = GetPacketNumber h"
      "HeaderLength (received_header c (Short s)) = length hb"
      using assms(8) received_header_length [of c h] len by (simp_all only: Short)
    obtain s' where s': "received_header c (Short s) = Short s'" by simp
    show ?thesis
      unfolding Short s' open_packet.simps open_short_def Let_def ne [unfolded s']
      using rd by (simp add: p assms(3,9) Short s' bind_res_assoc delivered_def received_packet_def)
  qed
qed

section \<open>Properties\<close>

lemma frames_ok_padded:
  assumes "\<forall>f \<in> set fs. wf_frame [0] f"
  shows "frames_ok (fs @ replicate n PaddingFrame)"
proof -
  have "wf_frame [] f" if "wf_frame [0] f" for f using that by (cases f) auto
  moreover have "frames_ok gs" if "\<forall>f \<in> set gs. wf_frame [0] f \<and> wf_frame [] f" for gs
    using that by (induction gs) auto
  moreover have "wf_frame [0] f" if "f \<in> set (fs @ replicate n PaddingFrame)" for f
    using that assms by auto
  ultimately show ?thesis by blast
qed

text \<open>
  What the receiving connection must have for the header \<open>h\<close>: the matching keys, received enough to complete the packet
  number, and for a short header a connection identifier of the length it expects.
\<close>

definition can_receive :: "AEAD \<Rightarrow> Cipher \<Rightarrow> AEAD \<Rightarrow> Header \<Rightarrow> Connection \<Rightarrow> bool" where
  "can_receive w hp r h c \<longleftrightarrow> read_keys (Header_EncryptionLevel h) c = Some (r, hp) \<and>
     (\<forall>x n a. aead_Decrypt r (aead_Encrypt w x n a) n a = Some x) \<and>
     GetPacketNumber (received_header c h) = GetPacketNumber h \<and>
     (case h of Long l \<Rightarrow> lh_Version l \<noteq> 0 | Short s \<Rightarrow> length (sh_DestinationCID s) = length (c_SourceCID c))"

lemma can_receive_strip:
  assumes "strip h = strip h'" "can_receive w hp r h' c"
  shows "can_receive w hp r h c"
  using assms(2)
  by (cases rule: strip_cases [OF assms(1)])
    (auto simp: can_receive_def Header_EncryptionLevel_def received_long_def)

lemma sendable_wf_header:
  assumes "sendable h" "wf_len h" "can_receive w hp r h c"
  shows "wf_header c h"
  using assms by (cases h) (auto simp: wf_long_sendable wf_short_def can_receive_def simp del: sendable.simps(1))

lemma strip_Short: "strip a = strip b \<Longrightarrow> (\<exists>s. a = Short s) = (\<exists>s. b = Short s)"
  by (cases a; cases b) simp_all

lemma opened_strip:
  assumes "opened p" "framer p = Some q" "strip (fp_Header r) = strip (fp_Header q)"
  shows "opened (set_framer r p)"
  using assms(1,2) strip_same(3) [OF assms(3)] strip_Short [OF assms(3)] by (cases p) simp_all

lemma opened_type: "opened p \<Longrightarrow> framer p = Some q \<Longrightarrow>
    GetPacketType (fp_Header q) \<in> {Initial, Handshake, ZeroRTTProtected, ShortHeaderPacket}"
  by (cases p) auto

text \<open>
  C1. A datagram gets through: what \<^verbatim>\<open>EncodeAndEncrypt\<close> makes of a packet is taken apart by the parser of a peer with the matching keys into the same
  packet, with the same frames in the same order followed by PADDING only, and its frames have been applied to the
  peer's streams in that order; the whole datagram is consumed.
\<close>

theorem datagram_transport:
  assumes "write_keys level s w hp" "opened p" "framer p = Some q" "sendable (fp_Header q)"
    "FramePacket_EncodePayload q = Inr x" "length x < 2 ^ 61" "\<forall>f \<in> set (fp_Frames q). wf_frame [0] f"
    "can_receive w hp r (fp_Header q) c"
  shows "\<exists>b t. EncodeAndEncrypt seal_fuel p level s = Some (Inr (Some b, set_framer t p)) \<and> padded q t \<and>
    parse_incoming cmpEqual \<lparr>ip_PacketContext = ctx, ip_Payload = b\<rparr> c = delivered cmpEqual ctx (length b) p t c"
proof -
  obtain h hb y t where t:
    "EncodeAndEncrypt seal_fuel p level s = Some (Inr (Some (protected_bytes w hp h hb y), set_framer t p))"
    "padded q t" "fp_Header t = h" "strip h = strip (fp_Header q)" "wf_len h" "Header_Encode h = Inr hb"
    "FramePacket_EncodePayload t = Inr y" "4 \<le> tpn_Length (GetTruncatedPN h) + length y"
    "\<forall>l. h = Long l \<longrightarrow> length_value h = of_nat (tpn_Length (GetTruncatedPN h) + length y + 16)" "length y < 2 ^ 61"
    using encrypt_two_rounds [OF assms(1,3-6)] by metis
  let ?B = "protected_bytes w hp h hb y"
  have cr: "can_receive w hp r h c" using can_receive_strip [OF t(4) assms(8)] .
  have wf: "wf_header c h" using sendable_wf_header [OF _ t(5) cr] strip_same(1) [OF t(4)] assms(4) by simp
  have ok: "sealed_ok w hp c h hb y"
    using wf t(6,8) assms(1) cr by (auto simp: sealed_ok_def write_keys_def can_receive_def)
  have fs: "frames_ok (fp_Frames t)" using t(2) frames_ok_padded [OF assms(7)] by (auto simp: padded_def)
  have "tpn_Length (GetTruncatedPN h) \<le> 4" using header_offset(3) [OF t(6) wf] .
  then have "unat (of_nat (tpn_Length (GetTruncatedPN h) + length y + 16) :: u64) =
      tpn_Length (GetTruncatedPN h) + length y + 16"
    using t(10) by (intro unat_of_nat_u64) simp
  then have lv: "\<forall>l. h = Long l \<longrightarrow> unat (length_value h) = tpn_Length (GetTruncatedPN h) + length y + 16"
    using t(9) by metis
  have len: "length ?B = HeaderLength h + length y + 16" using protected_shape [OF ok] by metis
  have op: "opened (set_framer t p)" "framer (set_framer t p) = Some t"
    using opened_strip [OF assms(2,3)] t(3,4) framer_set_framer [OF assms(3)] by simp_all
  have "delivered cmpEqual ctx n (set_framer t p) t = delivered cmpEqual ctx n p t" for n
    using assms(3) by (cases p) (simp_all add: delivered_def received_packet_def fun_eq_iff)
  then have one: "parse_one cmpEqual ctx (length ?B) ?B c = bind_res (delivered cmpEqual ctx (length ?B) p t c) (\<lambda>c. Inr (Next (length ?B), c))"
    using parse_one_protected [OF ok, of r cmpEqual ctx "length ?B"] opened_type [OF op]
      open_packet_sealed [OF op t(3,7) fs ok lv, of r "length ?B" cmpEqual ctx] cr len
    by (simp add: can_receive_def t(3))
  have "?B \<noteq> []" using len by auto
  then have "parse_incoming cmpEqual \<lparr>ip_PacketContext = ctx, ip_Payload = ?B\<rparr> c = delivered cmpEqual ctx (length ?B) p t c"
    unfolding parse_incoming_def
    by (cases "delivered cmpEqual ctx (length ?B) p t c")
      (simp_all add: parse_loop.simps [of _ _ _ ?B] parse_loop.simps [of _ _ _ "[]"] one)
  with t(1,2) show ?thesis by blast
qed


text \<open>The toy keys of the sending side decrypt as well.\<close>

lemma plain_can_receive:
  assumes "GetPacketNumber (received_header c h) = GetPacketNumber h"
    "case h of Long l \<Rightarrow> lh_Version l \<noteq> 0 | Short s \<Rightarrow> length (sh_DestinationCID s) = length (c_SourceCID c)"
    "c_CryptoStates c = (\<lambda>_. Some plain_keys)"
  shows "can_receive plain_AEAD (\<lambda>iv x. x) plain_AEAD h c"
  using assms
  by (auto simp: can_receive_def read_keys_def Connection_CryptoState_def plain_keys_def plain_AEAD_def)

lemma datagram_transport_witness:
  "\<forall>c :: Connection. \<exists>b t.
    EncodeAndEncrypt seal_fuel (ProtectedP (new_FramePacket (Short \<lparr>sh_SpinBit = False,
      sh_KeyPhase = False, sh_DestinationCID = [7], sh_TruncatedPN = \<lparr>tpn_Value = 1, tpn_Length = 1\<rparr>,
      sh_PacketNumber = 1\<rparr>) [PingFrame])) EncryptionLevel1RTT (c\<lparr>c_CryptoStates := \<lambda>_. Some plain_keys\<rparr>) =
      Some (Inr (Some b, set_framer t (ProtectedP (new_FramePacket (Short \<lparr>sh_SpinBit = False,
      sh_KeyPhase = False, sh_DestinationCID = [7], sh_TruncatedPN = \<lparr>tpn_Value = 1, tpn_Length = 1\<rparr>,
      sh_PacketNumber = 1\<rparr>) [PingFrame])))) \<and>
    padded (new_FramePacket (Short \<lparr>sh_SpinBit = False,
      sh_KeyPhase = False, sh_DestinationCID = [7], sh_TruncatedPN = \<lparr>tpn_Value = 1, tpn_Length = 1\<rparr>,
      sh_PacketNumber = 1\<rparr>) [PingFrame]) t \<and>
    parse_incoming (=) \<lparr>ip_PacketContext = zero_PacketContext, ip_Payload = b\<rparr>
      (c\<lparr>c_CryptoStates := \<lambda>_. Some plain_keys, c_SourceCID := [7], c_LargestPNsReceived := \<lambda>_. 0\<rparr>) =
    delivered (=) zero_PacketContext (length b) (ProtectedP (new_FramePacket (Short \<lparr>sh_SpinBit = False,
      sh_KeyPhase = False, sh_DestinationCID = [7], sh_TruncatedPN = \<lparr>tpn_Value = 1, tpn_Length = 1\<rparr>,
      sh_PacketNumber = 1\<rparr>) [PingFrame])) t
      (c\<lparr>c_CryptoStates := \<lambda>_. Some plain_keys, c_SourceCID := [7], c_LargestPNsReceived := \<lambda>_. 0\<rparr>)"
proof
  fix c :: Connection
  let ?h = "Short \<lparr>sh_SpinBit = False, sh_KeyPhase = False, sh_DestinationCID = [7],
      sh_TruncatedPN = \<lparr>tpn_Value = 1, tpn_Length = 1\<rparr>, sh_PacketNumber = 1\<rparr>"
  let ?q = "new_FramePacket ?h [PingFrame]"
  let ?c = "c\<lparr>c_CryptoStates := \<lambda>_. Some plain_keys, c_SourceCID := [7], c_LargestPNsReceived := \<lambda>_. 0\<rparr>"
  have 1: "sendable (fp_Header ?q)" by (simp add: new_FramePacket_def wf_TruncatedPN_def)
  have 2: "FramePacket_EncodePayload ?q = Inr [1]"
    by (simp add: FramePacket_EncodePayload_def new_FramePacket_def WriteVarInt_def EncodeVarInt_type frame_types)
  have "Join \<lparr>tpn_Value = 1, tpn_Length = 1\<rparr> 0 = 1" by code_simp
  then have "can_receive plain_AEAD (\<lambda>iv x. x) plain_AEAD (fp_Header ?q) ?c"
    by (intro plain_can_receive) (simp_all add: new_FramePacket_def)
  moreover have "opened (ProtectedP ?q)" "framer (ProtectedP ?q) = Some ?q" "length [1 :: u8] < 2 ^ 61"
    "\<forall>f \<in> set (fp_Frames ?q). wf_frame [0] f" by (simp_all add: new_FramePacket_def)
  ultimately show "\<exists>b t. EncodeAndEncrypt seal_fuel (ProtectedP ?q) EncryptionLevel1RTT (c\<lparr>c_CryptoStates := \<lambda>_. Some plain_keys\<rparr>) =
        Some (Inr (Some b, set_framer t (ProtectedP ?q))) \<and> padded ?q t \<and>
      parse_incoming (=) \<lparr>ip_PacketContext = zero_PacketContext, ip_Payload = b\<rparr> ?c =
      delivered (=) zero_PacketContext (length b) (ProtectedP ?q) t ?c"
    using datagram_transport [OF plain_write_keys _ _ 1 2, of "ProtectedP ?q" plain_AEAD ?c EncryptionLevel1RTT c "(=)"
        zero_PacketContext] by blast
qed

text \<open>
  C34. The frames received before are removed by index while the slice shrinks; this equals a filter on the frames the packet
  came with, and no index goes out of range. PING frames are always dropped; STREAM_DATA_BLOCKED and STREAMS_BLOCKED never.
\<close>

theorem filter_equivalent:
  "filterOutRetransmits cmpEqual space logged p =
     Inr (p\<lparr>fp_Frames := filter (kept cmpEqual space logged) (fp_Frames p)\<rparr>)"
  by (rule filterOutRetransmits_filter)



end
