(* ===== verification/ConnOps.thy ===== *)
theory ConnOps
  imports Protect
begin

text \<open>
  The remaining operations of a connection (\<^verbatim>\<open>connection.go\<close>): making one, moving it to another version, the first flight, and the close
  and request helpers; with the maps between number spaces and epochs of \<^verbatim>\<open>common.go\<close>.

  The TLS stack (\<^verbatim>\<open>pigotls\<close>) is a parameter: a state \<open>'t\<close> and the functions the code calls on it. So are the random
  bytes. The result is the size of the first flight.
\<close>

section \<open>Number spaces, epochs and packet types\<close>

definition PNSpaceToEpoch :: "PNSpace \<Rightarrow> Epoch" where
  "PNSpaceToEpoch = go_lookup EpochInitial
    [(PNSpaceInitial, EpochInitial), (PNSpaceHandshake, EpochHandshake), (PNSpaceAppData, Epoch1RTT)]"

definition PacketTypeToPNSpace :: "PacketType \<Rightarrow> PNSpace" where
  "PacketTypeToPNSpace = go_lookup PNSpaceInitial
    [(Initial, PNSpaceInitial), (Handshake, PNSpaceHandshake), (ShortHeaderPacket, PNSpaceAppData)]"

definition PNSpaceToPacketType :: "PNSpace \<Rightarrow> PacketType" where
  "PNSpaceToPacketType = go_lookup Initial
    [(PNSpaceInitial, Initial), (PNSpaceHandshake, Handshake), (PNSpaceAppData, ShortHeaderPacket)]"

definition EpochToPNSpace :: "Epoch \<Rightarrow> PNSpace" where
  "EpochToPNSpace = go_lookup PNSpaceInitial
    [(EpochInitial, PNSpaceInitial), (EpochHandshake, PNSpaceHandshake), (Epoch0RTT, PNSpaceAppData),
     (Epoch1RTT, PNSpaceAppData)]"

definition PNSpace_Epoch :: "PNSpace \<Rightarrow> Epoch" where
  "PNSpace_Epoch pns = PNSpaceToEpoch pns"

section \<open>The TLS stack\<close>

text \<open>
  \<^verbatim>\<open>HandleMessage\<close> takes the bytes received and returns the messages to send, whether the handshake is not complete, and an error.
\<close>

record TlsMessage =
  tm_Epoch :: Epoch
  tm_Data :: bytes

record 't TlsStack =
  ts_NewConnection :: "string \<Rightarrow> string \<Rightarrow> bytes \<Rightarrow> 't"
  ts_SetQUICTransportParameters :: "bytes \<Rightarrow> 't \<Rightarrow> 't"
  ts_HandleMessage :: "bytes \<Rightarrow> Epoch \<Rightarrow> 't \<Rightarrow> (TlsMessage list \<times> bool \<times> string option) \<times> 't"
  ts_Keys :: "'t \<Rightarrow> Tls"
  ts_ZeroRTTSecret :: "'t \<Rightarrow> bytes"
  ts_HandshakeReadSecret :: "'t \<Rightarrow> bytes"
  ts_HandshakeWriteSecret :: "'t \<Rightarrow> bytes"
  ts_ProtectedReadSecret :: "'t \<Rightarrow> bytes"
  ts_ProtectedWriteSecret :: "'t \<Rightarrow> bytes"
  ts_ReceivedQUICTransportParameters :: "'t \<Rightarrow> bytes"
  ts_ResumptionTicket :: "'t \<Rightarrow> bytes"

section \<open>The operations\<close>

definition MinimumInitialLength :: nat where "MinimumInitialLength = 1252"
definition MinimumInitialLengthv6 :: nat where "MinimumInitialLengthv6 = 1232"
definition MaximumVersion :: u32 where "MaximumVersion = 0xff00001d"
definition MinimumVersion :: u32 where "MinimumVersion = 0xff00001c"

definition put_crypto_frame :: "PNSpace \<Rightarrow> bytes \<Rightarrow> Connection \<Rightarrow> CryptoFrame \<times> Connection" where
  "put_crypto_frame space data c =
     (case CryptoStreams_Get space (c_CryptoStreams c) of (s, m) \<Rightarrow>
      case NewCryptoFrame s data of (f, s) \<Rightarrow> (f, c\<lparr>c_CryptoStreams := m(space \<mapsto> s)\<rparr>))"

text \<open>\<^verbatim>\<open>err.Error()\<close> is called for a nil error when the handshake is complete already.\<close>

definition GetCryptoFrame ::
    "'t TlsStack \<Rightarrow> EncryptionLevel \<Rightarrow> 't \<Rightarrow> Connection \<Rightarrow> (CryptoFrame option \<times> 't \<times> Connection) res" where
  "GetCryptoFrame T encLevel t c =
     bind_res (GetExtensionData (c_TLSTPHandler c)) (\<lambda>extensionData.
     let t = ts_SetQUICTransportParameters T extensionData t in
     case ts_HandleMessage T [] (EncryptionLevelToEpoch encLevel) t of ((tlsOutput, notComplete, err), t) \<Rightarrow>
     if err \<noteq> None \<or> \<not> notComplete then (if err = None then Inl NilPointer else Inr (None, t, c))
     else if tlsOutput = [] then Inl IndexOutOfRange
     else
       (case put_crypto_frame (EncryptionLevelToPNSpace encLevel) (tm_Data (tlsOutput ! 0)) c of (cryptoFrame, c) \<Rightarrow>
        let c = (if length (ts_ZeroRTTSecret T t) > 0
                 then submit_level \<lparr>del_EncryptionLevel = EncryptionLevel0RTT, del_Read = False, del_Available = True\<rparr>
                        (c\<lparr>c_CryptoStates := (c_CryptoStates c)(EncryptionLevel0RTT \<mapsto>
                             NewProtectedCryptoState (ts_Keys T t) [] (ts_ZeroRTTSecret T t))\<rparr>)
                 else c)
        in Inr (Some cryptoFrame, t, c)))"

definition initial_length :: "Connection \<Rightarrow> nat" where
  "initial_length c = (if c_UseIPv6 c then MinimumInitialLengthv6 else MinimumInitialLength)"

definition write_overhead :: "EncryptionLevel \<Rightarrow> Connection \<Rightarrow> nat res" where
  "write_overhead level c =
     (case Connection_CryptoState level c of
        None \<Rightarrow> Inl NilPointer
      | Some cs \<Rightarrow> (case cs_Write cs of None \<Rightarrow> Inl NilPointer | Some w \<Rightarrow> Inr (aead_Overhead w)))"

definition GetInitialPacket ::
    "'t TlsStack \<Rightarrow> 't \<Rightarrow> Connection \<Rightarrow> (FramePacket option \<times> 't \<times> Connection) res" where
  "GetInitialPacket T t c =
     bind_res (GetCryptoFrame T EncryptionLevelInitial t c) (\<lambda>(cryptoFrame, t, c).
     case cryptoFrame of
       None \<Rightarrow> Inr (None, t, c)
     | Some f \<Rightarrow>
         bind_res (NewInitialPacket c) (\<lambda>(p, c).
         bind_res (write_overhead EncryptionLevelInitial c) (\<lambda>overhead.
         bind_res (PadTo (initial_length c - overhead) (AddFrame (Crypto f) p)) (\<lambda>p.
         Inr (Some p, t, c)))))"

text \<open>
  \<^verbatim>\<open>TransitionTo\<close> starts over: new TLS connection, parameters, keys, numbers and streams. The channels and the buffer of received frames
  stay, and so does the broadcaster the streams take their input from.
\<close>

definition TransitionTo :: "'t TlsStack \<Rightarrow> u32 \<Rightarrow> string \<Rightarrow> Connection \<Rightarrow> 't \<times> Connection" where
  "TransitionTo T version ALPN c =
     (let t = ts_NewConnection T (c_ServerName c) ALPN (c_ResumptionTicket c) in
      (t, c\<lparr>c_TLSTPHandler := NewTLSTransportParameterHandler (c_SourceCID c), c_Version := version, c_ALPN := ALPN,
            c_PacketNumber := \<lambda>_. 0, c_LargestPNsReceived := \<lambda>_. 0, c_LargestPNsAcknowledged := \<lambda>_. 0,
            c_AckQueue := \<lambda>_. [], c_TlsQueue := \<lambda>_. [], c_StreamQueue := \<lambda>_. [], c_FlowControlQueue := \<lambda>_. [],
            c_CryptoStates := [EncryptionLevelInitial \<mapsto> NewInitialPacketProtection (ts_Keys T t) (c_DestinationCID c)],
            c_CryptoStreams := Map.empty,
            c_Streams := \<lparr>streams = [], streams_input = streams_input (c_Streams c)\<rparr>\<rparr>))"

text \<open>
  The global variables \<^verbatim>\<open>QuicVersion\<close> and \<^verbatim>\<open>QuicALPNToken\<close> are returned. \<open>rnd\<close> are the bytes of \<^verbatim>\<open>rand.Read\<close>, which replace the
  destination identifier in place; \<open>shared\<close> tells whether the original identifier is the same slice, as \<^verbatim>\<open>NewConnection\<close> makes it, or
  whether the server has picked another one since.
\<close>

definition decimal2 :: "nat \<Rightarrow> string" where
  "decimal2 n = (if n < 100 then [char_of (48 + n div 10), char_of (48 + n mod 10)]
                 else [char_of (48 + n div 100), char_of (48 + n div 10 mod 10), char_of (48 + n mod 10)])"

definition alpn_token :: "string \<Rightarrow> u32 \<Rightarrow> string" where
  "alpn_token alpn version = takeWhile (\<lambda>x. x \<noteq> CHR ''-'') alpn @ ''-'' @ decimal2 (unat (version AND 0xff))"

definition pick_version :: "u32 list \<Rightarrow> u32" where
  "pick_version vs = fold (\<lambda>v version. if v \<ge> MinimumVersion \<and> v \<le> MaximumVersion then v else version) vs 0"

definition ProcessVersionNegotation ::
    "'t TlsStack \<Rightarrow> bytes \<Rightarrow> bool \<Rightarrow> VersionNegotiationPacket \<Rightarrow> Connection \<Rightarrow>
     string + ('t \<times> Connection \<times> u32 \<times> string)" where
  "ProcessVersionNegotation T rnd shared vn c =
     (let version = pick_version (vn_SupportedVersions vn) in
      if version = 0 then Inl ''no appropriate version found''
      else
        (let token = alpn_token (c_ALPN c) version;
             c = c\<lparr>c_DestinationCID := rnd,
                   c_OriginalDestinationCID := (if shared then rnd else c_OriginalDestinationCID c)\<rparr>
         in case TransitionTo T version token c of (t, c) \<Rightarrow> Inr (t, c, version, token)))"

definition CloseConnection :: "bool \<Rightarrow> u64 \<Rightarrow> bytes \<Rightarrow> Connection \<Rightarrow> Connection" where
  "CloseConnection quicLayer errCode reasonPhrase c =
     (if quicLayer then
        submit_frame \<lparr>qf_Frame = ConnectionClose \<lparr>cc_ErrorCode = errCode, cc_ErrorFrameType = 0,
          cc_ReasonPhraseLength = of_nat (length reasonPhrase), cc_ReasonPhrase = reasonPhrase\<rparr>,
          qf_EncryptionLevel = EncryptionLevelBest\<rparr> c
      else
        submit_frame \<lparr>qf_Frame = ApplicationClose \<lparr>ac_ErrorCode = errCode,
          ac_ReasonPhraseLength = of_nat (length reasonPhrase), ac_ReasonPhrase = reasonPhrase\<rparr>,
          qf_EncryptionLevel = EncryptionLevelBest\<rparr> c)"

text \<open>\<open>GET path\<close>, carriage return and line feed.\<close>

definition SendHTTP09GETRequest :: "string \<Rightarrow> u64 \<Rightarrow> Connection \<Rightarrow> Connection" where
  "SendHTTP09GETRequest path streamID c =
     c\<lparr>c_Streams := Streams_Send streamID (map of_char (''GET '' @ path @ [CHR 0x0D, CHR 0x0A])) True (c_Streams c)\<rparr>"

text \<open>A connection starts with empty channels; the rest is set by \<^verbatim>\<open>TransitionTo\<close>.\<close>

definition zero_Connection :: Connection where
  "zero_Connection =
     \<lparr>c_ServerName = [], c_UseIPv6 = False, c_TLSTPHandler = NewTLSTransportParameterHandler [],
      c_KeyPhaseIndex = 0, c_SpinBit = False, c_CryptoStates = Map.empty, c_CryptoStreams = Map.empty,
      c_Streams = \<lparr>streams = [], streams_input = NewBroadcaster\<rparr>, c_CurrentStreamID = 0,
      c_IncomingPackets = [], c_OutgoingPackets = [], c_IncomingPayloads = [], c_UnprocessedPayloads = [],
      c_EncryptionLevels = [], c_FrameQueue = [], c_TransportParameters = [], c_PreparePacket = [],
      c_SendPacket = [], c_PacketAcknowledged = [], c_OriginalDestinationCID = [], c_SourceCID = [],
      c_DestinationCID = [], c_Version = 0, c_ALPN = [], c_Token = [], c_ResumptionTicket = [],
      c_PacketNumber = \<lambda>_. 0, c_LargestPNsReceived = \<lambda>_. 0, c_LargestPNsAcknowledged = \<lambda>_. 0,
      c_MinRTT = 0, c_SmoothedRTT = 0, c_RTTVar = 0, c_AckQueue = \<lambda>_. [], c_TlsQueue = \<lambda>_. [],
      c_FlowControlQueue = \<lambda>_. [], c_StreamQueue = \<lambda>_. [], c_ReceiveFrameBuffer = \<lambda>_ _. []\<rparr>"

definition NewConnection ::
    "'t TlsStack \<Rightarrow> string \<Rightarrow> u32 \<Rightarrow> string \<Rightarrow> ConnectionID \<Rightarrow> ConnectionID \<Rightarrow> bytes \<Rightarrow> 't \<times> Connection" where
  "NewConnection T serverName version ALPN SCID DCID resumptionTicket =
     TransitionTo T version ALPN (zero_Connection\<lparr>c_ServerName := serverName, c_SourceCID := SCID,
       c_DestinationCID := DCID, c_OriginalDestinationCID := DCID, c_ResumptionTicket := resumptionTicket\<rparr>)"

section \<open>The first flight\<close>

lemma VarIntLen_mono: "unat i \<le> unat j \<Longrightarrow> VarIntLen i = Inr m \<Longrightarrow> VarIntLen j = Inr n \<Longrightarrow> m \<le> n"
  by (simp add: VarIntLen_def ranges split: if_splits)

lemma len_len_mono:
  assumes "strip h = strip h'" "wf_len h" "wf_len h'"
    "\<forall>l l'. h = Long l \<and> h' = Long l' \<longrightarrow> unat (length_value h) \<le> unat (length_value h')"
  shows "len_len h \<le> len_len h'"
proof (cases h)
  case h: (Long l)
  with assms(1) obtain l' where h': "h' = Long l'" by (cases h') auto
  show ?thesis
    using assms(2,3,4) h h' VarIntLen_mono [of "vi_Value (lh_Length l)" "vi_Value (lh_Length l')"]
    by (simp add: wf_VarInt_def)
qed simp

lemma padded_payload:
  assumes "padded p r" "FramePacket_EncodePayload p = Inr x" "FramePacket_EncodePayload r = Inr y"
  shows "length x \<le> length y"
  using assms by (auto simp: padded_def FramePacket_EncodePayload_def cat_res_append)

lemma PadTo_size:
  assumes "PadTo len q = Inr p"
  shows "\<exists>b. FramePacket_Encode p = Inr b \<and> len \<le> length b"
proof -
  obtain p' where p': "pad_loop len p' = Inr p" using assms by (auto simp: PadTo_def)
  then obtain a where "FramePacket_Encode p' = Inr a" by (auto simp: pad_loop.simps [of len p'])
  from pad_loop_size [OF p' this] show ?thesis by blast
qed

text \<open>A padded packet does not shrink when it is encrypted: the datagram has at least the tag in addition.\<close>

lemma encrypted_size:
  assumes k: "write_keys level c w hp" and f: "framer p = Some q" and s: "sendable (fp_Header q)"
    and q: "PadTo len q0 = Inr q" and x: "FramePacket_EncodePayload q = Inr x" "length x < 2 ^ 61"
  obtains b r where "EncodeAndEncrypt seal_fuel p level c = Some (Inr (Some b, set_framer r p))" "padded q r"
    "len + 16 \<le> length b"
proof -
  obtain h hb y r where r:
    "EncodeAndEncrypt seal_fuel p level c = Some (Inr (Some (protected_bytes w hp h hb y), set_framer r p))"
    "padded q r" "strip h = strip (fp_Header q)" "wf_len h" "Header_Encode h = Inr hb"
    "FramePacket_EncodePayload r = Inr y"
    "\<forall>l. h = Long l \<longrightarrow> length_value h = of_nat (tpn_Length (GetTruncatedPN h) + length y + 16)" "length y < 2 ^ 61"
    using encrypt_two_rounds [OF k f s x] by metis
  obtain z where "pad_inv q z" using PadTo_inv [OF q] by blast
  then have inv: "wf_len (fp_Header q)" "\<forall>l. fp_Header q = Long l \<longrightarrow> length_value (fp_Header q) = of_nat (length x)"
    using x(1) by (auto simp: pad_inv_def counted_def)
  have xy: "length x \<le> length y" by (rule padded_payload [OF r(2) x(1) r(6)])
  have k4: "tpn_Length (GetTruncatedPN h) \<le> 4"
    using strip_same(1,4) [OF r(3)] s by (cases "fp_Header q") (auto simp: wf_long_def wf_TruncatedPN_def)
  have u: "unat (of_nat (length x) :: u64) = length x"
    "unat (of_nat (tpn_Length (GetTruncatedPN h) + length y + 16) :: u64) = tpn_Length (GetTruncatedPN h) + length y + 16"
    using x(2) r(8) k4 by (intro unat_of_nat_u64; simp)+
  have "len_len (fp_Header q) \<le> len_len h"
  proof (rule len_len_mono [OF r(3) [symmetric] inv(1) r(4)])
    show "\<forall>l l'. fp_Header q = Long l \<and> h = Long l' \<longrightarrow> unat (length_value (fp_Header q)) \<le> unat (length_value h)"
    proof (intro allI impI)
      fix l l'
      assume "fp_Header q = Long l \<and> h = Long l'"
      with inv(2) r(7) have "length_value (fp_Header q) = of_nat (length x)"
        "length_value h = of_nat (tpn_Length (GetTruncatedPN h) + length y + 16)" by blast+
      with u xy show "unat (length_value (fp_Header q)) \<le> unat (length_value h)" by presburger
    qed
  qed
  then have hl: "HeaderLength (fp_Header q) \<le> HeaderLength h" using strip_same(5) [OF r(3)] by linarith
  obtain e where e: "FramePacket_Encode q = Inr e" "len \<le> length e" using PadTo_size [OF q] by blast
  have "length e = HeaderLength (fp_Header q) + length x"
    by (rule sendable_encode [OF s inv(1)]) (use e(1) x(1) in \<open>auto simp: FramePacket_Encode_def\<close>)
  moreover have "length hb = HeaderLength h"
    by (rule sendable_encode [of h]) (use r(4,5) strip_same(1) [OF r(3)] s in auto)
  moreover have "length (aead_Encrypt w y n a) = length y + 16" for n a
    using k by (simp add: write_keys_def aead_ok_def)
  ultimately have "len + 16 \<le> length (protected_bytes w hp h hb y)"
    using e(2) hl xy by (simp add: protected_bytes_def Let_def)
  with r(1,2) show thesis by (rule that)
qed

lemma NewInitialPacket_sendable:
  assumes "NewInitialPacket c = Inr (p, c')" "length (c_DestinationCID c) < 256" "length (c_SourceCID c) < 256"
    "length (c_OriginalDestinationCID c) < 256" "length (c_Token c) \<le> maxAlloc"
  shows "sendable (fp_Header p)"
proof -
  obtain h c1 where h: "NewLongHeader Initial c PNSpaceInitial = Inr (h, c1)"
    using assms(1) by (auto simp: NewInitialPacket_def)
  note wf = NewLongHeader_wf [OF h _ assms(2,4,3), of "\<lparr>vi_Value = 0, vi_Length = 1\<rparr>"]
  have v: "wf_VarInt \<lparr>vi_Value = 0, vi_Length = 1\<rparr>" by (simp add: wf_VarInt_def VarIntLen_def maxVarInt1_def)
  have t: "c_Token c1 = c_Token c" using wf(3) v by simp
  show ?thesis
  proof (cases "c_Token c = []")
    case True
    with assms(1) h t wf(1) v show ?thesis by (auto simp: NewInitialPacket_def new_FramePacket_def)
  next
    case False
    obtain n where n: "NewVarInt (of_nat (length (c_Token c))) = Inr n" "p = new_FramePacket (Long (h\<lparr>lh_Token := c_Token c, lh_TokenLength := n\<rparr>)) []"
      using assms(1) h t False by (auto simp: NewInitialPacket_def)
    have "unat (of_nat (length (c_Token c)) :: u64) = length (c_Token c)"
      using assms(5) by (intro unat_of_nat_u64) (simp add: maxAlloc_def)
    moreover have "lh_PacketType h = Initial"
      using h by (cases "nextPacketNumber PNSpaceInitial c") (auto simp: NewLongHeader_def)
    ultimately show ?thesis
      using wf(1) v n NewVarInt_wf [OF n(1)] assms(5) by (simp add: new_FramePacket_def wf_long_def)
  qed
qed

text \<open>The fields of a connection the headers are made from.\<close>

definition same_route :: "Connection \<Rightarrow> Connection \<Rightarrow> bool" where
  "same_route c c' \<longleftrightarrow> c_DestinationCID c' = c_DestinationCID c \<and> c_SourceCID c' = c_SourceCID c \<and>
     c_OriginalDestinationCID c' = c_OriginalDestinationCID c \<and> c_Token c' = c_Token c \<and>
     c_PacketNumber c' = c_PacketNumber c \<and> c_LargestPNsAcknowledged c' = c_LargestPNsAcknowledged c \<and>
     c_UseIPv6 c' = c_UseIPv6 c \<and> c_SendPacket c' = c_SendPacket c \<and>
     c_CryptoStates c' EncryptionLevelInitial = c_CryptoStates c EncryptionLevelInitial"

lemma GetCryptoFrame_Initial:
  assumes "GetExtensionData (c_TLSTPHandler c) = Inr ext" "c_CryptoStreams c PNSpaceInitial = None"
    "ts_HandleMessage T [] EpochInitial (ts_SetQUICTransportParameters T ext t) = ((m # ms, True, None), t')"
  shows "\<exists>c'. GetCryptoFrame T EncryptionLevelInitial t c =
      Inr (Some \<lparr>cf_Offset = 0, cf_Length = of_nat (length (tm_Data m)), cf_CryptoData = tm_Data m\<rparr>, t', c') \<and>
    same_route c c'"
  using assms
  by (simp add: GetCryptoFrame_def Let_def put_crypto_frame_def CryptoStreams_Get_def NewCryptoFrame_def
      EncryptionLevelToEpoch_def EncryptionLevelToPNSpace_def go_lookup_def NewStream_def same_route_def submit_level_def)

text \<open>The header carries the token of the connection, its destination and the next packet number.\<close>

definition on_route :: "Connection \<Rightarrow> LongHeader \<Rightarrow> bool" where
  "on_route c h \<longleftrightarrow> lh_Token h = c_Token c \<and> lh_DestinationCID h = c_DestinationCID c \<and>
     lh_PacketNumber h = c_PacketNumber c PNSpaceInitial"

lemma NewInitialPacket_returns:
  assumes "c_LargestPNsAcknowledged c PNSpaceInitial \<le> c_PacketNumber c PNSpaceInitial"
    "unat (c_PacketNumber c PNSpaceInitial) - unat (c_LargestPNsAcknowledged c PNSpaceInitial) + 1 < 2 ^ 32"
    "length (c_Token c) \<le> maxAlloc"
  shows "\<exists>h. NewInitialPacket c = Inr (new_FramePacket (Long h) [],
      c\<lparr>c_PacketNumber := (c_PacketNumber c)(PNSpaceInitial := c_PacketNumber c PNSpaceInitial + 1)\<rparr>) \<and>
    lh_Length h = zero_VarInt \<and> on_route c h"
proof -
  obtain tpn where "Truncate (c_PacketNumber c PNSpaceInitial) (c_LargestPNsAcknowledged c PNSpaceInitial) = Inr tpn"
    using Truncate_total [OF assms(1,2)] ..
  moreover have "fits62 (of_nat (length (c_Token c)))"
    using assms(3) by (intro fits62_of_nat) (simp add: maxAlloc_def)
  then obtain n where "NewVarInt (of_nat (length (c_Token c))) = Inr n"
    using EncodeVarInt_total VarIntLen_EncodeVarInt by (fastforce simp: NewVarInt_def)
  moreover have "PacketType_PNSpace Initial = PNSpaceInitial" "Initial \<noteq> ZeroRTTProtected"
    by (simp_all add: PacketType_PNSpace_def packetTypeToPNSPace_def go_lookup_def packet_types)
  ultimately show ?thesis
    by (simp add: NewInitialPacket_def NewLongHeader_def nextPacketNumber_def Let_def NewVarInt_0 new_FramePacket_def on_route_def)
qed

lemma first_packet_encodes:
  assumes "sendable (Long h)" "lh_Length h = zero_VarInt" "length d \<le> maxAlloc"
  shows "\<exists>a. FramePacket_Encode (AddFrame (Crypto \<lparr>cf_Offset = 0, cf_Length = of_nat (length d), cf_CryptoData = d\<rparr>)
      (new_FramePacket (Long h) [])) = Inr a \<and> length a < 2 ^ 60"
proof -
  let ?h = "h\<lparr>lh_Length := \<lparr>vi_Value = 0, vi_Length = 1\<rparr>\<rparr>"
  have wf: "wf_long ?h" using assms(1) by simp
  then obtain hb where hb: "LongHeader_Encode ?h = Inr hb" using LongHeader_Encode_total by blast
  have "LongHeader_Encode h = LongHeader_Encode ?h"
    using assms(2) by (simp add: LongHeader_Encode_def VarInt_Encode_def zero_VarInt_def typeByte_long_def)
  moreover have "length hb < 2 ^ 50"
  proof -
    have "vi_Length (lh_TokenLength h) \<le> 8" if "lh_PacketType h = Initial"
      using wf that VarIntLen_bounds by (auto simp: wf_long_def wf_VarInt_def)
    moreover have "tpn_Length (lh_TruncatedPN h) \<le> 4" using wf by (auto simp: wf_long_def wf_TruncatedPN_def)
    moreover have "length (lh_Token h) \<le> maxAlloc" if "lh_PacketType h = Initial"
      using wf that by (simp add: wf_long_def)
    ultimately show ?thesis
      using LongHeader_Encode_length(1) [OF hb wf] wf
      by (cases "lh_PacketType h = Initial") (simp_all add: LongHeader_HeaderLength_def Let_def wf_long_def maxAlloc_def)
  qed
  moreover have "fits62 (of_nat (length d))" using assms(3) by (intro fits62_of_nat) (simp add: maxAlloc_def)
  then obtain l where l: "EncodeVarInt (of_nat (length d)) = Inr l" using EncodeVarInt_total by blast
  moreover have "length l \<le> 8" using VarIntLen_bounds [OF VarIntLen_EncodeVarInt [OF l]] by simp
  ultimately show ?thesis
    using hb assms(3)
    by (simp add: FramePacket_Encode_def FramePacket_EncodePayload_def new_FramePacket_def AddFrame_def
        CryptoFrame_WriteTo_def vars_def WriteVarInt_def EncodeVarInt_type frame_types maxAlloc_def)
qed

lemma first_flight_sent:
  fixes c :: Connection
  assumes ext: "GetExtensionData (c_TLSTPHandler c) = Inr ext" "c_CryptoStreams c PNSpaceInitial = None"
    "ts_HandleMessage T [] EpochInitial (ts_SetQUICTransportParameters T ext t) = ((m # ms, True, None), t')"
    and keys: "write_keys EncryptionLevelInitial c w hp"
    and pn: "c_LargestPNsAcknowledged c PNSpaceInitial \<le> c_PacketNumber c PNSpaceInitial"
    "unat (c_PacketNumber c PNSpaceInitial) - unat (c_LargestPNsAcknowledged c PNSpaceInitial) + 1 < 2 ^ 32"
    and sizes: "length (c_Token c) \<le> maxAlloc" "length (c_DestinationCID c) < 256" "length (c_SourceCID c) < 256"
    "length (c_OriginalDestinationCID c) < 256" "length (tm_Data m) \<le> maxAlloc"
  shows "\<exists>p c' b r n. GetInitialPacket T t c = Inr (Some p, t', c') \<and>
    EncodeAndEncrypt seal_fuel (InitialP p) EncryptionLevelInitial c' = Some (Inr (Some b, InitialP r)) \<and>
    fp_Frames r = Crypto \<lparr>cf_Offset = 0, cf_Length = of_nat (length (tm_Data m)), cf_CryptoData = tm_Data m\<rparr> #
      replicate n PaddingFrame \<and>
    initial_length c \<le> length b \<and>
    c_SendPacket c' = c_SendPacket c \<and> (\<exists>h. fp_Header p = Long h \<and> on_route c h)"
proof -
  let ?f = "\<lparr>cf_Offset = 0, cf_Length = of_nat (length (tm_Data m)), cf_CryptoData = tm_Data m\<rparr>"
  obtain c1 where c1: "GetCryptoFrame T EncryptionLevelInitial t c = Inr (Some ?f, t', c1)" "same_route c c1"
    using GetCryptoFrame_Initial [OF ext] by blast
  note same = c1(2) [unfolded same_route_def]
  define c2 where "c2 = c1\<lparr>c_PacketNumber := (c_PacketNumber c1)(PNSpaceInitial := c_PacketNumber c1 PNSpaceInitial + 1)\<rparr>"
  obtain h where h: "NewInitialPacket c1 = Inr (new_FramePacket (Long h) [], c2)" "lh_Length h = zero_VarInt" "on_route c1 h"
    using NewInitialPacket_returns [of c1] pn sizes(1) same unfolding c2_def by metis
  have s: "sendable (Long h)"
    using NewInitialPacket_sendable [OF h(1)] sizes same by (simp add: new_FramePacket_def)
  let ?q0 = "AddFrame (Crypto ?f) (new_FramePacket (Long h) [])"
  obtain a where a: "FramePacket_Encode ?q0 = Inr a" "length a < 2 ^ 60"
    using first_packet_encodes [OF s h(2) sizes(5)] by blast
  have keys2: "write_keys EncryptionLevelInitial c2 w hp" "write_overhead EncryptionLevelInitial c2 = Inr 16"
    "initial_length c2 = initial_length c"
    using keys same
    by (auto simp: c2_def write_keys_def Connection_CryptoState_def write_overhead_def aead_ok_def initial_length_def)
  have small: "initial_length c - 16 < 2 ^ 62" "16 \<le> initial_length c" "initial_length c \<le> 2000"
    by (simp_all add: initial_length_def MinimumInitialLength_def MinimumInitialLengthv6_def)
  obtain q e where q: "PadTo (initial_length c - 16) ?q0 = Inr q" "FramePacket_Encode q = Inr e" "padded ?q0 q"
    "length e \<le> max (length a + 7) (initial_length c - 16 + 4)"
    using PadTo_spec [OF a(1) small(1)] a(2) by force
  obtain x where x: "FramePacket_EncodePayload q = Inr x" "length x \<le> length e"
    using q(2) by (auto simp: FramePacket_Encode_def)
  have sq: "sendable (fp_Header q)"
    using PadTo_inv [OF q(1)] strip_same(1) s by (fastforce simp: new_FramePacket_def AddFrame_def)
  have "length x < 2 ^ 61" using x(2) q(4) a(2) small(3) by simp
  with encrypted_size [OF keys2(1) _ sq q(1) x(1), of "InitialP q"] obtain b r where b:
    "EncodeAndEncrypt seal_fuel (InitialP q) EncryptionLevelInitial c2 = Some (Inr (Some b, InitialP r))" "padded q r"
    "initial_length c - 16 + 16 \<le> length b" by auto
  have "GetInitialPacket T t c = Inr (Some q, t', c2)"
    using c1(1) h(1) keys2(2,3) q(1) by (simp add: GetInitialPacket_def)
  moreover obtain n where "fp_Frames r = Crypto ?f # replicate n PaddingFrame"
    using padded_trans [OF q(3) b(2)] by (auto simp: padded_def AddFrame_def new_FramePacket_def)
  moreover have "\<exists>l. fp_Header q = Long l \<and> on_route c l"
  proof -
    have "strip (fp_Header q) = strip (Long h)"
      using PadTo_inv [OF q(1)] by (auto simp: AddFrame_def new_FramePacket_def)
    then obtain l where l: "fp_Header q = Long l" "l\<lparr>lh_Length := zero_VarInt\<rparr> = h\<lparr>lh_Length := zero_VarInt\<rparr>"
      by (cases "fp_Header q") auto
    show ?thesis
      using l(1) h(3) same arg_cong [OF l(2), of lh_Token] arg_cong [OF l(2), of lh_DestinationCID]
        arg_cong [OF l(2), of lh_PacketNumber]
      by (simp add: on_route_def)
  qed
  moreover have "c_SendPacket c2 = c_SendPacket c" using same by (simp add: c2_def)
  ultimately show ?thesis using b(1,3) small(2) by auto
qed

section \<open>Properties\<close>

text \<open>
  C9. The first flight: on a connection that has sent no crypto data, when the TLS stack produces its first message, the
  connection builds an Initial packet that carries exactly that message at offset 0 followed by padding, and the packet encrypts
  to a datagram of at least the minimum size QUIC demands (1252 bytes, 1232 on IPv6), whatever the sizes of the connection
  identifiers and of the token.
\<close>

theorem first_flight:
  fixes c :: Connection
  assumes ext: "GetExtensionData (c_TLSTPHandler c) = Inr ext" "c_CryptoStreams c PNSpaceInitial = None"
    "ts_HandleMessage T [] EpochInitial (ts_SetQUICTransportParameters T ext t) = ((m # ms, True, None), t')"
    and keys: "write_keys EncryptionLevelInitial c w hp"
    and pn: "c_LargestPNsAcknowledged c PNSpaceInitial \<le> c_PacketNumber c PNSpaceInitial"
    "unat (c_PacketNumber c PNSpaceInitial) - unat (c_LargestPNsAcknowledged c PNSpaceInitial) + 1 < 2 ^ 32"
    and sizes: "length (c_Token c) \<le> maxAlloc" "length (c_DestinationCID c) < 256" "length (c_SourceCID c) < 256"
    "length (c_OriginalDestinationCID c) < 256" "length (tm_Data m) \<le> maxAlloc"
  shows "\<exists>p c' b r n. GetInitialPacket T t c = Inr (Some p, t', c') \<and>
    EncodeAndEncrypt seal_fuel (InitialP p) EncryptionLevelInitial c' = Some (Inr (Some b, InitialP r)) \<and>
    fp_Frames r = Crypto \<lparr>cf_Offset = 0, cf_Length = of_nat (length (tm_Data m)), cf_CryptoData = tm_Data m\<rparr> #
      replicate n PaddingFrame \<and>
    initial_length c \<le> length b"
  using first_flight_sent [OF assms] by blast

text \<open>A TLS stack with one message, to show that the hypotheses can hold.\<close>

definition plain_Tls :: Tls where
  "plain_Tls = \<lparr>tls_NewAEAD = \<lambda>_ _. plain_AEAD, tls_NewCipher = \<lambda>_ iv x. x, tls_HkdfExtract = \<lambda>s x. s @ x,
     tls_HkdfExpandLabel = \<lambda>x _ _ _ _. x, tls_HashDigestSize = 32, tls_AEADKeySize = 16, tls_BaseLabel = ''tls13 '',
     tls_QuicBaseLabel = ''quic ''\<rparr>"

definition plain_stack :: "unit TlsStack" where
  "plain_stack = \<lparr>ts_NewConnection = \<lambda>_ _ _. (), ts_SetQUICTransportParameters = \<lambda>_ _. (),
     ts_HandleMessage = \<lambda>_ _ _. (([\<lparr>tm_Epoch = EpochInitial, tm_Data = [1, 2, 3]\<rparr>], True, None), ()),
     ts_Keys = \<lambda>_. plain_Tls, ts_ZeroRTTSecret = \<lambda>_. [], ts_HandshakeReadSecret = \<lambda>_. [],
     ts_HandshakeWriteSecret = \<lambda>_. [], ts_ProtectedReadSecret = \<lambda>_. [], ts_ProtectedWriteSecret = \<lambda>_. [],
     ts_ReceivedQUICTransportParameters = \<lambda>_. [], ts_ResumptionTicket = \<lambda>_. []\<rparr>"

definition first_connection :: Connection where
  "first_connection = snd (NewConnection plain_stack ''example.org'' MaximumVersion ''hq-29'' [1, 2] [3, 4, 5] [])"

lemma first_connection_keys: "write_keys EncryptionLevelInitial first_connection plain_AEAD (\<lambda>iv x. x)"
  by (simp add: first_connection_def NewConnection_def TransitionTo_def Let_def write_keys_def Connection_CryptoState_def
      NewInitialPacketProtection_def NewProtectedCryptoState_def InitWrite_def InitRead_def plain_stack_def plain_Tls_def aead_ok_def cipher_ok_def
      plain_AEAD_def quicVersionSalt_def)

lemma first_connection_ext: "\<exists>ext. GetExtensionData (c_TLSTPHandler first_connection) = Inr ext"
  by (simp add: first_connection_def NewConnection_def TransitionTo_def Let_def NewTLSTransportParameterHandler_def
      GetExtensionData_def own_parameters_def encode_parameter_def EncodeVarInt_def ranges tp_types
      zero_QuicTransportParameters_def nil_bytes_def)

lemma first_flight_witness:
  "\<exists>p c' b r n. GetInitialPacket plain_stack () first_connection = Inr (Some p, (), c') \<and>
    EncodeAndEncrypt seal_fuel (InitialP p) EncryptionLevelInitial c' = Some (Inr (Some b, InitialP r)) \<and>
    fp_Frames r = Crypto \<lparr>cf_Offset = 0, cf_Length = 3, cf_CryptoData = [1, 2, 3]\<rparr> # replicate n PaddingFrame \<and>
    1252 \<le> length b"
proof -
  obtain ext where ext: "GetExtensionData (c_TLSTPHandler first_connection) = Inr ext"
    using first_connection_ext ..
  have hm: "ts_HandleMessage plain_stack [] EpochInitial (ts_SetQUICTransportParameters plain_stack ext ()) =
      (([\<lparr>tm_Epoch = EpochInitial, tm_Data = [1, 2, 3]\<rparr>], True, None), ())"
    by (simp add: plain_stack_def)
  have c: "c_CryptoStreams first_connection = Map.empty" "c_PacketNumber first_connection = (\<lambda>_. 0)"
    "c_LargestPNsAcknowledged first_connection = (\<lambda>_. 0)" "c_Token first_connection = []" "c_UseIPv6 first_connection = False"
    "c_DestinationCID first_connection = [3, 4, 5]" "c_SourceCID first_connection = [1, 2]"
    "c_OriginalDestinationCID first_connection = [3, 4, 5]"
    by (simp_all add: first_connection_def NewConnection_def TransitionTo_def Let_def zero_Connection_def)
  from first_flight [OF ext _ hm first_connection_keys] c show ?thesis
    by (simp add: initial_length_def MinimumInitialLength_def maxAlloc_def)
qed

text \<open>
  C32. Version negotiation: it fails exactly when the server offers no version in the supported range; otherwise it takes the last
  offered version in the range, and restarts the connection with it: new destination identifier and Initial keys derived from it,
  all packet numbers back to 0, no acknowledgement owed, no frame queued and no stream left.
\<close>

definition acceptable :: "u32 \<Rightarrow> bool" where
  "acceptable v \<longleftrightarrow> MinimumVersion \<le> v \<and> v \<le> MaximumVersion"

lemma pick_version_last:
  "fold (\<lambda>v version. if v \<ge> MinimumVersion \<and> v \<le> MaximumVersion then v else version) vs z =
     last (z # filter acceptable vs)"
  by (induction vs arbitrary: z) (auto simp: acceptable_def)

theorem version_negotiation:
  "case ProcessVersionNegotation T rnd shared vn c of
     Inl e \<Rightarrow> filter acceptable (vn_SupportedVersions vn) = [] \<and> e = ''no appropriate version found''
   | Inr (t, c', version, token) \<Rightarrow>
       filter acceptable (vn_SupportedVersions vn) \<noteq> [] \<and>
       version = last (filter acceptable (vn_SupportedVersions vn)) \<and>
       c_Version c' = version \<and> c_ALPN c' = token \<and> c_DestinationCID c' = rnd \<and> c_SourceCID c' = c_SourceCID c \<and>
       c_CryptoStates c' = [EncryptionLevelInitial \<mapsto> NewInitialPacketProtection (ts_Keys T t) rnd] \<and>
       c_PacketNumber c' = (\<lambda>_. 0) \<and> c_LargestPNsReceived c' = (\<lambda>_. 0) \<and> c_LargestPNsAcknowledged c' = (\<lambda>_. 0) \<and>
       c_AckQueue c' = (\<lambda>_. []) \<and> c_StreamQueue c' = (\<lambda>_. []) \<and> c_TlsQueue c' = (\<lambda>_. []) \<and>
       c_FlowControlQueue c' = (\<lambda>_. []) \<and> c_CryptoStreams c' = Map.empty \<and> streams (c_Streams c') = []"
proof (cases "filter acceptable (vn_SupportedVersions vn) = []")
  case True
  then show ?thesis by (simp add: ProcessVersionNegotation_def pick_version_def pick_version_last Let_def)
next
  case False
  then have "acceptable (last (filter acceptable (vn_SupportedVersions vn)))"
    using last_in_set [OF False] by simp
  then have "last (filter acceptable (vn_SupportedVersions vn)) \<noteq> 0"
    by (auto simp: acceptable_def MinimumVersion_def word_le_nat_alt)
  with False show ?thesis
    by (simp add: ProcessVersionNegotation_def pick_version_def pick_version_last TransitionTo_def Let_def)
qed

end
