(* ===== verification/FrameQueue.thy ===== *)
theory FrameQueue
  imports Packets "HOL-Library.Multiset"
begin

text \<open>
  The frame queue agent (\<^verbatim>\<open>agents/frame_queue_agent.go\<close>): one priority queue of frames for each encryption level, on Go's
  \<^verbatim>\<open>container/heap\<close>, whose loops are modelled as they are written there.

  The agent relies on the queue through the interface \<open>prio_queue\<close>: pushing and popping of a multiset by priority. The
  results on its request loop are proved from that interface, and the heap is shown to provide it.
\<close>

section \<open>Priorities\<close>

definition FramePriority :: "FrameType \<Rightarrow> int" where
  "FramePriority t =
     (case map_of [(ConnectionCloseType, 1), (ApplicationCloseType, 2), (PathResponseType, 3), (AckType, 4),
        (AckECNType, 5), (CryptoType, 6), (PingType, 7), (NewConnectionIdType, 8), (RetireConnectionIdType, 9),
        (PathChallengeType, 10), (ResetStreamType, 11), (StopSendingType, 12), (MaxDataType, 13),
        (MaxStreamDataType, 14), (MaxStreamsType, 15), (MaxStreamsType + 1, 16), (DataBlockedType, 17),
        (StreamDataBlockedType, 18), (StreamsBlockedType, 19), (StreamsBlockedType + 1, 20), (NewTokenType, 21),
        (StreamType, 22), (PaddingFrameType, 23)] t of
        None \<Rightarrow> 0
      | Some n \<Rightarrow> n)"

record item =
  it_value :: Frame
  it_priority :: int
  it_index :: int

type_synonym FramePriorityQueue = "item list"

definition pq_Less :: "nat \<Rightarrow> nat \<Rightarrow> FramePriorityQueue \<Rightarrow> bool" where
  "pq_Less i j pq \<longleftrightarrow> it_priority (pq ! i) < it_priority (pq ! j)"

definition pq_Swap :: "nat \<Rightarrow> nat \<Rightarrow> FramePriorityQueue \<Rightarrow> FramePriorityQueue" where
  "pq_Swap i j pq =
     (if length pq < 2 then pq
      else pq[i := (pq ! j)\<lparr>it_index := int i\<rparr>, j := (pq ! i)\<lparr>it_index := int j\<rparr>])"

definition pq_Push :: "Frame \<Rightarrow> FramePriorityQueue \<Rightarrow> FramePriorityQueue" where
  "pq_Push f pq = pq @ [\<lparr>it_value = f, it_priority = FramePriority (FrameType f), it_index = int (length pq)\<rparr>]"

definition pq_Pop :: "FramePriorityQueue \<Rightarrow> Frame option \<times> FramePriorityQueue" where
  "pq_Pop pq = (if length pq < 1 then (None, pq) else (Some (it_value (last pq)), butlast pq))"

definition pq_Peek :: "FramePriorityQueue \<Rightarrow> Frame option" where
  "pq_Peek pq = (if length pq < 1 then None else Some (it_value (last pq)))"

section \<open>Go's heap\<close>

lemma length_pq_Swap [simp]: "length (pq_Swap i j pq) = length pq"
  by (simp add: pq_Swap_def)

fun heap_up :: "nat \<Rightarrow> FramePriorityQueue \<Rightarrow> FramePriorityQueue" where
  "heap_up j pq =
     (let i = (j - 1) div 2 in
      if i = j \<or> \<not> pq_Less j i pq then pq else heap_up i (pq_Swap i j pq))"

declare heap_up.simps [simp del]

function heap_down :: "nat \<Rightarrow> nat \<Rightarrow> FramePriorityQueue \<Rightarrow> FramePriorityQueue" where
  "heap_down i n pq =
     (let j1 = 2 * i + 1 in
      if j1 \<ge> n then pq
      else (let j = (if j1 + 1 < n \<and> pq_Less (j1 + 1) j1 pq then j1 + 1 else j1)
            in if \<not> pq_Less j i pq then pq else heap_down j n (pq_Swap i j pq)))"
  by pat_completeness auto
termination
  by (relation "measure (\<lambda>(i, n, _). n - i)") (auto simp: Let_def)

declare heap_down.simps [simp del]

definition heap_Push :: "Frame \<Rightarrow> FramePriorityQueue \<Rightarrow> FramePriorityQueue" where
  "heap_Push f pq = (let pq = pq_Push f pq in heap_up (length pq - 1) pq)"

text \<open>On an empty queue the swap does nothing and \<^verbatim>\<open>Pop\<close> answers \<^verbatim>\<open>nil\<close>.\<close>

definition heap_Pop :: "FramePriorityQueue \<Rightarrow> Frame option \<times> FramePriorityQueue" where
  "heap_Pop pq = (let n = length pq - 1 in pq_Pop (heap_down 0 n (pq_Swap 0 n pq)))"

definition NewFramePriorityQueue :: FramePriorityQueue where
  "NewFramePriorityQueue = []"

section \<open>The request loop\<close>

text \<open>
  The loop pops frames as long as they fit. It returns the frames, the frame that did not fit, the space that is left and the queue;
  \<open>None\<close> when the fuel is used up, which \<open>k\<close> above the size of the queue rules out.
\<close>

fun request_loop ::
    "('q \<Rightarrow> 'a option \<times> 'q) \<Rightarrow> ('a \<Rightarrow> u16 res) \<Rightarrow> nat \<Rightarrow> int \<Rightarrow> 'q \<Rightarrow>
     ('a list \<times> 'a option \<times> int \<times> 'q) res option" where
  "request_loop pop flen 0 availableSpace q = None"
| "request_loop pop flen (Suc k) availableSpace q =
     (case pop q of
        (None, q) \<Rightarrow> Some (Inr ([], None, availableSpace, q))
      | (Some f, q) \<Rightarrow>
          (case flen f of
             Inl e \<Rightarrow> Some (Inl e)
           | Inr l \<Rightarrow>
               if availableSpace \<ge> uint l then
                 (case request_loop pop flen k (availableSpace - uint l) q of
                    Some (Inr (fs, i, sp, q)) \<Rightarrow> Some (Inr (f # fs, i, sp, q))
                  | r \<Rightarrow> r)
               else Some (Inr ([], Some f, availableSpace, q))))"

text \<open>The frame buffer is a map with six levels; the queue of any other level is a \<^verbatim>\<open>nil\<close> pointer.\<close>

type_synonym frameBuffer = "EncryptionLevel \<rightharpoonup> FramePriorityQueue"

definition new_frameBuffer :: frameBuffer where
  "new_frameBuffer l = (if l = EncryptionLevelNone then None else Some NewFramePriorityQueue)"

definition fq_incoming :: "QueuedFrame \<Rightarrow> frameBuffer \<Rightarrow> frameBuffer res" where
  "fq_incoming qf b =
     (case b (qf_EncryptionLevel qf) of
        None \<Rightarrow> Inl NilPointer
      | Some q \<Rightarrow> Inr (b(qf_EncryptionLevel qf \<mapsto> heap_Push (qf_Frame qf) q)))"

definition fq_requestFrame ::
    "int \<Rightarrow> EncryptionLevel \<Rightarrow> frameBuffer \<Rightarrow> Connection \<Rightarrow> (Frame list \<times> frameBuffer \<times> Connection) res option" where
  "fq_requestFrame availableSpace level b c =
     (case b level of
        None \<Rightarrow> Some (Inl NilPointer)
      | Some buffer \<Rightarrow>
          (case request_loop heap_Pop FrameLength (Suc (length buffer)) availableSpace buffer of
             None \<Rightarrow> None
           | Some (Inl e) \<Rightarrow> Some (Inl e)
           | Some (Inr (frames, None, sp, buffer)) \<Rightarrow> Some (Inr (frames, b(level \<mapsto> buffer), c))
           | Some (Inr (frames, Some f, sp, buffer)) \<Rightarrow>
               Some (Inr (frames, b(level \<mapsto> heap_Push f buffer), submit_prepare level c))))"

section \<open>The interface\<close>

locale prio_queue =
  fixes push :: "'a \<Rightarrow> 'q \<Rightarrow> 'q"
    and pop :: "'q \<Rightarrow> 'a option \<times> 'q"
    and elems :: "'q \<Rightarrow> 'a multiset"
    and invar :: "'q \<Rightarrow> bool"
    and prio :: "'a \<Rightarrow> int"
  assumes push_invar: "invar q \<Longrightarrow> invar (push x q)"
    and push_elems: "invar q \<Longrightarrow> elems (push x q) = add_mset x (elems q)"
    and pop_empty: "invar q \<Longrightarrow> elems q = {#} \<Longrightarrow> pop q = (None, q)"
    and pop_least: "invar q \<Longrightarrow> elems q \<noteq> {#} \<Longrightarrow>
      \<exists>x q'. pop q = (Some x, q') \<and> invar q' \<and> elems q = add_mset x (elems q') \<and> (\<forall>y \<in># elems q'. prio x \<le> prio y)"
begin

text \<open>The loop ends, and splits the queue: what was taken, in order of priority, comes before what is left.\<close>

lemma request_loop_ends: "invar q \<Longrightarrow> size (elems q) < k \<Longrightarrow> request_loop pop flen k sp q \<noteq> None"
proof (induction k arbitrary: sp q)
  case (Suc k)
  show ?case
  proof (cases "elems q = {#}")
    case True
    then show ?thesis using pop_empty [OF Suc.prems(1)] by simp
  next
    case False
    then obtain x q' where p: "pop q = (Some x, q')" "invar q'" "elems q = add_mset x (elems q')"
      using pop_least [OF Suc.prems(1)] by blast
    then have "(request_loop pop flen k s q' = None) = False" for s using Suc by simp
    then show ?thesis using p(1) by (auto simp del: not_None_eq split: sum.splits option.splits)
  qed
qed simp

lemma request_loop_splits:
  "invar q \<Longrightarrow> request_loop pop flen k sp q = Some (Inr (fs, i, sp', q')) \<Longrightarrow>
   invar q' \<and> elems q = mset fs + (case i of None \<Rightarrow> {#} | Some x \<Rightarrow> {#x#}) + elems q' \<and>
   sorted (map prio fs) \<and>
   (\<forall>x \<in> set fs. \<forall>y \<in># (case i of None \<Rightarrow> {#} | Some x \<Rightarrow> {#x#}) + elems q'. prio x \<le> prio y) \<and>
   (i = None \<longrightarrow> elems q' = {#})"
proof (induction k arbitrary: sp q fs)
  case (Suc k)
  show ?case
  proof (cases "elems q = {#}")
    case True
    then show ?thesis using pop_empty [OF Suc.prems(1)] Suc.prems by simp
  next
    case False
    then obtain x r where p: "pop q = (Some x, r)" "invar r" "elems q = add_mset x (elems r)"
      "\<forall>y \<in># elems r. prio x \<le> prio y"
      using pop_least [OF Suc.prems(1)] by blast
    show ?thesis
    proof (cases "fs = []")
      case True
      with Suc.prems(2) p show ?thesis by (auto split: sum.splits if_splits option.splits)
    next
      case f: False
      with Suc.prems(2) p(1) obtain gs s where g: "fs = x # gs" "request_loop pop flen k s r = Some (Inr (gs, i, sp', q'))"
        by (auto split: sum.splits if_splits option.splits)
      from Suc.IH [OF p(2) g(2)] p(3,4) g(1) show ?thesis
        by (auto split: option.splits)
    qed
  qed
qed simp

end

section \<open>The heap provides it\<close>

definition pr :: "FramePriorityQueue \<Rightarrow> nat \<Rightarrow> int" where
  "pr pq k = it_priority (pq ! k)"

definition par :: "nat \<Rightarrow> nat" where
  "par k = (k - 1) div 2"

definition contents :: "FramePriorityQueue \<Rightarrow> Frame multiset" where
  "contents pq = mset (map it_value pq)"

text \<open>Every item has the priority of its frame and knows its position.\<close>

definition items_ok :: "FramePriorityQueue \<Rightarrow> bool" where
  "items_ok pq \<longleftrightarrow> (\<forall>k < length pq. it_priority (pq ! k) = FramePriority (FrameType (it_value (pq ! k))) \<and>
     it_index (pq ! k) = int k)"

definition is_heap :: "FramePriorityQueue \<Rightarrow> bool" where
  "is_heap pq \<longleftrightarrow> (\<forall>k. 0 < k \<and> k < length pq \<longrightarrow> pr pq (par k) \<le> pr pq k)"

definition pq_inv :: "FramePriorityQueue \<Rightarrow> bool" where
  "pq_inv pq \<longleftrightarrow> items_ok pq \<and> is_heap pq"

lemma par_less: "0 < k \<Longrightarrow> par k < k"
  by (simp add: par_def)

lemma par_children: "0 < k \<Longrightarrow> par k = i \<longleftrightarrow> k = 2 * i + 1 \<or> k = 2 * i + 2"
  by (auto simp: par_def)

lemma pr_swap:
  "i < length pq \<Longrightarrow> j < length pq \<Longrightarrow> i \<noteq> j \<Longrightarrow> k < length pq \<Longrightarrow>
   pr (pq_Swap i j pq) k = (if k = i then pr pq j else if k = j then pr pq i else pr pq k)"
  by (auto simp: pr_def pq_Swap_def nth_list_update)

lemma items_ok_swap: "i < length pq \<Longrightarrow> j < length pq \<Longrightarrow> items_ok pq \<Longrightarrow> items_ok (pq_Swap i j pq)"
  by (auto simp: items_ok_def pq_Swap_def nth_list_update)

lemma contents_swap:
  assumes "i < length pq" "j < length pq"
  shows "contents (pq_Swap i j pq) = contents pq"
proof -
  let ?v = "map it_value pq"
  have "map it_value (pq[i := (pq ! j)\<lparr>it_index := int i\<rparr>, j := (pq ! i)\<lparr>it_index := int j\<rparr>]) = ?v[i := ?v ! j, j := ?v ! i]"
    using assms by (simp add: map_update)
  then show ?thesis
    using assms mset_swap [of j ?v i] by (auto simp: contents_def pq_Swap_def simp del: mset_map)
qed

lemma heap_up_par:
  "heap_up j pq = (if par j = j \<or> \<not> pq_Less j (par j) pq then pq else heap_up (par j) (pq_Swap (par j) j pq))"
  by (subst heap_up.simps) (simp add: Let_def par_def)

text \<open>Sifting up: only the element at \<open>j\<close> may be out of place.\<close>

lemma heap_up_heap:
  assumes "j < length pq"
    "\<And>k. 0 < k \<Longrightarrow> k < length pq \<Longrightarrow> k \<noteq> j \<Longrightarrow> pr pq (par k) \<le> pr pq k"
    "\<And>k. 0 < k \<Longrightarrow> k < length pq \<Longrightarrow> par k = j \<Longrightarrow> 0 < j \<Longrightarrow> pr pq (par j) \<le> pr pq k"
  shows "is_heap (heap_up j pq)"
  using assms
proof (induction j pq rule: heap_up.induct)
  case (1 j pq)
  let ?i = "par j"
  show ?case
  proof (cases "?i = j \<or> \<not> pq_Less j ?i pq")
    case True
    then have "pr pq (par j) \<le> pr pq j" by (auto simp: pq_Less_def pr_def)
    with 1(3) have "is_heap pq" unfolding is_heap_def by metis
    with True show ?thesis by (simp add: heap_up_par [of j])
  next
    case False
    then have j: "0 < j" "?i < j" using par_less [of j] by (auto simp: par_def intro: gr0I)
    with 1(2) have sw: "?i < length pq" "j < length pq" "?i \<noteq> j" by auto
    note ps = pr_swap [OF sw]
    have lt: "pr pq j < pr pq ?i" using False by (simp add: pq_Less_def pr_def)
    have "is_heap (heap_up ?i (pq_Swap ?i j pq))"
    proof (rule 1(1) [unfolded par_def [symmetric]])
      show "?i = ?i" "\<not> (?i = j \<or> \<not> pq_Less j ?i pq)" using False by blast+
      show "?i < length (pq_Swap ?i j pq)" using sw by simp
      show "pr (pq_Swap ?i j pq) (par k) \<le> pr (pq_Swap ?i j pq) k"
        if "0 < k" "k < length (pq_Swap ?i j pq)" "k \<noteq> ?i" for k
      proof -
        have k: "k < length pq" "par k < length pq" using that par_less [of k] by auto
        then show ?thesis
          using ps [OF k(1)] ps [OF k(2)] lt 1(3) [OF that(1) k(1)] 1(4) [OF that(1) k(1) _ j(1)] that(3)
            par_less [OF that(1)]
          by (cases "k = j"; cases "par k = j"; cases "par k = ?i") auto
      qed
      show "pr (pq_Swap ?i j pq) (par ?i) \<le> pr (pq_Swap ?i j pq) k"
        if "0 < k" "k < length (pq_Swap ?i j pq)" "par k = ?i" "0 < ?i" for k
      proof -
        have k: "k < length pq" "par ?i < length pq" "par ?i < ?i" "?i < k"
          using that sw par_less [of ?i] par_less [of k] by auto
        have "pr pq (par ?i) \<le> pr pq ?i" using 1(3) [of ?i] that(4) sw by simp
        then show ?thesis
          using ps [OF k(1)] ps [OF k(2)] 1(3) [OF that(1) k(1)] that(3) k(3,4) j by (cases "k = j") auto
      qed
    qed
    with False show ?thesis by (simp add: heap_up_par [of j])
  qed
qed

lemma heap_up_keeps:
  assumes "j < length pq" "items_ok pq"
  shows "items_ok (heap_up j pq) \<and> contents (heap_up j pq) = contents pq \<and> length (heap_up j pq) = length pq"
  using assms
proof (induction j pq rule: heap_up.induct)
  case (1 j pq)
  let ?i = "(j - 1) div 2"
  have "?i < length pq" using 1(2) by auto
  with 1 show ?case
    by (cases "?i = j \<or> \<not> pq_Less j ?i pq")
      (simp_all add: heap_up.simps [of j] Let_def items_ok_swap contents_swap)
qed

text \<open>Sifting down, on the first \<open>n\<close> elements: only the element at \<open>i\<close> may be out of place.\<close>

lemma heap_down_heap:
  assumes "n \<le> length pq"
    "\<And>k. 0 < k \<Longrightarrow> k < n \<Longrightarrow> par k \<noteq> i \<Longrightarrow> pr pq (par k) \<le> pr pq k"
    "\<And>k. 0 < k \<Longrightarrow> k < n \<Longrightarrow> par k = i \<Longrightarrow> 0 < i \<Longrightarrow> pr pq (par i) \<le> pr pq k"
    "0 < k" "k < n"
  shows "pr (heap_down i n pq) (par k) \<le> pr (heap_down i n pq) k"
  using assms
proof (induction i n pq arbitrary: k rule: heap_down.induct)
  case (1 i n pq)
  let ?j = "if 2 * i + 2 < n \<and> pq_Less (2 * i + 2) (2 * i + 1) pq then 2 * i + 2 else 2 * i + 1"
  have unf: "heap_down i n pq = (if 2 * i + 1 \<ge> n \<or> \<not> pq_Less ?j i pq then pq else heap_down ?j n (pq_Swap i ?j pq))"
    by (subst heap_down.simps) (simp add: Let_def)
  show ?case
  proof (cases "2 * i + 1 \<ge> n \<or> \<not> pq_Less ?j i pq")
    case True
    have "pr pq (par k) \<le> pr pq k"
    proof (cases "par k = i")
      case p: True
      then have "k = 2 * i + 1 \<or> k = 2 * i + 2" using par_children [OF 1(5)] by simp
      with True 1(6) p show ?thesis by (auto simp: pq_Less_def pr_def split: if_splits)
    qed (use 1 in blast)
    with True show ?thesis unfolding unf by simp
  next
    case False
    then have j: "?j < n" "par ?j = i" "0 < ?j" "i \<noteq> ?j" by (auto simp: par_def)
    have sw: "i < length pq" "?j < length pq" using j(1) 1(2) False by auto
    note ps = pr_swap [OF sw j(4)]
    have lt: "pr pq ?j < pr pq i" using False by (simp add: pq_Less_def pr_def)
    have least: "pr pq ?j \<le> pr pq m" if "0 < m" "m < n" "par m = i" for m
      using that par_children [OF that(1), of i] by (auto simp: pq_Less_def pr_def)
    have "pr (heap_down ?j n (pq_Swap i ?j pq)) (par k) \<le> pr (heap_down ?j n (pq_Swap i ?j pq)) k"
    proof (rule 1(1))
      show "2 * i + 1 = 2 * i + 1" "\<not> n \<le> 2 * i + 1" using False by auto
      show "?j = (if 2 * i + 1 + 1 < n \<and> pq_Less (2 * i + 1 + 1) (2 * i + 1) pq then 2 * i + 1 + 1 else 2 * i + 1)" by simp
      show "\<not> \<not> pq_Less ?j i pq" using False by blast
      show "n \<le> length (pq_Swap i ?j pq)" using 1(2) by simp
      show "0 < k" "k < n" using 1(5,6) .
      show "pr (pq_Swap i ?j pq) (par m) \<le> pr (pq_Swap i ?j pq) m" if "0 < m" "m < n" "par m \<noteq> ?j" for m
      proof -
        have m: "m < length pq" "par m < length pq" using that 1(2) par_less [of m] by auto
        show ?thesis
          using ps [OF m(1)] ps [OF m(2)] lt least [OF that(1,2)] 1(3) [OF that(1,2)] 1(4) [OF j(3,1,2)] that j
            par_less [OF that(1)]
          by (cases "m = i"; cases "par m = i") (auto simp del: split_paired_All)
      qed
      show "pr (pq_Swap i ?j pq) (par ?j) \<le> pr (pq_Swap i ?j pq) m"
        if "0 < m" "m < n" "par m = ?j" "0 < ?j" for m
      proof -
        have m: "m < length pq" "m \<noteq> i" "m \<noteq> ?j" using that 1(2) par_less [of m] par_less [of ?j] j by auto
        show ?thesis using ps [OF m(1)] ps [OF sw(1)] 1(3) [OF that(1,2)] that(3) j m by auto
      qed
    qed
    with False show ?thesis unfolding unf by simp
  qed
qed

lemma heap_down_keeps:
  assumes "n \<le> length pq" "items_ok pq" "i < n \<or> n = 0"
  shows "items_ok (heap_down i n pq) \<and> contents (heap_down i n pq) = contents pq \<and>
    length (heap_down i n pq) = length pq \<and> drop n (heap_down i n pq) = drop n pq"
  using assms
proof (induction i n pq rule: heap_down.induct)
  case (1 i n pq)
  let ?j = "if 2 * i + 1 + 1 < n \<and> pq_Less (2 * i + 1 + 1) (2 * i + 1) pq then 2 * i + 1 + 1 else 2 * i + 1"
  show ?case
  proof (cases "2 * i + 1 \<ge> n \<or> \<not> pq_Less ?j i pq")
    case True
    then show ?thesis using 1(3) by (subst (1 2 3 4) heap_down.simps) (auto simp: Let_def)
  next
    case False
    then have j: "?j < n" "?j < length pq" "i < length pq" "i < n" using 1(2) by auto
    have d: "drop n (pq_Swap i ?j pq) = drop n pq" using j by (simp add: pq_Swap_def)
    have "items_ok (heap_down ?j n (pq_Swap i ?j pq)) \<and> contents (heap_down ?j n (pq_Swap i ?j pq)) = contents (pq_Swap i ?j pq) \<and>
      length (heap_down ?j n (pq_Swap i ?j pq)) = length (pq_Swap i ?j pq) \<and>
      drop n (heap_down ?j n (pq_Swap i ?j pq)) = drop n (pq_Swap i ?j pq)"
      using False j 1(2,3) items_ok_swap [OF j(3,2)] by (intro 1(1)) auto
    moreover have "heap_down i n pq = heap_down ?j n (pq_Swap i ?j pq)"
      using False by (subst heap_down.simps) (auto simp: Let_def)
    ultimately show ?thesis using contents_swap [OF j(3,2)] d by simp
  qed
qed

lemma root_least: "is_heap pq \<Longrightarrow> k < length pq \<Longrightarrow> pr pq 0 \<le> pr pq k"
proof (induction k rule: less_induct)
  case (less k)
  show ?case
  proof (cases "k = 0")
    case False
    then have "pr pq (par k) \<le> pr pq k" "par k < k" using less.prems par_less [of k] by (auto simp: is_heap_def)
    with less.IH [of "par k"] less.prems show ?thesis by force
  qed simp
qed

lemma heap_Push_ok:
  assumes "pq_inv pq"
  shows "pq_inv (heap_Push f pq)" "contents (heap_Push f pq) = add_mset f (contents pq)"
proof -
  let ?q = "pq_Push f pq"
  have ok: "items_ok ?q" "length ?q = Suc (length pq)" "contents ?q = add_mset f (contents pq)"
    using assms by (auto simp: pq_inv_def pq_Push_def items_ok_def nth_append contents_def less_Suc_eq)
  have same: "pr ?q k = pr pq k" if "k < length pq" for k using that by (simp add: pr_def pq_Push_def nth_append)
  have "is_heap (heap_up (length pq) ?q)"
  proof (rule heap_up_heap)
    show "pr ?q (par k) \<le> pr ?q k" if "0 < k" "k < length ?q" "k \<noteq> length pq" for k
      using that assms same ok(2) par_less [of k] by (simp add: pq_inv_def is_heap_def)
    show "pr ?q (par (length pq)) \<le> pr ?q k" if "0 < k" "k < length ?q" "par k = length pq" for k
      using that par_less [of k] ok(2) by simp
  qed (simp add: ok(2))
  with heap_up_keeps [of "length pq" ?q] ok show "pq_inv (heap_Push f pq)"
    "contents (heap_Push f pq) = add_mset f (contents pq)"
    by (simp_all add: heap_Push_def Let_def pq_inv_def)
qed

lemma heap_Pop_empty: "heap_Pop [] = (None, [])"
  by (simp add: heap_Pop_def pq_Swap_def heap_down.simps pq_Pop_def)

lemma heap_Pop_ok:
  assumes "pq_inv pq" "pq \<noteq> []"
  obtains q where "heap_Pop pq = (Some (it_value (pq ! 0)), q)" "pq_inv q"
    "contents pq = add_mset (it_value (pq ! 0)) (contents q)"
proof -
  let ?n = "length pq - 1"
  let ?s = "pq_Swap 0 ?n pq"
  let ?d = "heap_down 0 ?n ?s"
  have n: "0 < length pq" "?n < length pq" using assms(2) by auto
  have sw: "items_ok ?s" using items_ok_swap [OF n] assms(1) by (simp add: pq_inv_def)
  have z: "0 < ?n \<or> ?n = 0" by linarith
  have keeps: "items_ok ?d" "contents ?d = contents ?s" "length ?d = length pq" "drop ?n ?d = drop ?n ?s"
    using heap_down_keeps [OF _ sw z] by simp_all
  have last_item: "it_value (last ?s) = it_value (pq ! 0)"
    using n assms(2) by (cases "length pq = 1") (auto simp: pq_Swap_def last_conv_nth nth_list_update)
  have heap: "pr ?d (par k) \<le> pr ?d k" if "0 < k" "k < ?n" for k
  proof (rule heap_down_heap)
    show "pr ?s (par m) \<le> pr ?s m" if "0 < m" "m < ?n" "par m \<noteq> 0" for m
    proof -
      have "m < length pq" "par m < length pq" "par m < ?n" "0 < ?n" using that par_less [of m] by auto
      with pr_swap [OF n] that assms(1) show ?thesis by (auto simp: pq_inv_def is_heap_def)
    qed
  qed (use that in auto)
  have ne: "?d \<noteq> []" "?s \<noteq> []" using keeps(3) n by (metis length_greater_0_conv, metis length_greater_0_conv length_pq_Swap)
  have l: "last ?d = last ?s"
    using keeps(3,4) n ne by (metis last_drop length_pq_Swap)
  have b: "?d = butlast ?d @ [last ?s]" using l ne by (metis append_butlast_last_id)
  let ?q = "butlast ?d"
  have lq: "length ?q = ?n" using keeps(3) by simp
  have "items_ok ?q" using keeps(1,3) by (auto simp: items_ok_def nth_butlast)
  moreover have "is_heap ?q"
    unfolding is_heap_def lq
  proof (intro allI impI)
    fix k
    assume "0 < k \<and> k < ?n"
    moreover have "pr ?q m = pr ?d m" if "m < ?n" for m using that lq by (simp add: pr_def nth_butlast)
    ultimately show "pr ?q (par k) \<le> pr ?q k" using heap [of k] par_less [of k] by simp
  qed
  moreover have "contents pq = add_mset (it_value (pq ! 0)) (contents ?q)"
  proof -
    have "contents ?d = add_mset (it_value (last ?s)) (contents ?q)" by (subst b) (simp add: contents_def)
    with contents_swap [OF n] keeps(2) last_item show ?thesis by simp
  qed
  moreover have "heap_Pop pq = (Some (it_value (pq ! 0)), ?q)"
    using ne(1) l last_item by (simp add: heap_Pop_def pq_Pop_def Let_def not_less_eq_eq Suc_le_eq)
  ultimately show thesis by (intro that [of ?q]) (simp_all add: pq_inv_def)
qed

abbreviation frame_prio :: "Frame \<Rightarrow> int" where
  "frame_prio f \<equiv> FramePriority (FrameType f)"

interpretation fq: prio_queue heap_Push heap_Pop contents pq_inv frame_prio
proof (unfold_locales, goal_cases)
  case (1 q x)
  then show ?case by (rule heap_Push_ok)
next
  case (2 q x)
  then show ?case by (rule heap_Push_ok)
next
  case (3 q)
  then show ?case using heap_Pop_empty by (simp add: contents_def)
next
  case (4 q)
  then have ne: "q \<noteq> []" by (auto simp: contents_def)
  obtain r where r: "heap_Pop q = (Some (it_value (q ! 0)), r)" "pq_inv r"
    "contents q = add_mset (it_value (q ! 0)) (contents r)"
    by (rule heap_Pop_ok [OF 4(1) ne])
  have "frame_prio (it_value (q ! 0)) \<le> frame_prio y" if "y \<in># contents r" for y
  proof -
    have "y \<in># contents q" using that r(3) by simp
    then obtain k where k: "k < length q" "y = it_value (q ! k)" by (auto simp: contents_def in_set_conv_nth)
    with root_least [of q k] 4(1) ne show ?thesis by (simp add: pq_inv_def items_ok_def pr_def)
  qed
  with r show ?case by blast
qed

section \<open>The agent\<close>

text \<open>The queue of every level but \<^verbatim>\<open>None\<close> exists and is a heap.\<close>

definition fq_inv :: "frameBuffer \<Rightarrow> bool" where
  "fq_inv b \<longleftrightarrow> (\<forall>l. l \<noteq> EncryptionLevelNone \<longrightarrow> (\<exists>q. b l = Some q \<and> pq_inv q))"

datatype fq_event = FqIncoming QueuedFrame | FqRequest int EncryptionLevel

inductive fq_step :: "frameBuffer \<times> Connection \<Rightarrow> fq_event \<Rightarrow> frameBuffer \<times> Connection \<Rightarrow> bool" where
  fq_in: "fq_incoming qf b = Inr b' \<Longrightarrow> fq_step (b, c) (FqIncoming qf) (b', c)"
| fq_req: "fq_requestFrame n level b c = Some (Inr (fs, b', c')) \<Longrightarrow> fq_step (b, c) (FqRequest n level) (b', c')"

definition fq_init :: "frameBuffer \<times> Connection \<Rightarrow> bool" where
  "fq_init s \<longleftrightarrow> fst s = new_frameBuffer"

definition frames_size :: "Frame list \<Rightarrow> int" where
  "frames_size fs = (\<Sum>f \<leftarrow> fs. case FrameLength f of Inr l \<Rightarrow> uint l | Inl _ \<Rightarrow> 0)"

lemma request_loop_size:
  "request_loop pop FrameLength k sp q = Some (Inr (fs, i, sp', q')) \<Longrightarrow>
   frames_size fs = sp - sp' \<and> (0 \<le> sp \<longrightarrow> 0 \<le> sp')"
  by (induction k arbitrary: sp q fs)
    (force simp: frames_size_def split: prod.splits option.splits sum.splits if_splits)+

text \<open>The queue of a level after a request, with the frames that were handed out.\<close>

definition taken :: "int \<Rightarrow> FramePriorityQueue \<Rightarrow> Frame list \<Rightarrow> FramePriorityQueue \<Rightarrow> bool" where
  "taken n q fs q' \<longleftrightarrow> contents q = mset fs + contents q' \<and> sorted (map frame_prio fs) \<and>
     (\<forall>x \<in> set fs. \<forall>y \<in># contents q'. frame_prio x \<le> frame_prio y) \<and> (0 \<le> n \<longrightarrow> frames_size fs \<le> n)"

lemma fq_request_splits:
  assumes "b level = Some q" "pq_inv q" "fq_requestFrame n level b c = Some (Inr (fs, b', c'))"
  obtains q' where "b' = b(level \<mapsto> q')" "pq_inv q'" "taken n q fs q'"
    "c' = (if contents q' = {#} then c else submit_prepare level c)"
proof -
  obtain i sp r where l: "request_loop heap_Pop FrameLength (Suc (length q)) n q = Some (Inr (fs, i, sp, r))"
    and b: "(b', c') = (case i of None \<Rightarrow> (b(level \<mapsto> r), c) | Some f \<Rightarrow> (b(level \<mapsto> heap_Push f r), submit_prepare level c))"
    using assms(1,3) by (auto simp: fq_requestFrame_def simp del: request_loop.simps split: option.splits sum.splits)
  note sp = fq.request_loop_splits [OF assms(2) l] and sz = request_loop_size [OF l]
  show thesis
  proof (cases i)
    case None
    with sp sz b show thesis by (intro that [of r]) (simp_all add: taken_def)
  next
    case (Some f)
    with sp have "pq_inv (heap_Push f r)" "contents (heap_Push f r) = add_mset f (contents r)"
      using heap_Push_ok [of r f] by simp_all
    with Some sp sz b show thesis by (intro that [of "heap_Push f r"]) (simp_all add: taken_def)
  qed
qed

interpretation fq_machine: machine fq_init fq_step "\<lambda>s. fq_inv (fst s)"
proof (unfold_locales, goal_cases)
  case (1 s)
  then show ?case
    by (simp add: fq_init_def fq_inv_def new_frameBuffer_def NewFramePriorityQueue_def pq_inv_def items_ok_def is_heap_def)
next
  case (2 s e s')
  from 2(2) show ?case
  proof cases
    case (fq_in qf b b' c)
    with 2(1) show ?thesis
      using heap_Push_ok(1) by (fastforce simp: fq_inv_def fq_incoming_def split: option.splits)
  next
    case (fq_req n level b c fs b' c')
    then obtain q where q: "b level = Some q" by (auto simp: fq_requestFrame_def split: option.splits)
    show ?thesis
    proof (cases "level = EncryptionLevelNone")
      case True
      with fq_req 2(1) show ?thesis
        by (auto simp: fq_inv_def fq_requestFrame_def simp del: request_loop.simps split: option.splits sum.splits)
    next
      case False
      with 2(1) fq_req q have "pq_inv q" by (auto simp: fq_inv_def)
      then obtain q' where "b' = b(level \<mapsto> q')" "pq_inv q'" by (rule fq_request_splits [OF q _ fq_req(4)])
      with fq_req 2(1) show ?thesis by (simp add: fq_inv_def)
    qed
  qed
qed

section \<open>Properties\<close>

text \<open>
  C5. The frame queue is a priority queue that loses nothing: after any run of the agent, a request for a level returns (it ends, and panics only
  when the length of a frame cannot be computed); the frames handed out and those that stay are the frames that were
  queued; they come in the order of their priorities, before everything that stays; they fit the offered space; and another packet is
  requested exactly when something stays.
\<close>

theorem frame_queue_request:
  assumes "reachable fq_init fq_step (b, c)" "level \<noteq> EncryptionLevelNone"
  shows "\<exists>q r. b level = Some q \<and> fq_requestFrame n level b c = Some r \<and>
    (\<forall>fs b' c'. r = Inr (fs, b', c') \<longrightarrow> (\<exists>q'. b' = b(level \<mapsto> q') \<and> taken n q fs q' \<and>
       c' = (if contents q' = {#} then c else submit_prepare level c)))"
proof -
  have "fq_inv b" using fq_machine.inv_reachable [OF assms(1)] by simp
  with assms(2) obtain q where q: "b level = Some q" "pq_inv q" by (auto simp: fq_inv_def)
  have "request_loop heap_Pop FrameLength (Suc (length q)) n q \<noteq> None"
    by (rule fq.request_loop_ends [OF q(2)]) (simp add: contents_def)
  then have "fq_requestFrame n level b c \<noteq> None"
    by (auto simp: fq_requestFrame_def q(1) simp del: request_loop.simps not_None_eq split: sum.splits option.splits)
  then obtain r where r: "fq_requestFrame n level b c = Some r" by blast
  moreover have "\<exists>q'. b' = b(level \<mapsto> q') \<and> taken n q fs q' \<and> c' = (if contents q' = {#} then c else submit_prepare level c)"
    if "r = Inr (fs, b', c')" for fs b' c'
    using fq_request_splits [of b level q n c fs b' c'] q r that by metis
  ultimately show ?thesis using q(1) by blast
qed

lemma frame_queue_request_witness:
  "\<forall>c. \<exists>b q r. reachable fq_init fq_step (b, c) \<and> b EncryptionLevel1RTT = Some q \<and> contents q = {#PingFrame, PaddingFrame#} \<and>
     fq_requestFrame 1 EncryptionLevel1RTT b c = Some r \<and>
     (\<forall>fs b' c'. r = Inr (fs, b', c') \<longrightarrow> (\<exists>q'. b' = b(EncryptionLevel1RTT \<mapsto> q') \<and> taken 1 q fs q' \<and>
       c' = (if contents q' = {#} then c else submit_prepare EncryptionLevel1RTT c)))"
proof
  fix c :: Connection
  let ?l = EncryptionLevel1RTT
  let ?q1 = "heap_Push PaddingFrame []"
  let ?b1 = "new_frameBuffer(?l \<mapsto> ?q1)"
  let ?q2 = "heap_Push PingFrame ?q1"
  let ?b2 = "?b1(?l \<mapsto> ?q2)"
  have "reachable fq_init fq_step (new_frameBuffer, c)" by (rule reachable.start) (simp add: fq_init_def)
  moreover have "fq_step (new_frameBuffer, c) (FqIncoming \<lparr>qf_Frame = PaddingFrame, qf_EncryptionLevel = ?l\<rparr>) (?b1, c)"
    by (rule fq_in) (simp add: fq_incoming_def new_frameBuffer_def NewFramePriorityQueue_def)
  ultimately have "reachable fq_init fq_step (?b1, c)" by (rule reachable.onward)
  moreover have "fq_step (?b1, c) (FqIncoming \<lparr>qf_Frame = PingFrame, qf_EncryptionLevel = ?l\<rparr>) (?b2, c)"
    by (rule fq_in) (simp add: fq_incoming_def)
  ultimately have r: "reachable fq_init fq_step (?b2, c)" by (rule reachable.onward)
  have inv: "pq_inv []" by (simp add: pq_inv_def items_ok_def is_heap_def)
  have "contents ?q2 = {#PingFrame, PaddingFrame#}"
    using heap_Push_ok(2) [OF heap_Push_ok(1) [OF inv]] heap_Push_ok(2) [OF inv] by (simp add: contents_def)
  with r frame_queue_request [OF r, of ?l 1] show "\<exists>b q r. reachable fq_init fq_step (b, c) \<and> b ?l = Some q \<and>
     contents q = {#PingFrame, PaddingFrame#} \<and> fq_requestFrame 1 ?l b c = Some r \<and>
     (\<forall>fs b' c'. r = Inr (fs, b', c') \<longrightarrow> (\<exists>q'. b' = b(?l \<mapsto> q') \<and> taken 1 q fs q' \<and>
       c' = (if contents q' = {#} then c else submit_prepare ?l c)))" by (metis EncryptionLevel.distinct(7) fun_upd_same option.inject)
qed

end
