(* ===== verification/FlowControl.thy ===== *)
theory FlowControl
  imports Packets
begin

text \<open>
  The flow control agent (\<^verbatim>\<open>agents/flow_control_agent.go\<close>): the credit for writing that the peer grants, and the credit for
  reading that is granted to the peer.

  Every branch of the select loop is a function on the agent and the connection. Go iterates over a map in any order, so
  the two loops over maps take the order of the keys as an argument. The main result is an invariant of
  all runs: the credit handed out, over the connection and for each stream, is what the counters say and never exceeds the limits of the
  peer, for every interleaving with steps of other agents that leave the credit alone.
\<close>

section \<open>The state\<close>

record FlowControlLimits =
  fl_StreamsBidi :: u64
  fl_StreamsUni :: u64
  fl_MaxData :: u64
  fl_MaxStreamDataBidiLocal :: u64
  fl_MaxStreamDataBidiRemote :: u64
  fl_MaxStreamDataUni :: u64

definition zero_FlowControlLimits :: FlowControlLimits where
  "zero_FlowControlLimits = \<lparr>fl_StreamsBidi = 0, fl_StreamsUni = 0, fl_MaxData = 0, fl_MaxStreamDataBidiLocal = 0,
     fl_MaxStreamDataBidiRemote = 0, fl_MaxStreamDataUni = 0\<rparr>"

definition FlowControlLimits_Copy :: "QuicTransportParameters \<Rightarrow> FlowControlLimits" where
  "FlowControlLimits_Copy tp =
     \<lparr>fl_StreamsBidi = tp_MaxBidiStreams tp, fl_StreamsUni = tp_MaxUniStreams tp, fl_MaxData = tp_MaxData tp,
      fl_MaxStreamDataBidiLocal = tp_MaxStreamDataBidiLocal tp,
      fl_MaxStreamDataBidiRemote = tp_MaxStreamDataBidiRemote tp, fl_MaxStreamDataUni = tp_MaxStreamDataUni tp\<rparr>"

text \<open>
  The fields of the agent and the variables of its loop. \<open>fc_creditsReserved\<close> is the log of the channel of that name, each
  credit with the stream it was reserved for.
\<close>

record FlowControlAgent =
  fc_LocalFC :: FlowControlLimits
  fc_RemoteFC :: FlowControlLimits
  fc_DisableFrameSending :: bool
  fc_DontSlideCreditWindow :: bool
  fc_blockedStreams :: "u64 \<Rightarrow> bool"
  fc_streamsDataLimits :: "u64 \<rightharpoonup> u64"
  fc_dataReserved :: u64
  fc_dataRead :: u64
  fc_dataBlocked :: bool
  fc_dataLimitsChanged :: bool
  fc_uniStreamsBlocked :: bool
  fc_bidiStreamsBlocked :: bool
  fc_ready :: bool
  fc_creditsReserved :: "(u64 \<times> u64) list"

record reserveCreditArgs =
  rc_StreamId :: u64
  rc_Credit :: u64
  rc_Partial :: bool

section \<open>The operations\<close>

text \<open>The limits of a stream are set at its first use.\<close>

definition InitStreamLimits :: "FlowControlAgent \<Rightarrow> u64 \<Rightarrow> Stream \<Rightarrow> Stream" where
  "InitStreamLimits a streamId s =
     (let s = (if WriteLimit s = MaxUint64 \<and> \<not> IsUniServer streamId then
                 if IsUni streamId then s\<lparr>WriteLimit := fl_MaxStreamDataUni (fc_RemoteFC a)\<rparr>
                 else if IsBidiClient streamId then s\<lparr>WriteLimit := fl_MaxStreamDataBidiRemote (fc_RemoteFC a)\<rparr>
                 else if IsBidiServer streamId then s\<lparr>WriteLimit := fl_MaxStreamDataBidiLocal (fc_RemoteFC a)\<rparr>
                 else s
               else s)
      in if ReadLimit s = MaxUint64 \<and> \<not> IsUniClient streamId then
           if IsUni streamId then s\<lparr>ReadLimit := fl_MaxStreamDataUni (fc_LocalFC a)\<rparr>
           else if IsBidiClient streamId then s\<lparr>ReadLimit := fl_MaxStreamDataBidiLocal (fc_LocalFC a)\<rparr>
           else if IsBidiServer streamId then s\<lparr>ReadLimit := fl_MaxStreamDataBidiRemote (fc_LocalFC a)\<rparr>
           else s
         else s)"

definition put_stream :: "u64 \<Rightarrow> Stream \<Rightarrow> Connection \<Rightarrow> Connection" where
  "put_stream i s c = c\<lparr>c_Streams := Streams_put i s (c_Streams c)\<rparr>"

text \<open>\<^verbatim>\<open>conn.Streams.Get\<close>, which makes the stream when there is none.\<close>

definition get_stream :: "u64 \<Rightarrow> Connection \<Rightarrow> Stream \<times> Connection" where
  "get_stream i c = (case Streams_Get i (c_Streams c) of (s, S) \<Rightarrow> (s, c\<lparr>c_Streams := S\<rparr>))"

definition fc_SubmitFrame :: "QueuedFrame \<Rightarrow> FlowControlAgent \<Rightarrow> Connection \<Rightarrow> Connection" where
  "fc_SubmitFrame f a c =
     (if fc_DisableFrameSending a then
        (let fr = \<lparr>fr_FrameType = FrameType (qf_Frame f), fr_EncryptionLevel = qf_EncryptionLevel f\<rparr>
         in c\<lparr>c_FlowControlQueue := (c_FlowControlQueue c)(fr := c_FlowControlQueue c fr @ [f])\<rparr>)
      else submit_frame f c)"

definition fc_tpReceived :: "QuicTransportParameters \<Rightarrow> FlowControlAgent \<Rightarrow> Connection \<Rightarrow> FlowControlAgent" where
  "fc_tpReceived tpRemote a c =
     a\<lparr>fc_LocalFC := FlowControlLimits_Copy (h_Params (c_TLSTPHandler c)),
       fc_RemoteFC := FlowControlLimits_Copy tpRemote, fc_ready := True\<rparr>"

text \<open>The frames of an incoming protected packet, one at a time; the other frames do nothing.\<close>

definition fc_MaxData :: "u64 \<Rightarrow> FlowControlAgent \<Rightarrow> FlowControlAgent" where
  "fc_MaxData m a =
     (if fl_MaxData (fc_RemoteFC a) > m then a
      else (let a = (if m > fl_MaxData (fc_RemoteFC a) then a\<lparr>fc_dataBlocked := False\<rparr> else a)
            in a\<lparr>fc_RemoteFC := (fc_RemoteFC a)\<lparr>fl_MaxData := m\<rparr>\<rparr>))"

definition fc_MaxStreams :: "MaxStreamsFrame \<Rightarrow> FlowControlAgent \<Rightarrow> FlowControlAgent" where
  "fc_MaxStreams ft a =
     (if mx_StreamsType ft = UniStreams then
        (if fl_StreamsUni (fc_RemoteFC a) > mx_MaximumStreams ft then a
         else (let a = (if mx_MaximumStreams ft > fl_StreamsUni (fc_RemoteFC a)
                        then a\<lparr>fc_uniStreamsBlocked := False\<rparr> else a)
               in a\<lparr>fc_RemoteFC := (fc_RemoteFC a)\<lparr>fl_StreamsUni := mx_MaximumStreams ft\<rparr>\<rparr>))
      else
        (if fl_StreamsBidi (fc_RemoteFC a) > mx_MaximumStreams ft then a
         else (let a = (if mx_MaximumStreams ft > fl_StreamsBidi (fc_RemoteFC a)
                        then a\<lparr>fc_bidiStreamsBlocked := False\<rparr> else a)
               in a\<lparr>fc_RemoteFC := (fc_RemoteFC a)\<lparr>fl_StreamsBidi := mx_MaximumStreams ft\<rparr>\<rparr>)))"

definition fc_MaxStreamData ::
    "MaxStreamDataFrame \<Rightarrow> FlowControlAgent \<Rightarrow> Connection \<Rightarrow> FlowControlAgent \<times> Connection" where
  "fc_MaxStreamData ft a c =
     (case get_stream (ms_StreamId ft) c of (s, c) \<Rightarrow>
      if IsUniServer (ms_StreamId ft) then (a, c)
      else if WriteLimit s > ms_MaximumStreamData ft then (a, c)
      else (if ms_MaximumStreamData ft > WriteLimit s
            then a\<lparr>fc_blockedStreams := (fc_blockedStreams a)(ms_StreamId ft := False)\<rparr> else a,
            put_stream (ms_StreamId ft) (s\<lparr>WriteLimit := ms_MaximumStreamData ft\<rparr>) c))"

text \<open>The part of the STREAM branch after the stream identifier was checked.\<close>

definition fc_stream_data ::
    "StreamFrame \<Rightarrow> Stream \<Rightarrow> FlowControlAgent \<Rightarrow> FlowControlAgent \<times> Stream" where
  "fc_stream_data ft s a =
     (let s = InitStreamLimits a (sf_StreamId ft) s;
          bufSpaceRequired = (sf_Offset ft + sf_Length ft) - ReadBufferOffset s
      in if sf_Offset ft + sf_Length ft > ReadLimit s then (a, s)
         else if sint bufSpaceRequired \<le> 0 then (a, s)
         else if fc_dataRead a + bufSpaceRequired > fl_MaxData (fc_LocalFC a) then (a, s)
         else
           (let a = a\<lparr>fc_dataRead := fc_dataRead a + bufSpaceRequired\<rparr>
            in if \<not> fc_DontSlideCreditWindow a then
                 (let s = s\<lparr>ReadLimit := ReadLimit s + bufSpaceRequired\<rparr>
                  in (a\<lparr>fc_LocalFC := (fc_LocalFC a)\<lparr>fl_MaxData := fl_MaxData (fc_LocalFC a) + bufSpaceRequired\<rparr>,
                        fc_dataLimitsChanged := True,
                        fc_streamsDataLimits := (fc_streamsDataLimits a)(sf_StreamId ft \<mapsto> ReadLimit s)\<rparr>, s))
               else (a, s)))"

definition fc_StreamFrame :: "StreamFrame \<Rightarrow> FlowControlAgent \<Rightarrow> Connection \<Rightarrow> FlowControlAgent \<times> Connection" where
  "fc_StreamFrame ft a c =
     (case get_stream (sf_StreamId ft) c of (s, c) \<Rightarrow>
      if IsBidiServer (sf_StreamId ft) \<and> (fl_StreamsBidi (fc_LocalFC a) = 0 \<or>
           GetMaxBidiServer (fl_StreamsBidi (fc_LocalFC a)) < sf_StreamId ft) then (a, c)
      else if IsUniServer (sf_StreamId ft) \<and> (fl_StreamsUni (fc_LocalFC a) = 0 \<or>
           GetMaxUniServer (fl_StreamsUni (fc_LocalFC a)) < sf_StreamId ft) then (a, c)
      else (case fc_stream_data ft s a of (a, s) \<Rightarrow> (a, put_stream (sf_StreamId ft) s c)))"

fun fc_frame :: "Frame \<Rightarrow> FlowControlAgent \<times> Connection \<Rightarrow> FlowControlAgent \<times> Connection" where
  "fc_frame (MaxData m) (a, c) = (fc_MaxData m a, c)"
| "fc_frame (MaxStreams f) (a, c) = (fc_MaxStreams f a, c)"
| "fc_frame (MaxStreamData f) (a, c) = fc_MaxStreamData f a c"
| "fc_frame (StreamF f) (a, c) = fc_StreamFrame f a c"
| "fc_frame _ (a, c) = (a, c)"

definition fc_incoming :: "Packet \<Rightarrow> FlowControlAgent \<Rightarrow> Connection \<Rightarrow> FlowControlAgent \<times> Connection" where
  "fc_incoming p a c =
     (case p of ProtectedP q \<Rightarrow> fold fc_frame (fp_Frames q) (a, c) | _ \<Rightarrow> (a, c))"

section \<open>Reserving credit\<close>

definition answer :: "u64 \<Rightarrow> u64 \<Rightarrow> FlowControlAgent \<Rightarrow> FlowControlAgent" where
  "answer streamId credit a = a\<lparr>fc_creditsReserved := fc_creditsReserved a @ [(streamId, credit)]\<rparr>"

text \<open>The two checks of the code: enough credit of the stream, then of the connection.\<close>

definition reserve :: "u64 \<Rightarrow> Stream \<Rightarrow> FlowControlAgent \<Rightarrow> u64 \<times> Stream \<times> FlowControlAgent" where
  "reserve credit s a =
     (if WriteReserved s + credit \<le> WriteLimit s \<and> fc_dataReserved a + credit \<le> fl_MaxData (fc_RemoteFC a)
      then (credit, s\<lparr>WriteReserved := WriteReserved s + credit\<rparr>,
            a\<lparr>fc_dataReserved := fc_dataReserved a + credit\<rparr>)
      else (0, s, a))"

definition fc_reserve_stream ::
    "reserveCreditArgs \<Rightarrow> FlowControlAgent \<Rightarrow> Connection \<Rightarrow> FlowControlAgent \<times> Connection" where
  "fc_reserve_stream args a c =
     (case get_stream (rc_StreamId args) c of (s, c) \<Rightarrow>
      let s = InitStreamLimits a (rc_StreamId args) s;
          credit = (if rc_Partial args
                    then go_min (go_min (rc_Credit args) (WriteLimit s - WriteReserved s))
                                (go_min (rc_Credit args) (fl_MaxData (fc_RemoteFC a) - fc_dataReserved a))
                    else rc_Credit args)
      in case reserve credit s a of (creditReserved, s, a) \<Rightarrow>
      let c = put_stream (rc_StreamId args) s c;
          streamBlocked = (\<not> fc_blockedStreams a (rc_StreamId args) \<and>
            (WriteReserved s \<ge> WriteLimit s \<or> creditReserved < credit));
          c = (if streamBlocked
               then fc_SubmitFrame \<lparr>qf_Frame = StreamDataBlocked \<lparr>sd_StreamId = rc_StreamId args,
                      sd_StreamDataLimit = WriteLimit s\<rparr>, qf_EncryptionLevel = EncryptionLevelBestAppData\<rparr> a c else c);
          a = (if streamBlocked then a\<lparr>fc_blockedStreams := (fc_blockedStreams a)(rc_StreamId args := True)\<rparr> else a);
          connBlocked = (\<not> fc_dataBlocked a \<and> fc_dataReserved a \<ge> fl_MaxData (fc_LocalFC a));
          c = (if connBlocked
               then fc_SubmitFrame \<lparr>qf_Frame = DataBlocked (WriteLimit s),
                      qf_EncryptionLevel = EncryptionLevelBestAppData\<rparr> a c else c);
          a = (if connBlocked then a\<lparr>fc_dataBlocked := True\<rparr> else a)
      in (answer (rc_StreamId args) creditReserved a, c))"

definition fc_reserveCredit ::
    "reserveCreditArgs \<Rightarrow> FlowControlAgent \<Rightarrow> Connection \<Rightarrow> FlowControlAgent \<times> Connection" where
  "fc_reserveCredit args a c =
     (let streamId = rc_StreamId args in
      if \<not> fc_ready a then (answer streamId 0 a, c)
      else if IsBidiClient streamId \<and> \<not> fc_bidiStreamsBlocked a \<and> (fl_StreamsBidi (fc_RemoteFC a) = 0 \<or>
          GetMaxBidiClient (fl_StreamsBidi (fc_RemoteFC a)) < streamId) then
        (answer streamId 0 (a\<lparr>fc_bidiStreamsBlocked := True\<rparr>),
         fc_SubmitFrame \<lparr>qf_Frame = StreamsBlocked \<lparr>sb_StreamsType = BidiStreams,
           sb_StreamLimit = fl_StreamsBidi (fc_RemoteFC a)\<rparr>, qf_EncryptionLevel = EncryptionLevelBestAppData\<rparr> a c)
      else if IsUniClient streamId \<and> \<not> fc_uniStreamsBlocked a \<and> (fl_StreamsUni (fc_RemoteFC a) = 0 \<or>
          GetMaxUniClient (fl_StreamsUni (fc_RemoteFC a)) < streamId) then
        (answer streamId 0 (a\<lparr>fc_uniStreamsBlocked := False\<rparr>),
         fc_SubmitFrame \<lparr>qf_Frame = StreamsBlocked \<lparr>sb_StreamsType = UniStreams,
           sb_StreamLimit = fl_StreamsUni (fc_RemoteFC a)\<rparr>, qf_EncryptionLevel = EncryptionLevelBestAppData\<rparr> a c)
      else fc_reserve_stream args a c)"

section \<open>Frames on request\<close>

text \<open>The loop that takes the frames that fit.\<close>

fun fitting :: "Frame list \<Rightarrow> int \<Rightarrow> int \<Rightarrow> Frame list res" where
  "fitting [] availableSpace totalSize = Inr []"
| "fitting (f # fs) availableSpace totalSize =
     bind_res (FrameLength f) (\<lambda>fLen.
     if totalSize + uint fLen < availableSpace
     then bind_res (fitting fs availableSpace (totalSize + uint fLen)) (\<lambda>frames. Inr (f # frames))
     else fitting fs availableSpace totalSize)"

text \<open>\<open>ls\<close> and \<open>bs\<close> are the keys of the two maps in the order Go visits them; the second loop may make streams.\<close>

fun blocked_frames :: "u64 list \<Rightarrow> Connection \<Rightarrow> Frame list \<times> Connection" where
  "blocked_frames [] c = ([], c)"
| "blocked_frames (i # is) c =
     (case get_stream i c of (s, c) \<Rightarrow>
      case blocked_frames is c of (fs, c) \<Rightarrow>
      (StreamDataBlocked \<lparr>sd_StreamId = i, sd_StreamDataLimit = WriteLimit s\<rparr> # fs, c))"

definition limit_frames :: "u64 list \<Rightarrow> FlowControlAgent \<Rightarrow> Frame list" where
  "limit_frames ls a =
     (if fc_dataLimitsChanged a then [MaxData (fl_MaxData (fc_LocalFC a))] else []) @
     map (\<lambda>i. MaxStreamData \<lparr>ms_StreamId = i, ms_MaximumStreamData = the (fc_streamsDataLimits a i)\<rparr>) ls @
     (if fc_dataBlocked a then [DataBlocked (fl_MaxData (fc_RemoteFC a))] else []) @
     (if fc_bidiStreamsBlocked a
      then [StreamsBlocked \<lparr>sb_StreamsType = BidiStreams, sb_StreamLimit = fl_StreamsBidi (fc_RemoteFC a)\<rparr>] else []) @
     (if fc_uniStreamsBlocked a
      then [StreamsBlocked \<lparr>sb_StreamsType = UniStreams, sb_StreamLimit = fl_StreamsUni (fc_RemoteFC a)\<rparr>] else [])"

definition fc_requestFrame ::
    "u64 list \<Rightarrow> u64 list \<Rightarrow> int \<Rightarrow> EncryptionLevel \<Rightarrow> FlowControlAgent \<Rightarrow> Connection \<Rightarrow>
     (Frame list \<times> FlowControlAgent \<times> Connection) res" where
  "fc_requestFrame ls bs availableSpace level a c =
     (if level \<noteq> EncryptionLevel0RTT \<and> level \<noteq> EncryptionLevel1RTT then Inr ([], a, c)
      else
        (case blocked_frames bs c of (blocked, c) \<Rightarrow>
         bind_res (fitting (limit_frames ls a @ blocked) availableSpace 0) (\<lambda>frames.
         let a = a\<lparr>fc_dataLimitsChanged := False, fc_streamsDataLimits := Map.empty\<rparr>
         in if fc_DisableFrameSending a
            then Inr ([], a, fold (\<lambda>f. fc_SubmitFrame \<lparr>qf_Frame = f, qf_EncryptionLevel = level\<rparr> a) frames c)
            else Inr (frames, a, c))))"

text \<open>A frame sent on demand, from the queue or made up.\<close>

definition fc_SendFromQueue :: "FrameRequest \<Rightarrow> Connection \<Rightarrow> Connection" where
  "fc_SendFromQueue fr c =
     (case c_FlowControlQueue c fr of
        queuedFrame # rest \<Rightarrow>
          (submit_frame queuedFrame c)\<lparr>c_FlowControlQueue := (c_FlowControlQueue c)(fr := rest)\<rparr>
      | [] \<Rightarrow>
          (let h = c_TLSTPHandler c;
               c = c\<lparr>c_TLSTPHandler := h\<lparr>h_Params := (h_Params h)
                 \<lparr>tp_MaxStreamDataBidiLocal := tp_MaxStreamDataBidiLocal (h_Params h) * 2, tp_MaxData := 64 * 1024\<rparr>\<rparr>\<rparr>;
               h = h_Params (c_TLSTPHandler c)
           in if fr_FrameType fr = MaxDataType then
                submit_frame \<lparr>qf_Frame = MaxData (tp_MaxData h), qf_EncryptionLevel = fr_EncryptionLevel fr\<rparr> c
              else if fr_FrameType fr = MaxStreamDataType then
                submit_frame \<lparr>qf_Frame = MaxStreamData \<lparr>ms_StreamId = of_int (go_Max (sint (c_CurrentStreamID c - 4)) 0),
                  ms_MaximumStreamData = tp_MaxStreamDataBidiLocal h\<rparr>, qf_EncryptionLevel = fr_EncryptionLevel fr\<rparr> c
              else c))"

section \<open>The credit of a stream\<close>

definition write_credit :: "u64 \<Rightarrow> Connection \<Rightarrow> u64 \<times> u64" where
  "write_credit i c = (case get_stream i c of (s, _) \<Rightarrow> (WriteReserved s, WriteLimit s))"

lemma Streams_Has_put [simp]: "Streams_Has j (Streams_put i x S) = (if j = i then Some x else Streams_Has j S)"
proof -
  have "map_of (map (\<lambda>(k, y). if k = i then (k, x) else (k, y)) xs) j =
      (if j = i \<and> map_of xs i \<noteq> None then Some x else map_of xs j)" for xs
    by (induction xs) auto
  then show ?thesis by (auto simp: Streams_Has_def Streams_put_def map_add_def split: option.splits)
qed

lemma write_credit_put [simp]:
  "write_credit j (put_stream i s c) = (if j = i then (WriteReserved s, WriteLimit s) else write_credit j c)"
  by (simp add: write_credit_def get_stream_def put_stream_def Streams_Get_def split: option.split)

lemma get_stream_credit:
  assumes "get_stream i c = (s, c')"
  shows "write_credit j c' = write_credit j c" "(WriteReserved s, WriteLimit s) = write_credit i c"
  using assms
  by (auto simp: write_credit_def get_stream_def Streams_Get_def split: option.splits prod.splits if_splits)

lemma write_credit_streams: "c_Streams c' = c_Streams c \<Longrightarrow> write_credit i c' = write_credit i c"
  by (simp add: write_credit_def get_stream_def split: prod.splits)

lemma streams_submit [simp]:
  "c_Streams (fc_SubmitFrame f a c) = c_Streams c" "c_Streams (submit_frame f c) = c_Streams c"
  by (simp_all add: fc_SubmitFrame_def submit_defs Let_def)

lemma credit_submit [simp]: "write_credit i (fc_SubmitFrame f a c) = write_credit i c"
  by (rule write_credit_streams) simp

section \<open>The invariant\<close>

text \<open>
  The credit handed out, for one stream and in all; and the relation to keep. A limit that is still \<^verbatim>\<open>math.MaxUint64\<close> was not
  set yet, so nothing was reserved; only on the peer's own streams it is never set.
\<close>

definition granted :: "u64 \<Rightarrow> FlowControlAgent \<Rightarrow> nat" where
  "granted i a = (\<Sum>(j, n) \<leftarrow> fc_creditsReserved a. if j = i then unat n else 0)"

definition granted_total :: "FlowControlAgent \<Rightarrow> nat" where
  "granted_total a = (\<Sum>(j, n) \<leftarrow> fc_creditsReserved a. unat n)"

definition credit_ok :: "u64 \<Rightarrow> u64 \<times> u64 \<Rightarrow> bool" where
  "credit_ok i p \<longleftrightarrow> fst p \<le> snd p \<and> (IsUniServer i \<or> fits62 (snd p) \<or> snd p = MaxUint64 \<and> fst p = 0)"

definition limits62 :: "FlowControlLimits \<Rightarrow> bool" where
  "limits62 l \<longleftrightarrow> fits62 (fl_MaxData l) \<and> fits62 (fl_MaxStreamDataBidiLocal l) \<and>
     fits62 (fl_MaxStreamDataBidiRemote l) \<and> fits62 (fl_MaxStreamDataUni l)"

definition fc_inv :: "FlowControlAgent \<times> Connection \<Rightarrow> bool" where
  "fc_inv s \<longleftrightarrow> (case s of (a, c) \<Rightarrow>
     limits62 (fc_RemoteFC a) \<and> fc_dataReserved a \<le> fl_MaxData (fc_RemoteFC a) \<and>
     granted_total a = unat (fc_dataReserved a) \<and>
     (\<forall>i. granted i a = unat (fst (write_credit i c)) \<and> credit_ok i (write_credit i c)))"

text \<open>The agent starts with zeroed variables on fresh streams.\<close>

definition fc_init :: "FlowControlAgent \<times> Connection \<Rightarrow> bool" where
  "fc_init s \<longleftrightarrow> (case s of (a, c) \<Rightarrow>
     fc_RemoteFC a = zero_FlowControlLimits \<and> fc_dataReserved a = 0 \<and> fc_creditsReserved a = [] \<and>
     (\<forall>i. write_credit i c = (0, MaxUint64)))"

text \<open>
  The steps. Limits come from variable-length integers, so they are below \<open>2 ^ 62\<close>; the peer does not take back credit by sending its
  parameters again; nobody asks for more than \<open>2 ^ 62\<close> bytes at once. Other agents may change the connection
  as long as they leave the credit of the streams alone.
\<close>

fun limit62 :: "Frame \<Rightarrow> bool" where
  "limit62 (MaxData m) \<longleftrightarrow> fits62 m"
| "limit62 (MaxStreamData f) \<longleftrightarrow> fits62 (ms_MaximumStreamData f)"
| "limit62 _ \<longleftrightarrow> True"

datatype fc_event =
    FcParameters QuicTransportParameters
  | FcIncoming Packet
  | FcReserve reserveCreditArgs
  | FcRequest "u64 list" "u64 list" int EncryptionLevel
  | FcSend FrameRequest
  | FcOther

inductive fc_step :: "FlowControlAgent \<times> Connection \<Rightarrow> fc_event \<Rightarrow> FlowControlAgent \<times> Connection \<Rightarrow> bool" where
  fc_parameters: "limits62 (FlowControlLimits_Copy tp) \<Longrightarrow> fl_MaxData (fc_RemoteFC a) \<le> tp_MaxData tp \<Longrightarrow>
    fc_step (a, c) (FcParameters tp) (fc_tpReceived tp a c, c)"
| fc_incoming: "(\<And>q. p = ProtectedP q \<Longrightarrow> \<forall>f \<in> set (fp_Frames q). limit62 f) \<Longrightarrow>
    fc_step (a, c) (FcIncoming p) (fc_incoming p a c)"
| fc_reserve: "fits62 (rc_Credit args) \<Longrightarrow> fc_step (a, c) (FcReserve args) (fc_reserveCredit args a c)"
| fc_request: "fc_requestFrame ls bs n level a c = Inr (fs, a', c') \<Longrightarrow>
    set ls = dom (fc_streamsDataLimits a) \<Longrightarrow> distinct ls \<Longrightarrow>
    set bs = {i. fc_blockedStreams a i} \<Longrightarrow> distinct bs \<Longrightarrow>
    fc_step (a, c) (FcRequest ls bs n level) (a', c')"
| fc_send: "fc_step (a, c) (FcSend fr) (a, fc_SendFromQueue fr c)"
| fc_other: "(\<And>i. write_credit i c' = write_credit i c) \<Longrightarrow> fc_step (a, c) FcOther (a, c')"

section \<open>The steps keep it\<close>

lemma and_2: "i AND 2 = (if bit i 1 then 2 else 0)" for i :: u64
  by (rule bit_word_eqI) (auto simp: bit_and_iff bit_2_iff)

lemma and_1: "i AND 1 = (if bit i 0 then 1 else 0)" for i :: u64
  by (rule bit_word_eqI) (auto simp: bit_and_iff bit_1_iff intro: gr0I)

lemma stream_kinds: "IsUni i \<or> IsBidiClient i \<or> IsBidiServer i"
  by (simp add: IsUni_def IsBidiClient_def IsBidiServer_def IsBidi_def IsClient_def IsServer_def and_2 and_1)

lemma not_fits62_Max: "\<not> fits62 MaxUint64"
  by (simp add: fits62_def MaxUint64_def)

lemma InitStreamLimits_credit:
  assumes "credit_ok i (WriteReserved s, WriteLimit s)" "limits62 (fc_RemoteFC a)"
  shows "WriteReserved (InitStreamLimits a i s) = WriteReserved s"
    "credit_ok i (WriteReserved s, WriteLimit (InitStreamLimits a i s))"
    "IsUniServer i \<or> fits62 (WriteLimit (InitStreamLimits a i s))"
  using assms stream_kinds [of i] not_fits62_Max
  by (auto simp: InitStreamLimits_def Let_def credit_ok_def limits62_def)

lemma granted_le: "granted i a \<le> granted_total a"
  unfolding granted_def granted_total_def by (rule sum_list_mono) auto

lemma granted_answer:
  "granted i (answer j n a) = granted i a + (if j = i then unat n else 0)"
  "granted_total (answer j n a) = granted_total a + unat n"
  by (simp_all add: granted_def granted_total_def answer_def)

lemma answer_same [simp]:
  "fc_RemoteFC (answer j n a) = fc_RemoteFC a" "fc_dataReserved (answer j n a) = fc_dataReserved a"
  by (simp_all add: answer_def)

text \<open>The invariant looks at three fields of the agent and at the credit of the streams.\<close>

lemma fc_inv_cong:
  assumes "fc_inv (a, c)" "fc_RemoteFC a' = fc_RemoteFC a" "fc_dataReserved a' = fc_dataReserved a"
    "fc_creditsReserved a' = fc_creditsReserved a" "\<And>i. write_credit i c' = write_credit i c"
  shows "fc_inv (a', c')"
  using assms by (simp add: fc_inv_def granted_def granted_total_def)

lemma plus_62:
  assumes "unat r < 2 ^ 62" "fits62 n"
  shows "unat (r + n) = unat r + unat (n :: u64)"
  using assms by (simp add: fits62_def unat_word_ariths)

lemma go_min_le: "go_min x y \<le> x" "go_min x y \<le> y"
  by (auto simp: go_min_def)

lemma fits62_mono: "x \<le> y \<Longrightarrow> fits62 y \<Longrightarrow> fits62 x"
  by (simp add: fits62_def word_le_nat_alt)

text \<open>Reserving on a stream whose limits were set.\<close>

lemma reserve_inv:
  assumes inv: "fc_inv (a, c)" and s: "WriteReserved s = fst (write_credit i c)"
    "fst (write_credit i c) \<le> WriteLimit s" "IsUniServer i \<or> fits62 (WriteLimit s)" and n: "fits62 n"
    and r: "reserve n s a = (m, s', a')"
  shows "fc_inv (answer i m a', put_stream i s' c)"
proof -
  have "granted i a \<le> granted_total a" by (rule granted_le)
  then have small: "unat (fst (write_credit i c)) < 2 ^ 62" "unat (fc_dataReserved a) < 2 ^ 62"
    using inv by (auto simp: fc_inv_def limits62_def fits62_def word_le_nat_alt)
  show ?thesis
  proof (cases "m = 0")
    case True
    with r s inv show ?thesis
      by (auto simp: reserve_def fc_inv_def granted_answer credit_ok_def split: if_splits)
  next
    case False
    with r have *: "m = n" "s' = s\<lparr>WriteReserved := WriteReserved s + n\<rparr>"
      "a' = a\<lparr>fc_dataReserved := fc_dataReserved a + n\<rparr>" "WriteReserved s + n \<le> WriteLimit s"
      "fc_dataReserved a + n \<le> fl_MaxData (fc_RemoteFC a)"
      by (auto simp: reserve_def split: if_splits)
    have "granted j a' = granted j a" "granted_total a' = granted_total a" for j
      by (simp_all add: granted_def granted_total_def *(3))
    with inv * s small plus_62 [OF _ n] show ?thesis
      by (auto simp: fc_inv_def granted_answer credit_ok_def)
  qed
qed

lemma fc_MaxData_inv:
  assumes "fc_inv (a, c)" "fits62 m"
  shows "fc_inv (fc_MaxData m a, c)"
  using assms
  by (auto simp: fc_MaxData_def fc_inv_def Let_def granted_def granted_total_def limits62_def)

lemma fc_MaxStreams_inv: "fc_inv (a, c) \<Longrightarrow> fc_inv (fc_MaxStreams f a, c)"
  by (auto simp: fc_MaxStreams_def fc_inv_def Let_def granted_def granted_total_def limits62_def)

lemma put_stream_inv:
  assumes "fc_inv (a, c)" "WriteReserved s = fst (write_credit i c)" "credit_ok i (WriteReserved s, WriteLimit s)"
  shows "fc_inv (a, put_stream i s c)"
  using assms by (auto simp: fc_inv_def)

lemma fc_MaxStreamData_inv:
  assumes inv: "fc_inv (a, c)" and f: "fits62 (ms_MaximumStreamData f)"
  shows "fc_inv (fc_MaxStreamData f a c)"
proof -
  let ?i = "ms_StreamId f"
  obtain s c' where g: "get_stream ?i c = (s, c')" by fastforce
  note cr = get_stream_credit [OF g]
  have inv': "fc_inv (a, c')" using fc_inv_cong [OF inv] cr(1) by simp
  let ?s = "s\<lparr>WriteLimit := ms_MaximumStreamData f\<rparr>"
  have *: "WriteReserved ?s = fst (write_credit ?i c')" using cr by (metis Stream.select_convs(6) Stream.surjective Stream.update_convs(5) fst_conv)
  have ok: "credit_ok ?i (WriteReserved s, WriteLimit s)" using inv cr by (simp add: fc_inv_def)
  have "fc_inv (a, put_stream ?i ?s c')" if "\<not> WriteLimit s > ms_MaximumStreamData f"
    using that f ok by (intro put_stream_inv [OF inv' *]) (auto simp: credit_ok_def)
  then show ?thesis
    using inv' fc_inv_cong [of a "put_stream ?i ?s c'"] by (auto simp: fc_MaxStreamData_def g)
qed

lemma fc_stream_data_same:
  assumes "fc_stream_data f s a = (a', s')"
  shows "fc_RemoteFC a' = fc_RemoteFC a" "fc_dataReserved a' = fc_dataReserved a"
    "fc_creditsReserved a' = fc_creditsReserved a" "WriteReserved s' = WriteReserved (InitStreamLimits a (sf_StreamId f) s)"
    "WriteLimit s' = WriteLimit (InitStreamLimits a (sf_StreamId f) s)"
  using assms by (auto simp: fc_stream_data_def Let_def split: if_splits)

lemma fc_StreamFrame_inv:
  assumes inv: "fc_inv (a, c)"
  shows "fc_inv (fc_StreamFrame f a c)"
proof -
  let ?i = "sf_StreamId f"
  obtain s c' where g: "get_stream ?i c = (s, c')" by fastforce
  note cr = get_stream_credit [OF g]
  have inv': "fc_inv (a, c')" using fc_inv_cong [OF inv] cr(1) by simp
  obtain a' s' where d: "fc_stream_data f s a = (a', s')" by fastforce
  have ok: "credit_ok ?i (WriteReserved s, WriteLimit s)" "limits62 (fc_RemoteFC a)" using inv cr by (auto simp: fc_inv_def)
  note init = InitStreamLimits_credit [OF ok]
  have "WriteReserved s = fst (write_credit ?i c')" using cr by (metis fst_conv)
  then have "fc_inv (a, put_stream ?i s' c')"
    using init by (intro put_stream_inv [OF inv']) (simp_all add: fc_stream_data_same [OF d])
  then have "fc_inv (a', put_stream ?i s' c')"
    by (rule fc_inv_cong) (simp_all add: fc_stream_data_same [OF d])
  with inv' show ?thesis by (simp add: fc_StreamFrame_def g d)
qed

lemma fc_frame_inv: "fc_inv s \<Longrightarrow> limit62 f \<Longrightarrow> fc_inv (fc_frame f s)"
  by (cases s; cases f)
    (simp_all add: fc_MaxData_inv fc_MaxStreams_inv fc_MaxStreamData_inv fc_StreamFrame_inv)

lemma fc_frames_inv: "fc_inv s \<Longrightarrow> \<forall>f \<in> set fs. limit62 f \<Longrightarrow> fc_inv (fold fc_frame fs s)"
  by (induction fs arbitrary: s) (simp_all add: fc_frame_inv)

lemma fc_reserve_stream_inv:
  assumes inv: "fc_inv (a, c)" and n: "fits62 (rc_Credit args)"
  shows "fc_inv (fc_reserve_stream args a c)"
proof -
  let ?i = "rc_StreamId args"
  obtain s0 c' where g: "get_stream ?i c = (s0, c')" by fastforce
  note cr = get_stream_credit [OF g]
  have inv': "fc_inv (a, c')" using fc_inv_cong [OF inv] cr(1) by simp
  define s where "s = InitStreamLimits a ?i s0"
  have ok: "credit_ok ?i (WriteReserved s0, WriteLimit s0)" "limits62 (fc_RemoteFC a)" using inv cr by (auto simp: fc_inv_def)
  have w0: "WriteReserved s0 = fst (write_credit ?i c')" using cr by (metis fst_conv)
  have init: "WriteReserved s = fst (write_credit ?i c')" "fst (write_credit ?i c') \<le> WriteLimit s"
    "IsUniServer ?i \<or> fits62 (WriteLimit s)"
    using InitStreamLimits_credit [OF ok] unfolding s_def w0 [symmetric] by (simp_all add: credit_ok_def)
  define credit where "credit = (if rc_Partial args
                    then go_min (go_min (rc_Credit args) (WriteLimit s - WriteReserved s))
                                (go_min (rc_Credit args) (fl_MaxData (fc_RemoteFC a) - fc_dataReserved a))
                    else rc_Credit args)"
  have "credit \<le> rc_Credit args" using go_min_le order_trans by (fastforce simp: credit_def)
  then have c62: "fits62 credit" by (rule fits62_mono [OF _ n])
  obtain m s' a' where r: "reserve credit s a = (m, s', a')" by (metis prod_cases3)
  note inv2 = reserve_inv [OF inv' init c62 r]
  obtain a2 c2 where e: "fc_reserve_stream args a c = (a2, c2)" by fastforce
  have "fc_RemoteFC a2 = fc_RemoteFC (answer ?i m a')" "fc_dataReserved a2 = fc_dataReserved (answer ?i m a')"
    "fc_creditsReserved a2 = fc_creditsReserved (answer ?i m a')"
    "\<And>j. write_credit j c2 = write_credit j (put_stream ?i s' c')"
    using e unfolding fc_reserve_stream_def g prod.case Let_def s_def [symmetric] credit_def [symmetric] r
    by (auto simp: answer_def)
  from fc_inv_cong [OF inv2 this] e show ?thesis by simp
qed

lemma fc_reserveCredit_inv:
  assumes inv: "fc_inv (a, c)" and n: "fits62 (rc_Credit args)"
  shows "fc_inv (fc_reserveCredit args a c)"
proof -
  have "fc_inv (answer i 0 a', c')" if "fc_RemoteFC a' = fc_RemoteFC a" "fc_dataReserved a' = fc_dataReserved a"
    "fc_creditsReserved a' = fc_creditsReserved a" "\<And>j. write_credit j c' = write_credit j c" for i a' c'
    using fc_inv_cong [OF inv that] by (simp add: fc_inv_def granted_answer)
  then show ?thesis
    using fc_reserve_stream_inv [OF assms] by (simp add: fc_reserveCredit_def Let_def)
qed

lemma blocked_frames_credit: "blocked_frames is c = (fs, c') \<Longrightarrow> write_credit j c' = write_credit j c"
  by (induction "is" arbitrary: c fs) (auto simp: get_stream_credit(1) split: prod.splits)

lemma fold_submit_credit: "write_credit j (fold (\<lambda>f. fc_SubmitFrame (g f) a) fs c) = write_credit j c"
  by (induction fs arbitrary: c) simp_all

lemma fc_requestFrame_inv:
  assumes "fc_requestFrame ls bs n level a c = Inr (fs, a', c')" "fc_inv (a, c)"
  shows "fc_inv (a', c')"
proof -
  obtain bl c1 where b: "blocked_frames bs c = (bl, c1)" by fastforce
  have "fc_RemoteFC a' = fc_RemoteFC a \<and> fc_dataReserved a' = fc_dataReserved a \<and>
    fc_creditsReserved a' = fc_creditsReserved a \<and> (\<forall>j. write_credit j c' = write_credit j c)"
    using assms(1) blocked_frames_credit [OF b]
    by (auto simp: fc_requestFrame_def b Let_def fold_submit_credit split: if_splits)
  then show ?thesis using fc_inv_cong [OF assms(2)] by blast
qed

lemma fc_SendFromQueue_credit: "write_credit j (fc_SendFromQueue fr c) = write_credit j c"
  by (rule write_credit_streams) (simp add: fc_SendFromQueue_def Let_def submit_defs split: list.split)

interpretation fc_machine: machine fc_init fc_step fc_inv
proof (unfold_locales, goal_cases)
  case (1 s)
  then show ?case
    by (auto simp: fc_init_def fc_inv_def zero_FlowControlLimits_def limits62_def fits62_def granted_def
        granted_total_def credit_ok_def)
next
  case (2 s e s')
  from 2(2) show ?case
  proof cases
    case (fc_parameters tp a c)
    with 2(1) show ?thesis
      by (auto simp: fc_inv_def fc_tpReceived_def granted_def granted_total_def FlowControlLimits_Copy_def)
  next
    case (fc_incoming p a c)
    with 2(1) show ?thesis by (auto simp: fc_incoming_def fc_frames_inv split: Packet.split)
  next
    case (fc_reserve args a c)
    with 2(1) show ?thesis by (simp add: fc_reserveCredit_inv)
  next
    case (fc_request ls bs n level a c fs a' c')
    with 2(1) show ?thesis by (metis fc_requestFrame_inv)
  next
    case (fc_send a c fr)
    with 2(1) show ?thesis by (metis fc_inv_cong fc_SendFromQueue_credit)
  next
    case (fc_other c' c a)
    with 2(1) show ?thesis by (metis fc_inv_cong)
  qed
qed

section \<open>Properties\<close>

text \<open>
  C6. Flow control is respected: after any run of the agent, interleaved with other agents, the credit that was handed out over the
  connection is the counter of reserved data and within the limit of the peer; the credit of every stream is within the limit of the stream, and
  nothing is handed out before that limit was set from what the peer announced.
\<close>

theorem credit_within_limits:
  assumes "reachable fc_init fc_step (a, c)"
  shows "granted_total a = unat (fc_dataReserved a) \<and> granted_total a \<le> unat (fl_MaxData (fc_RemoteFC a)) \<and>
    (\<forall>i. granted i a = unat (fst (write_credit i c)) \<and> granted i a \<le> unat (snd (write_credit i c)) \<and>
       (granted i a > 0 \<longrightarrow> IsUniServer i \<or> snd (write_credit i c) \<noteq> MaxUint64))"
proof -
  have "fc_inv (a, c)" by (rule fc_machine.inv_reachable [OF assms])
  then show ?thesis using not_fits62_Max by (auto simp: fc_inv_def credit_ok_def word_le_nat_alt)
qed

lemma credit_within_limits_witness:
  "\<forall>a c. \<exists>a' c'. reachable fc_init fc_step (a', c') \<and> granted_total a' = 30 \<and> granted 0 a' = 30 \<and>
     30 \<le> unat (fl_MaxData (fc_RemoteFC a'))"
proof (intro allI)
  fix a :: FlowControlAgent and c :: Connection
  let ?a = "a\<lparr>fc_RemoteFC := zero_FlowControlLimits, fc_dataReserved := 0, fc_creditsReserved := [],
     fc_bidiStreamsBlocked := False\<rparr>"
  let ?c = "c\<lparr>c_Streams := \<lparr>streams = [], streams_input = NewBroadcaster\<rparr>\<rparr>"
  let ?tp = "zero_QuicTransportParameters\<lparr>tp_MaxData := 100, tp_MaxStreamDataBidiRemote := 50, tp_MaxBidiStreams := 1\<rparr>"
  let ?args = "\<lparr>rc_StreamId = 0, rc_Credit = 30, rc_Partial = False\<rparr>"
  obtain a2 c2 where e: "fc_reserveCredit ?args (fc_tpReceived ?tp ?a ?c) ?c = (a2, c2)" by fastforce
  have "fc_init (?a, ?c)"
    by (simp add: fc_init_def write_credit_def get_stream_def Streams_Get_def Streams_Has_def NewStream_def)
  then have "reachable fc_init fc_step (?a, ?c)" by (rule reachable.start)
  moreover have "fc_step (?a, ?c) (FcParameters ?tp) (fc_tpReceived ?tp ?a ?c, ?c)"
    by (rule fc_parameters) (simp_all add: limits62_def FlowControlLimits_Copy_def fits62_def zero_FlowControlLimits_def
        zero_QuicTransportParameters_def)
  ultimately have "reachable fc_init fc_step (fc_tpReceived ?tp ?a ?c, ?c)" by (rule reachable.onward)
  moreover have "fc_step (fc_tpReceived ?tp ?a ?c, ?c) (FcReserve ?args) (a2, c2)"
    unfolding e [symmetric] by (rule fc_reserve) (simp add: fits62_def)
  ultimately have r: "reachable fc_init fc_step (a2, c2)" by (rule reachable.onward)
  have "fc_creditsReserved a2 = [(0, 30)] \<and> fl_MaxData (fc_RemoteFC a2) = 100"
    using e by (auto simp: fc_reserveCredit_def fc_reserve_stream_def fc_tpReceived_def FlowControlLimits_Copy_def Let_def
        get_stream_def Streams_Get_def Streams_Has_def NewStream_def InitStreamLimits_def MaxUint64_def reserve_def
        answer_def IsUniServer_def IsUni_def IsBidiClient_def IsBidi_def IsClient_def GetMaxBidiClient_def
        IsUniClient_def)
  then have g: "granted 0 a2 = 30" "fl_MaxData (fc_RemoteFC a2) = 100" "fc_creditsReserved a2 = [(0, 30)]"
    by (simp_all add: granted_def)
  have "granted_total a2 = unat (fc_dataReserved a2)" "granted_total a2 \<le> unat (fl_MaxData (fc_RemoteFC a2))"
    using credit_within_limits [OF r] by blast+
  moreover have "granted_total a2 = 30" using g(3) by (simp add: granted_total_def)
  ultimately show "\<exists>a' c'. reachable fc_init fc_step (a', c') \<and> granted_total a' = 30 \<and> granted 0 a' = 30 \<and>
     30 \<le> unat (fl_MaxData (fc_RemoteFC a'))" using r g by metis
qed

text \<open>
  Four slips of the bookkeeping. Updates of the limits granted to the peer are forgotten when their frames do not fit the offered
  space. A MAX_STREAM_DATA frame for a stream that was not used yet is ignored, because the limit of a fresh stream is the largest number.
  The flag for blocked unidirectional streams is cleared where it should be set, so every further attempt queues another
  STREAMS_BLOCKED frame. The largest permitted stream identifier is computed one stream too high: with one stream permitted, credit is reserved for
  the second one, number 4.
\<close>

lemma flow_control_slips:
  "(level = EncryptionLevel1RTT \<and> fc_requestFrame ls bs 0 level a c = Inr (fs, a', c') \<longrightarrow>
      fs = [] \<and> \<not> fc_dataLimitsChanged a' \<and> fc_streamsDataLimits a' = Map.empty) \<and>
   (Streams_Has (ms_StreamId f) (c_Streams c) = None \<and> ms_MaximumStreamData f < MaxUint64 \<longrightarrow>
      write_credit (ms_StreamId f) (snd (fc_MaxStreamData f a c)) = (0, MaxUint64)) \<and>
   (fc_ready a \<and> IsUniClient (rc_StreamId args) \<and> \<not> fc_uniStreamsBlocked a \<and> \<not> fc_DisableFrameSending a \<and>
      fl_StreamsUni (fc_RemoteFC a) = 0 \<longrightarrow>
      (case fc_reserveCredit args a c of (a', c') \<Rightarrow> \<not> fc_uniStreamsBlocked a' \<and>
         c_FrameQueue c' = c_FrameQueue c @ [\<lparr>qf_Frame = StreamsBlocked \<lparr>sb_StreamsType = UniStreams, sb_StreamLimit = 0\<rparr>,
           qf_EncryptionLevel = EncryptionLevelBestAppData\<rparr>])) \<and>
   (fc_ready a \<and> fl_StreamsBidi (fc_RemoteFC a) = 1 \<and> rc_StreamId args = 4 \<longrightarrow>
      fc_reserveCredit args a c = fc_reserve_stream args a c)"
proof (intro conjI, goal_cases)
  case 1
  have none: "fitting gs 0 0 = Inr hs \<Longrightarrow> hs = []" for gs hs
    by (induction gs arbitrary: hs) (auto split: if_splits simp: not_le [symmetric])
  obtain bl c1 where "blocked_frames bs c = (bl, c1)" by fastforce
  then show ?case by (auto simp: fc_requestFrame_def Let_def dest: none split: if_splits)
next
  case 2
  show ?case
    by (auto simp: fc_MaxStreamData_def get_stream_def Streams_Get_def write_credit_def NewStream_def
        put_stream_def not_less [symmetric] split: prod.split)
next
  case 3
  have "\<not> (IsBidiClient i \<and> IsUniClient i)" for i
    by (auto simp: IsBidiClient_def IsUniClient_def IsBidi_def IsUni_def)
  then show ?case
    by (auto simp: fc_reserveCredit_def Let_def answer_def fc_SubmitFrame_def submit_defs)
next
  case 4
  show ?case by (simp add: fc_reserveCredit_def GetMaxBidiClient_def IsUniClient_def IsUni_def)
qed

lemma flow_control_slips_witness:
  "\<forall>a c. write_credit 4 (snd (fc_MaxStreamData \<lparr>ms_StreamId = 4, ms_MaximumStreamData = 1000\<rparr> a
     (c\<lparr>c_Streams := \<lparr>streams = [], streams_input = NewBroadcaster\<rparr>\<rparr>))) = (0, MaxUint64)"
  using flow_control_slips [where f = "\<lparr>ms_StreamId = 4, ms_MaximumStreamData = 1000\<rparr>"]
  by (simp add: Streams_Has_def MaxUint64_def)

end
