(* ===== verification/SendStreams.thy ===== *)
theory SendStreams
  imports FlowControl
begin

text \<open>
  The stream agent (\<^verbatim>\<open>agents/stream_agent.go\<close>): the data the application writes, cut into STREAM frames.

  The agent has two modes. With \<^verbatim>\<open>DisableFrameSending\<close>, the mode the adapter runs it in, every write is queued as one frame; the
  invariant is that the frames of a stream lie end to end and carry exactly what was written. Otherwise the data waits in a
  buffer that is emptied on requests for frames, and a request with too little space loses bytes.
\<close>

section \<open>The operations\<close>

record StreamAgent =
  sa_streamBuffers :: "u64 \<rightharpoonup> bytes"
  sa_streamClosing :: "u64 \<Rightarrow> bool"
  sa_DisableFrameSending :: bool

definition sa_SubmitFrame :: "QueuedFrame \<Rightarrow> StreamAgent \<Rightarrow> Connection \<Rightarrow> Connection" where
  "sa_SubmitFrame f a c =
     (if sa_DisableFrameSending a then
        (let fr = \<lparr>fr_FrameType = FrameType (qf_Frame f), fr_EncryptionLevel = qf_EncryptionLevel f\<rparr>
         in c\<lparr>c_StreamQueue := (c_StreamQueue c)(fr := c_StreamQueue c fr @ [f])\<rparr>)
      else submit_frame f c)"

text \<open>The operations return an error or \<^verbatim>\<open>nil\<close>, which the loop ignores.\<close>

definition sa_close :: "u64 \<Rightarrow> StreamAgent \<Rightarrow> Connection \<Rightarrow> string option \<times> Connection" where
  "sa_close streamId a c =
     (case get_stream streamId c of (s, c) \<Rightarrow>
      if IsClient streamId \<or> IsBidi streamId then
        if WriteClosed s then (Some ''cannot close already closed stream'', c)
        else
          (None, sa_SubmitFrame \<lparr>qf_Frame = StreamF (NewStreamFrame streamId (WriteOffset s) [] True),
             qf_EncryptionLevel = EncryptionLevelBestAppData\<rparr> a
             (put_stream streamId (s\<lparr>WriteCloseOffset := WriteOffset s\<rparr>) c))
      else (Some ''cannot close server uni stream'', c))"

definition sa_reset :: "u64 \<Rightarrow> u64 \<Rightarrow> StreamAgent \<Rightarrow> Connection \<Rightarrow> string option \<times> Connection" where
  "sa_reset streamId appErrorCode a c =
     (case get_stream streamId c of (s, c) \<Rightarrow>
      if IsClient streamId \<or> IsBidi streamId then
        if WriteClosed s then (Some ''cannot reset already closed stream'', c)
        else
          (None, sa_SubmitFrame \<lparr>qf_Frame = Reset \<lparr>rs_StreamId = streamId, rs_ApplicationErrorCode = appErrorCode,
             rs_FinalSize = WriteOffset s\<rparr>, qf_EncryptionLevel = EncryptionLevelBestAppData\<rparr> a
             (put_stream streamId (s\<lparr>WriteCloseOffset := WriteOffset s, WriteClosed := True\<rparr>) c))
      else (Some ''cannot reset server uni stream'', c))"

definition sa_stopSending :: "u64 \<Rightarrow> u64 \<Rightarrow> StreamAgent \<Rightarrow> Connection \<Rightarrow> string option \<times> Connection" where
  "sa_stopSending streamId appErrorCode a c =
     (if IsServer streamId \<or> IsBidi streamId then
        if Streams_Has streamId (c_Streams c) = None \<and> IsServer streamId
        then (Some ''cannot ask to stop sending on non-ready server stream'', c)
        else (None, sa_SubmitFrame \<lparr>qf_Frame = StopSending \<lparr>ss_StreamId = streamId,
                ss_ApplicationErrorCode = appErrorCode\<rparr>, qf_EncryptionLevel = EncryptionLevelBestAppData\<rparr> a c)
      else (Some ''cannot ask to stop sending on a client uni stream'', c))"

text \<open>The frame that \<^verbatim>\<open>send\<close> queues when frames are not sent on request.\<close>

definition sent_frame :: "u64 \<Rightarrow> u64 \<Rightarrow> bytes \<Rightarrow> bool \<Rightarrow> StreamFrame" where
  "sent_frame streamId off data fin =
     (NewStreamFrame streamId off [] fin)
       \<lparr>sf_StreamData := data, sf_LenBit := True, sf_Length := of_nat (length data)\<rparr>"

definition sa_send ::
    "u64 \<Rightarrow> bytes \<Rightarrow> bool \<Rightarrow> StreamAgent \<Rightarrow> Connection \<Rightarrow> string option \<times> StreamAgent \<times> Connection" where
  "sa_send streamId data close a c =
     (case get_stream streamId c of (s, c) \<Rightarrow>
      if WriteClosed s then (Some ''cannot write on closed stream'', a, c)
      else
        (let s = s\<lparr>WriteOffset := WriteOffset s + of_nat (length data), WriteClosed := close\<rparr>;
             s = (if WriteClosed s then s\<lparr>WriteCloseOffset := WriteOffset s\<rparr> else s);
             c = put_stream streamId s c;
             a = (if close then a\<lparr>sa_streamClosing := (sa_streamClosing a)(streamId := True)\<rparr> else a);
             a = a\<lparr>sa_streamBuffers := (sa_streamBuffers a)(streamId \<mapsto>
                    (case sa_streamBuffers a streamId of None \<Rightarrow> [] | Some buf \<Rightarrow> buf) @ data)\<rparr>
         in if sa_DisableFrameSending a then
              (let closing = sa_streamClosing a streamId;
                   f = sent_frame streamId (WriteOffset s - of_nat (length data)) data (close \<or> closing);
                   a = a\<lparr>sa_streamBuffers := (sa_streamBuffers a)(streamId := None),
                         sa_streamClosing := (sa_streamClosing a)(streamId := False)\<rparr>
               in (None, a, sa_SubmitFrame \<lparr>qf_Frame = StreamF f, qf_EncryptionLevel = EncryptionLevel1RTT\<rparr> a c))
            else (None, a, submit_prepare EncryptionLevelBestAppData c)))"

text \<open>An input of the application: its RESET and STOP_SENDING first, then its data or its end.\<close>

definition sa_control :: "StreamInput \<Rightarrow> StreamAgent \<Rightarrow> Connection \<Rightarrow> Connection" where
  "sa_control si a c =
     (let c = (if in_Reset si then snd (sa_reset (in_StreamId si) (in_AppErrorCode si) a c) else c)
      in if in_StopSending si then snd (sa_stopSending (in_StreamId si) (in_AppErrorCode si) a c) else c)"

definition sa_input :: "StreamInput \<Rightarrow> StreamAgent \<Rightarrow> Connection \<Rightarrow> StreamAgent \<times> Connection" where
  "sa_input si a c =
     (let c = sa_control si a c
      in if length (in_Data si) > 0 then snd (sa_send (in_StreamId si) (in_Data si) (in_Close si) a c)
         else if in_Close si then (a, snd (sa_close (in_StreamId si) a c))
         else (a, c))"

text \<open>One round of the loop over the buffers, with the space that is left.\<close>

definition sa_take ::
    "u64 \<Rightarrow> int \<Rightarrow> StreamAgent \<Rightarrow> Connection \<Rightarrow> (StreamFrame option \<times> int \<times> StreamAgent \<times> Connection) res" where
  "sa_take streamId availableSpace a c =
     (let buf = (case sa_streamBuffers a streamId of None \<Rightarrow> [] | Some buf \<Rightarrow> buf) in
      case get_stream streamId c of (s, c) \<Rightarrow>
      let f = NewStreamFrame streamId (WriteOffset s - of_nat (length buf)) [] False in
      bind_res (StreamFrame_FrameLength f) (\<lambda>fLen.
      let len = go_Min (int (length buf) + uint fLen) availableSpace in
      if len > uint fLen then
        (let data = take (nat (len - uint fLen)) buf;
             f = f\<lparr>sf_StreamData := data, sf_LenBit := True, sf_Length := of_nat (length data)\<rparr>
         in if int (length buf) > len
            then Inr (Some f, availableSpace - len,
                      a\<lparr>sa_streamBuffers := (sa_streamBuffers a)(streamId \<mapsto> drop (nat len) buf)\<rparr>, c)
            else Inr (Some (f\<lparr>sf_FinBit := sa_streamClosing a streamId\<rparr>), availableSpace - len,
                      a\<lparr>sa_streamBuffers := (sa_streamBuffers a)(streamId := None),
                        sa_streamClosing := (sa_streamClosing a)(streamId := False)\<rparr>, c))
      else Inr (None, availableSpace, a, c)))"

text \<open>The loop, over the keys of the buffers in the order Go visits them.\<close>

fun sa_take_all :: "u64 list \<Rightarrow> int \<Rightarrow> StreamAgent \<Rightarrow> Connection \<Rightarrow> (StreamFrame list \<times> StreamAgent \<times> Connection) res" where
  "sa_take_all [] availableSpace a c = Inr ([], a, c)"
| "sa_take_all (i # is) availableSpace a c =
     bind_res (sa_take i availableSpace a c) (\<lambda>(f, availableSpace, a, c).
     bind_res (sa_take_all is availableSpace a c) (\<lambda>(fs, a, c).
     Inr ((case f of None \<Rightarrow> [] | Some f \<Rightarrow> [f]) @ fs, a, c)))"

definition sa_requestFrame ::
    "u64 list \<Rightarrow> int \<Rightarrow> EncryptionLevel \<Rightarrow> StreamAgent \<Rightarrow> Connection \<Rightarrow> (StreamFrame list \<times> StreamAgent \<times> Connection) res" where
  "sa_requestFrame is availableSpace level a c =
     (if (level \<noteq> EncryptionLevel0RTT \<and> level \<noteq> EncryptionLevel1RTT \<and> level \<noteq> EncryptionLevelBestAppData) \<or>
          sa_DisableFrameSending a
      then Inr ([], a, c)
      else sa_take_all is availableSpace a c)"

definition sa_SendFromQueue :: "FrameRequest \<Rightarrow> Connection \<Rightarrow> Connection" where
  "sa_SendFromQueue fr c =
     (fold submit_frame (c_StreamQueue c fr) c)\<lparr>c_StreamQueue := (c_StreamQueue c)(fr := [])\<rparr>"

section \<open>Frames end to end\<close>

text \<open>The frames with data of stream \<open>i\<close> among the frames handed to the connection, in order.\<close>

definition stream_data :: "u64 \<Rightarrow> Frame list \<Rightarrow> StreamFrame list" where
  "stream_data i fs = concat (map (\<lambda>f. case f of
     StreamF x \<Rightarrow> if sf_StreamId x = i \<and> sf_StreamData x \<noteq> [] then [x] else [] | _ \<Rightarrow> []) fs)"

definition stream_request :: FrameRequest where
  "stream_request = \<lparr>fr_FrameType = StreamType, fr_EncryptionLevel = EncryptionLevel1RTT\<rparr>"

definition queued :: "FrameRequest \<Rightarrow> Connection \<Rightarrow> Frame list" where
  "queued fr c = map qf_Frame (c_StreamQueue c fr)"

definition data_frames :: "u64 \<Rightarrow> Connection \<Rightarrow> StreamFrame list" where
  "data_frames i c = stream_data i (map qf_Frame (c_FrameQueue c) @ queued stream_request c)"

text \<open>Frames that lie end to end from one offset to another.\<close>

fun laid :: "u64 \<Rightarrow> StreamFrame list \<Rightarrow> u64 \<Rightarrow> bool" where
  "laid off [] end0 \<longleftrightarrow> off = end0"
| "laid off (f # fs) end0 \<longleftrightarrow> sf_Offset f = off \<and> sf_Length f = of_nat (length (sf_StreamData f)) \<and>
     laid (off + sf_Length f) fs end0"

definition write_state :: "u64 \<Rightarrow> Connection \<Rightarrow> u64 \<times> bool" where
  "write_state i c = (case get_stream i c of (s, _) \<Rightarrow> (WriteOffset s, WriteClosed s))"

text \<open>
  The state of a run: agent, connection and, for every stream, the data that \<^verbatim>\<open>send\<close> accepted.
\<close>

definition sa_inv :: "StreamAgent \<times> Connection \<times> (u64 \<Rightarrow> bytes) \<Rightarrow> bool" where
  "sa_inv s \<longleftrightarrow> (case s of (a, c, w) \<Rightarrow>
     sa_DisableFrameSending a \<and> (\<forall>i. \<not> sa_streamClosing a i) \<and>
     (\<forall>i. laid 0 (data_frames i c) (fst (write_state i c)) \<and>
        concat (map sf_StreamData (data_frames i c)) = w i \<and>
        (\<forall>f \<in> set (butlast (data_frames i c)). \<not> sf_FinBit f) \<and>
        (\<forall>f \<in> set (data_frames i c). sf_FinBit f \<longrightarrow> snd (write_state i c))) \<and>
     (\<forall>fr i. fr \<noteq> stream_request \<longrightarrow> stream_data i (queued fr c) = []))"

definition sa_init :: "StreamAgent \<times> Connection \<times> (u64 \<Rightarrow> bytes) \<Rightarrow> bool" where
  "sa_init s \<longleftrightarrow> (case s of (a, c, w) \<Rightarrow>
     sa_DisableFrameSending a \<and> (\<forall>i. \<not> sa_streamClosing a i) \<and> c_FrameQueue c = [] \<and>
     (\<forall>fr. c_StreamQueue c fr = []) \<and> (\<forall>i. write_state i c = (0, False) \<and> w i = []))"

datatype sa_event =
    SaInput StreamInput
  | SaRequest "u64 list" int EncryptionLevel
  | SaSend FrameRequest
  | SaOther "QueuedFrame list"

definition accepted :: "StreamInput \<Rightarrow> StreamAgent \<Rightarrow> Connection \<Rightarrow> bool" where
  "accepted si a c \<longleftrightarrow> in_Data si \<noteq> [] \<and>
     fst (sa_send (in_StreamId si) (in_Data si) (in_Close si) a (sa_control si a c)) = None"

inductive sa_step ::
    "StreamAgent \<times> Connection \<times> (u64 \<Rightarrow> bytes) \<Rightarrow> sa_event \<Rightarrow> StreamAgent \<times> Connection \<times> (u64 \<Rightarrow> bytes) \<Rightarrow> bool" where
  sa_in: "sa_input si a c = (a', c') \<Longrightarrow>
    w' = (if accepted si a c then w(in_StreamId si := w (in_StreamId si) @ in_Data si) else w) \<Longrightarrow>
    sa_step (a, c, w) (SaInput si) (a', c', w')"
| sa_req: "sa_requestFrame is n level a c = Inr (fs, a', c') \<Longrightarrow>
    sa_step (a, c, w) (SaRequest is n level) (a', c', w)"
| sa_flush: "sa_step (a, c, w) (SaSend fr) (a, sa_SendFromQueue fr c, w)"
| sa_other: "(\<And>i. write_state i c' = write_state i c) \<Longrightarrow> (\<And>i. stream_data i (map qf_Frame qs) = []) \<Longrightarrow>
    c_FrameQueue c' = c_FrameQueue c @ qs \<Longrightarrow> c_StreamQueue c' = c_StreamQueue c \<Longrightarrow>
    sa_step (a, c, w) (SaOther qs) (a, c', w)"

section \<open>The steps keep it\<close>

lemma stream_data_append [simp]: "stream_data i (fs @ gs) = stream_data i fs @ stream_data i gs"
  by (simp add: stream_data_def)

lemma stream_data_Nil [simp]: "stream_data i [] = []"
  by (simp add: stream_data_def)

lemma write_state_put [simp]:
  "write_state j (put_stream i s c) = (if j = i then (WriteOffset s, WriteClosed s) else write_state j c)"
  by (simp add: write_state_def get_stream_def put_stream_def Streams_Get_def split: option.split)

lemma put_stream_queues [simp]:
  "c_FrameQueue (put_stream i s c) = c_FrameQueue c" "c_StreamQueue (put_stream i s c) = c_StreamQueue c"
  by (simp_all add: put_stream_def)

lemma get_stream_state:
  assumes "get_stream i c = (s, c')"
  shows "write_state j c' = write_state j c" "write_state i c = (WriteOffset s, WriteClosed s)"
    "c_FrameQueue c' = c_FrameQueue c" "c_StreamQueue c' = c_StreamQueue c"
  using assms
  by (auto simp: write_state_def get_stream_def Streams_Get_def split: option.splits prod.splits if_splits)

lemma write_state_streams: "c_Streams c' = c_Streams c \<Longrightarrow> write_state i c' = write_state i c"
  by (simp add: write_state_def get_stream_def split: prod.splits)

lemma sa_SubmitFrame_disabled:
  assumes "sa_DisableFrameSending a"
  shows "c_Streams (sa_SubmitFrame f a c) = c_Streams c" "c_FrameQueue (sa_SubmitFrame f a c) = c_FrameQueue c"
    "queued fr (sa_SubmitFrame f a c) = queued fr c @
       (if fr = \<lparr>fr_FrameType = FrameType (qf_Frame f), fr_EncryptionLevel = qf_EncryptionLevel f\<rparr> then [qf_Frame f] else [])"
  using assms by (simp_all add: sa_SubmitFrame_def Let_def queued_def)

lemma laid_snoc: "laid off (fs @ [f]) w \<longleftrightarrow> (\<exists>v. laid off fs v \<and> sf_Offset f = v \<and>
    sf_Length f = of_nat (length (sf_StreamData f)) \<and> w = v + sf_Length f)"
  by (induction fs arbitrary: off) auto

text \<open>What the invariant looks at: the queues and the write side of the streams.\<close>

definition same_frames :: "Connection \<Rightarrow> Connection \<Rightarrow> bool" where
  "same_frames c c' \<longleftrightarrow> c_FrameQueue c' = c_FrameQueue c \<and> queued stream_request c' = queued stream_request c \<and>
     (\<forall>fr i. fr \<noteq> stream_request \<longrightarrow> stream_data i (queued fr c) = [] \<longrightarrow> stream_data i (queued fr c') = []) \<and>
     (\<forall>i. fst (write_state i c') = fst (write_state i c) \<and> (snd (write_state i c) \<longrightarrow> snd (write_state i c')))"

lemma same_frames_inv: "sa_inv (a, c, w) \<Longrightarrow> same_frames c c' \<Longrightarrow> sa_inv (a, c', w)"
  by (auto simp: sa_inv_def same_frames_def data_frames_def)

lemma same_frames_trans: "same_frames a b \<Longrightarrow> same_frames b c \<Longrightarrow> same_frames a c"
  by (simp add: same_frames_def)

lemma submit_same_frames:
  assumes "sa_DisableFrameSending a" "\<And>i. stream_data i [qf_Frame f] = []" "qf_EncryptionLevel f \<noteq> EncryptionLevel1RTT"
  shows "same_frames c (sa_SubmitFrame f a c)"
proof -
  note d = sa_SubmitFrame_disabled [OF assms(1)]
  have "write_state i (sa_SubmitFrame f a c) = write_state i c" for i by (rule write_state_streams) (rule d(1))
  with assms(2,3) show ?thesis by (simp add: same_frames_def d(2,3) stream_request_def)
qed

lemma put_same_frames:
  assumes "get_stream i c = (s, c1)" "WriteOffset s' = WriteOffset s" "WriteClosed s \<longrightarrow> WriteClosed s'"
  shows "same_frames c (put_stream i s' c1)"
  using get_stream_state [OF assms(1)] assms(2,3) by (auto simp: same_frames_def queued_def)

lemma get_same_frames: "get_stream i c = (s, c1) \<Longrightarrow> same_frames c c1"
  using get_stream_state [of i c s c1] by (simp add: same_frames_def queued_def)

lemma empty_stream_data [simp]:
  "stream_data i [StreamF (NewStreamFrame j off [] fin)] = []" "stream_data i [Reset r] = []"
  "stream_data i [StopSending x] = []"
  by (simp_all add: stream_data_def NewStreamFrame_def)

lemma control_same_frames:
  assumes "sa_DisableFrameSending a"
  shows "same_frames c (snd (sa_close i a c))" "same_frames c (snd (sa_reset i e a c))"
    "same_frames c (snd (sa_stopSending i e a c))"
proof -
  have refl: "same_frames c c" by (simp add: same_frames_def)
  obtain s c1 where g: "get_stream i c = (s, c1)" by fastforce
  note p = same_frames_trans [OF put_same_frames [OF g] submit_same_frames [OF assms]]
  show "same_frames c (snd (sa_close i a c))" "same_frames c (snd (sa_reset i e a c))"
    using p get_same_frames [OF g] by (simp_all add: sa_close_def sa_reset_def g)
  show "same_frames c (snd (sa_stopSending i e a c))"
    using submit_same_frames [OF assms] refl by (simp add: sa_stopSending_def)
qed

lemma sa_send_disabled:
  assumes "sa_DisableFrameSending a" "\<not> sa_streamClosing a i" "sa_send i data close a c = (e, a', c')"
  obtains "e \<noteq> None" "a' = a" "same_frames c c'"
  | f where "e = None" "f = sent_frame i (fst (write_state i c)) data close" "\<not> snd (write_state i c)"
      "sa_DisableFrameSending a'" "\<And>j. sa_streamClosing a' j \<Longrightarrow> sa_streamClosing a j"
      "c_FrameQueue c' = c_FrameQueue c"
      "\<And>fr. queued fr c' = queued fr c @ (if fr = stream_request then [StreamF f] else [])"
      "\<And>j. write_state j c' = (if j = i then (fst (write_state i c) + of_nat (length data), close) else write_state j c)"
proof -
  obtain s c1 where g: "get_stream i c = (s, c1)" by fastforce
  note st = get_stream_state [OF g]
  show thesis
  proof (cases "WriteClosed s")
    case True
    with assms(3) get_same_frames [OF g] show thesis by (intro that(1)) (auto simp: sa_send_def g)
  next
    case False
    let ?f = "sent_frame i (fst (write_state i c)) data close"
    let ?s = "s\<lparr>WriteOffset := WriteOffset s + of_nat (length data), WriteClosed := close\<rparr>"
    let ?s = "if close then ?s\<lparr>WriteCloseOffset := WriteOffset ?s\<rparr> else ?s"
    have "sa_streamClosing (if close then a\<lparr>sa_streamClosing := (sa_streamClosing a)(i := True)\<rparr> else a) i = close"
      using assms(2) by simp
    then have e: "e = None" and a': "sa_DisableFrameSending a'" "\<And>j. sa_streamClosing a' j \<Longrightarrow> sa_streamClosing a j"
      and c': "c' = sa_SubmitFrame \<lparr>qf_Frame = StreamF ?f, qf_EncryptionLevel = EncryptionLevel1RTT\<rparr> a' (put_stream i ?s c1)"
      using assms(1,3) False st(2)
      by (auto simp: sa_send_def g Let_def split: if_splits)
    note d = sa_SubmitFrame_disabled [OF a'(1)]
    have "write_state j c' = write_state j (put_stream i ?s c1)" for j unfolding c' by (rule write_state_streams) (rule d(1))
    then have ws: "write_state j c' = (if j = i then (fst (write_state i c) + of_nat (length data), close) else write_state j c)" for j
      using st by simp
    have "queued fr (put_stream i ?s c1) = queued fr c" for fr by (simp add: queued_def st(4))
    then have qs: "queued fr c' = queued fr c @ (if fr = stream_request then [StreamF ?f] else [])" for fr
      by (simp add: c' d(3) stream_request_def)
    show thesis
      using e a' ws qs False st by (intro that(2) [of ?f]) (simp_all add: c' d(2))
  qed
qed

lemma sa_input_inv:
  assumes inv: "sa_inv (a, c, w)" and i: "sa_input si a c = (a', c')"
    and w': "w' = (if accepted si a c then w(in_StreamId si := w (in_StreamId si) @ in_Data si) else w)"
  shows "sa_inv (a', c', w')"
proof -
  let ?i = "in_StreamId si"
  let ?c = "sa_control si a c"
  have d: "sa_DisableFrameSending a" "\<not> sa_streamClosing a ?i" using inv by (auto simp: sa_inv_def)
  have "same_frames c ?c"
    using control_same_frames [OF d(1)] same_frames_trans by (auto simp: sa_control_def Let_def same_frames_def)
  then have inv1: "sa_inv (a, ?c, w)" by (rule same_frames_inv [OF inv])
  show ?thesis
  proof (cases "in_Data si = []")
    case True
    with i w' same_frames_inv [OF inv1] control_same_frames(1) [OF d(1)] inv1 show ?thesis
      by (auto simp: sa_input_def Let_def accepted_def split: if_splits)
  next
    case False
    obtain e where e: "sa_send ?i (in_Data si) (in_Close si) a ?c = (e, a', c')"
      using i False by (auto simp: sa_input_def Let_def) (metis prod.collapse)
    then have acc: "accepted si a c \<longleftrightarrow> e = None" using False by (simp add: accepted_def)
    from d e show ?thesis
    proof (cases rule: sa_send_disabled)
      case 1
      with acc w' same_frames_inv [OF inv1] show ?thesis by simp
    next
      case (2 f)
      have df: "data_frames j c' = data_frames j ?c @ (if j = ?i then [f] else [])" for j
        using 2(2,6,7) False by (auto simp: data_frames_def sent_frame_def NewStreamFrame_def stream_data_def)
      have q: "stream_data j (queued fr c') = []" if "fr \<noteq> stream_request" for fr j
        using 2(7) [of fr] that inv1 by (simp add: sa_inv_def)
      have ff: "sf_Offset f = fst (write_state ?i ?c)" "sf_Length f = of_nat (length (sf_StreamData f))"
        "sf_StreamData f = in_Data si" "sf_FinBit f = in_Close si"
        by (simp_all add: 2(2) sent_frame_def NewStreamFrame_def)
      have nofin: "\<forall>g \<in> set (data_frames ?i ?c). \<not> sf_FinBit g" using inv1 2(3) by (auto simp: sa_inv_def)
      have "laid 0 (data_frames j c') (fst (write_state j c')) \<and> concat (map sf_StreamData (data_frames j c')) = w' j \<and>
        (\<forall>f \<in> set (butlast (data_frames j c')). \<not> sf_FinBit f) \<and>
        (\<forall>f \<in> set (data_frames j c'). sf_FinBit f \<longrightarrow> snd (write_state j c'))" for j
        using inv1 nofin by (cases "j = ?i") (auto simp: sa_inv_def df 2(1,8) ff w' acc laid_snoc)
      moreover have "\<not> sa_streamClosing a' j" for j using 2(5) inv by (auto simp: sa_inv_def)
      ultimately show ?thesis using 2(4) q by (simp add: sa_inv_def)
    qed
  qed
qed

lemma sa_SendFromQueue_parts:
  "write_state i (sa_SendFromQueue fr c) = write_state i c"
  "c_FrameQueue (sa_SendFromQueue fr c) = c_FrameQueue c @ c_StreamQueue c fr"
  "c_StreamQueue (sa_SendFromQueue fr c) = (c_StreamQueue c)(fr := [])"
proof -
  have "c_Streams (fold submit_frame qs c) = c_Streams c \<and> c_FrameQueue (fold submit_frame qs c) = c_FrameQueue c @ qs" for qs
    by (induction qs arbitrary: c) (simp_all add: submit_defs)
  then show "write_state i (sa_SendFromQueue fr c) = write_state i c"
    "c_FrameQueue (sa_SendFromQueue fr c) = c_FrameQueue c @ c_StreamQueue c fr"
    "c_StreamQueue (sa_SendFromQueue fr c) = (c_StreamQueue c)(fr := [])"
    by (auto simp: sa_SendFromQueue_def intro: write_state_streams)
qed

lemma sa_flush_inv:
  assumes "sa_inv (a, c, w)"
  shows "sa_inv (a, sa_SendFromQueue fr c, w)"
proof -
  have "data_frames i (sa_SendFromQueue fr c) = data_frames i c" for i
    using assms by (cases "fr = stream_request")
      (auto simp: data_frames_def queued_def sa_SendFromQueue_parts sa_inv_def)
  with assms show ?thesis
    by (auto simp: sa_inv_def sa_SendFromQueue_parts(1)) (auto simp: queued_def sa_SendFromQueue_parts)
qed

interpretation sa_machine: machine sa_init sa_step sa_inv
proof (unfold_locales, goal_cases)
  case (1 s)
  then show ?case by (auto simp: sa_init_def sa_inv_def data_frames_def queued_def)
next
  case (2 s e s')
  from 2(2) show ?case
  proof cases
    case (sa_in si a c a' c' w' w)
    with 2(1) show ?thesis using sa_input_inv by blast
  next
    case (sa_req "is" n level a c fs a' c' w)
    with 2(1) show ?thesis by (auto simp: sa_requestFrame_def sa_inv_def split: if_splits)
  next
    case (sa_flush a c w fr)
    with 2(1) show ?thesis using sa_flush_inv by blast
  next
    case (sa_other c' c qs a w)
    then have "data_frames i c' = data_frames i c" if "stream_data i (map qf_Frame qs) = []" for i
      using that by (simp add: data_frames_def queued_def)
    with sa_other 2(1) show ?thesis by (simp add: sa_inv_def queued_def)
  qed
qed

section \<open>Arrival\<close>

definition in_order :: "StreamFrame \<Rightarrow> Stream \<Rightarrow> Stream" where
  "in_order f s = (if sf_FinBit f then s\<lparr>ReadCloseOffset := sf_Offset f + sf_Length f\<rparr> else s)
    \<lparr>ReadOffset := ReadOffset s + sf_Length f, maxReadReceived := ReadOffset s + sf_Length f,
     ReadData := ReadData s @ sf_StreamData f, ReadChan := Submit (sf_StreamData f) (ReadChan s)\<rparr>"

lemma MaxUint64_greatest: "\<not> MaxUint64 < x"
proof -
  have eq: "MaxUint64 = - 1" by (simp add: MaxUint64_def)
  show ?thesis unfolding eq not_less by (rule word_n1_ge)
qed

lemma addToRead_in_order:
  assumes "sf_Offset f = ReadOffset s" "sf_StreamData f \<noteq> []" "ReadOffset s = maxReadReceived s"
    "ReadCloseOffset s = MaxUint64"
  shows "addToRead f s = Inr (close_read (in_order f s))"
  using assms MaxUint64_greatest [of "sf_Offset f"]
  by (cases "sf_FinBit f") (simp_all add: addToRead_def add_data_def Let_def in_order_def)

lemma close_read_same [simp]:
  "ReadOffset (close_read s) = ReadOffset s" "maxReadReceived (close_read s) = maxReadReceived s"
  "ReadCloseOffset (close_read s) = ReadCloseOffset s" "submitted (ReadChan (close_read s)) = submitted (ReadChan s)"
  by (simp_all add: close_read_def Broadcaster_Close_def)

text \<open>Frames that lie end to end, read in order, are taken without a gap.\<close>

lemma addAll_laid:
  assumes "laid (ReadOffset s) fs end0" "ReadOffset s = maxReadReceived s" "ReadCloseOffset s = MaxUint64"
    "\<forall>f \<in> set (butlast fs). \<not> sf_FinBit f" "\<forall>f \<in> set fs. sf_StreamData f \<noteq> []"
  shows "\<exists>t. addAll fs s = Inr t \<and> ReadOffset t = end0 \<and>
    concat (submitted (ReadChan t)) = concat (submitted (ReadChan s)) @ concat (map sf_StreamData fs)"
  using assms
proof (induction fs arbitrary: s)
  case (Cons f fs)
  have "sf_Offset f = ReadOffset s" "sf_StreamData f \<noteq> []" using Cons.prems by simp_all
  note t = addToRead_in_order [OF this Cons.prems(2,3)]
  let ?t = "close_read (in_order f s)"
  show ?case
  proof (cases "fs = []")
    case True
    with t Cons.prems show ?thesis by (auto simp: in_order_def Submit_def)
  next
    case False
    with Cons.prems have "\<exists>u. addAll fs ?t = Inr u \<and> ReadOffset u = end0 \<and>
      concat (submitted (ReadChan u)) = concat (submitted (ReadChan ?t)) @ concat (map sf_StreamData fs)"
      by (intro Cons.IH) (auto simp: in_order_def)
    with t show ?thesis by (auto simp: in_order_def Submit_def)
  qed
qed simp

lemma stream_data_nonempty: "f \<in> set (stream_data i fs) \<Longrightarrow> sf_StreamData f \<noteq> []"
  by (auto simp: stream_data_def split: Frame.splits if_splits)

section \<open>Properties\<close>


text \<open>
  A request with too little space loses data. With enough space the whole buffer goes into the frame; with less, the frame carries
  as many bytes as fit behind its header, but the buffer is cut by the whole length of the frame: the \<open>h\<close> bytes of the header
  are missing in the stream, and the last frame may be marked as final without its data.
\<close>

lemma request_loses_header_bytes:
  assumes "sa_streamBuffers a i = Some buf" "get_stream i c = (s, c')"
    "StreamFrame_FrameLength (NewStreamFrame i (WriteOffset s - of_nat (length buf)) [] False) = Inr h" "uint h < n"
  shows "\<exists>f n' a'. sa_take i n a c = Inr (if buf = [] then None else Some f, n', a', c') \<and>
    (buf \<noteq> [] \<longrightarrow> sf_Offset f = WriteOffset s - of_nat (length buf) \<and>
      sf_StreamData f = take (nat (n - uint h)) buf \<and>
      (case sa_streamBuffers a' i of
         None \<Rightarrow> int (length buf) \<le> n \<and> sf_FinBit f = sa_streamClosing a i
       | Some rest \<Rightarrow> int (length buf) > n \<and> rest = drop (nat n) buf \<and>
           length (sf_StreamData f) + length rest + unat h = length buf))"
proof (cases "buf = []")
  case True
  with assms show ?thesis by (auto simp: sa_take_def go_Min_def Let_def)
next
  case False
  have h: "0 \<le> uint h" by simp
  have "nat (uint h) < nat n" using assms(4) h by (subst nat_less_eq_zless) auto
  then have "unat h < nat n" by simp
  then have "nat n - unat h + length buf + unat h = length buf + nat n" by simp
  then have key: "nat n - unat h + length buf + unat h - nat n = length buf" by simp
  show ?thesis
  proof (cases "int (length buf) + uint h > n")
    case True
    with False assms h key show ?thesis
      by (auto simp: sa_take_def go_Min_def Let_def NewStreamFrame_def nat_diff_distrib)
  next
    case le: False
    then have "int (length buf) \<le> n" using h by linarith
    with le False assms show ?thesis
      by (auto simp: sa_take_def go_Min_def Let_def NewStreamFrame_def)
  qed
qed


lemma request_loses_header_bytes_witness:
  "\<forall>a c. \<exists>f n' a' c'. sa_take 0 5 (a\<lparr>sa_streamBuffers := [0 \<mapsto> [1, 2, 3, 4, 5, 6, 7, 8]]\<rparr>)
     (put_stream 0 (NewStream\<lparr>WriteOffset := 8\<rparr>) c) = Inr (Some f, n', a', c') \<and>
     sf_StreamData f = [1, 2] \<and> sa_streamBuffers a' 0 = Some [6, 7, 8]"
proof (intro allI)
  fix a :: StreamAgent and c :: Connection
  let ?a = "a\<lparr>sa_streamBuffers := [0 \<mapsto> [1, 2, 3, 4, 5, 6, 7, 8]]\<rparr>"
  let ?c = "put_stream 0 (NewStream\<lparr>WriteOffset := 8\<rparr>) c"
  have g: "get_stream 0 ?c = (NewStream\<lparr>WriteOffset := 8\<rparr>, ?c)"
    by (simp add: get_stream_def put_stream_def Streams_Get_def)
  have h: "StreamFrame_FrameLength (NewStreamFrame 0 (WriteOffset (NewStream\<lparr>WriteOffset := 8\<rparr>) -
      of_nat (length [1, 2, 3, 4, 5, 6, 7, 8 :: u8])) [] False) = Inr 3"
    by (simp add: NewStreamFrame_def StreamFrame_FrameLength_def len_vars_def VarIntLen_def maxVarInt1_def)
  obtain f n' a' where "sa_take 0 5 ?a ?c = Inr (Some f, n', a', ?c)" "sf_StreamData f = [1, 2]"
    "case sa_streamBuffers a' 0 of None \<Rightarrow> False | Some rest \<Rightarrow> rest = [6, 7, 8]"
    using request_loses_header_bytes [OF _ g h, of ?a 5] by (auto split: option.splits)
  then show "\<exists>f n' a' c'. sa_take 0 5 ?a ?c = Inr (Some f, n', a', c') \<and>
     sf_StreamData f = [1, 2] \<and> sa_streamBuffers a' 0 = Some [6, 7, 8]" by (auto split: option.splits)
qed

end
