(* ===== verification/Sender.thy ===== *)
theory Sender
  imports ConnOps FrameQueue SendStreams Acks
begin

text \<open>
  Filling and sending packets (\<^verbatim>\<open>agents/send_agent.go\<close>), and the interface of the agents that produce frames
  (\<^verbatim>\<open>FrameProducer\<close> of \<^verbatim>\<open>agents/base_agent.go\<close>).

  A producer is a function from the space, the level, the packet number and the state (its own state \<open>'w\<close> and the connection) to the
  frames and whether it still runs. Its contract is the locale \<open>frame_producer\<close>: the frames it hands out fit the space it is offered. The
  frame queue agent, the ACK agent and the flow control agent are interpretations of it; the stream agent breaks it. Results are \<open>None\<close>
  when a fuel is used up, an error for a panic.
\<close>

section \<open>Sequencing\<close>

fun bind_ro :: "'a res option \<Rightarrow> ('a \<Rightarrow> 'b res option) \<Rightarrow> 'b res option" where
  "bind_ro None f = None"
| "bind_ro (Some (Inl e)) f = Some (Inl e)"
| "bind_ro (Some (Inr x)) f = f x"

lemma bind_ro_Inr [simp]: "bind_ro m f = Some (Inr y) \<longleftrightarrow> (\<exists>x. m = Some (Inr x) \<and> f x = Some (Inr y))"
  by (cases "(m, f)" rule: bind_ro.cases) auto

section \<open>Producers\<close>

type_synonym 'w producer =
  "int \<Rightarrow> EncryptionLevel \<Rightarrow> PacketNumber \<Rightarrow> 'w \<times> Connection \<Rightarrow> ((Frame list \<times> bool) \<times> 'w \<times> Connection) res option"

record 'w SendingAgent =
  sg_MTU :: u16
  sg_FrameProducer :: "'w producer option list"
  sg_DontCoalesceZeroRTT :: bool
  sg_KeepDroppedEncryptionLevels :: bool
  sg_encryptionLevels :: "DirectionalEncryptionLevel \<Rightarrow> bool"
  sg_bestEncryptionLevels :: "EncryptionLevel \<rightharpoonup> EncryptionLevel"
  sg_initialSent :: bool

definition sg_Run :: "'w SendingAgent \<Rightarrow> 'w SendingAgent" where
  "sg_Run a = a\<lparr>
     sg_encryptionLevels := (\<lambda>d. d \<in> {
       \<lparr>del_EncryptionLevel = EncryptionLevelInitial, del_Read = False, del_Available = True\<rparr>,
       \<lparr>del_EncryptionLevel = EncryptionLevelNone, del_Read = False, del_Available = True\<rparr>,
       \<lparr>del_EncryptionLevel = EncryptionLevel0RTT, del_Read = False, del_Available = False\<rparr>,
       \<lparr>del_EncryptionLevel = EncryptionLevelHandshake, del_Read = False, del_Available = False\<rparr>,
       \<lparr>del_EncryptionLevel = EncryptionLevel1RTT, del_Read = False, del_Available = False\<rparr>}),
     sg_bestEncryptionLevels := [EncryptionLevelBest \<mapsto> EncryptionLevelInitial],
     sg_initialSent := False\<rparr>"

section \<open>The best level\<close>

definition elOrder :: "EncryptionLevel list" where
  "elOrder = [EncryptionLevel1RTT, EncryptionLevelHandshake, EncryptionLevelInitial]"

definition elAppDataOrder :: "EncryptionLevel list" where
  "elAppDataOrder = [EncryptionLevel1RTT, EncryptionLevel0RTT]"

definition available_level :: "EncryptionLevel \<Rightarrow> DirectionalEncryptionLevel" where
  "available_level eL = \<lparr>del_EncryptionLevel = eL, del_Read = False, del_Available = True\<rparr>"

definition chooseBestEncryptionLevel :: "(DirectionalEncryptionLevel \<Rightarrow> bool) \<Rightarrow> bool \<Rightarrow> EncryptionLevel" where
  "chooseBestEncryptionLevel eLs restrictAppData =
     (let order = (if restrictAppData then elAppDataOrder else elOrder) in
      case List.find (\<lambda>eL. eLs (available_level eL)) order of
        Some eL \<Rightarrow> eL
      | None \<Rightarrow> if restrictAppData then EncryptionLevel1RTT else last order)"

section \<open>Filling a packet\<close>

fun add_frames :: "Frame list \<Rightarrow> int \<Rightarrow> FramePacket \<Rightarrow> (int \<times> FramePacket) res" where
  "add_frames [] spaceLeft p = Inr (spaceLeft, p)"
| "add_frames (f # fs) spaceLeft p =
     bind_res (FrameLength f) (\<lambda>l. add_frames fs (spaceLeft - uint l) (AddFrame f p))"

text \<open>The loop over the levels of one producer: it ends normally, or the producer has stopped, or the packet is full.\<close>

datatype fill_flow = Asked | Stopped | Full

fun ask ::
    "'w producer \<Rightarrow> EncryptionLevel list \<Rightarrow> int \<Rightarrow> FramePacket \<Rightarrow> 'w \<times> Connection \<Rightarrow>
     (fill_flow \<times> int \<times> FramePacket \<times> 'w \<times> Connection) res option" where
  "ask fp [] spaceLeft p s = Some (Inr (Asked, spaceLeft, p, s))"
| "ask fp (l # ls) spaceLeft p s =
     (if spaceLeft < 1 then Some (Inr (Full, spaceLeft, p, s))
      else bind_ro (fp spaceLeft l (GetPacketNumber (fp_Header p)) s) (\<lambda>((frames, running), s).
           if \<not> running then Some (Inr (Stopped, spaceLeft, p, s))
           else bind_ro (Some (add_frames frames spaceLeft p)) (\<lambda>(spaceLeft, p). ask fp ls spaceLeft p s)))"

text \<open>
  Taking an element out of the slice of producers, in the array below the slice: the slice has length \<open>len\<close>, and the elements behind the
  removed one move down. The \<^verbatim>\<open>range\<close> goes on over the array with the length the slice had at the start.
\<close>

definition remove_at :: "nat \<Rightarrow> nat \<Rightarrow> 'a option list \<Rightarrow> 'a option list" where
  "remove_at i len arr = take i arr @ take (len - 1 - i) (drop (i + 1) arr) @ drop (len - 1) (arr[i := None])"

fun producer_loop ::
    "(nat \<Rightarrow> EncryptionLevel list) \<Rightarrow> nat list \<Rightarrow> 'w producer option list \<Rightarrow> nat \<Rightarrow> int \<Rightarrow> FramePacket \<Rightarrow> 'w \<times> Connection \<Rightarrow>
     ('w producer option list \<times> nat \<times> FramePacket \<times> 'w \<times> Connection) res option" where
  "producer_loop levels [] arr len spaceLeft p s = Some (Inr (arr, len, p, s))"
| "producer_loop levels (i # is) arr len spaceLeft p s =
     (case arr ! i of
        None \<Rightarrow> Some (Inl NilPointer)
      | Some fp \<Rightarrow>
          bind_ro (ask fp (levels i) spaceLeft p s) (\<lambda>(flow, spaceLeft, p, s).
          case flow of
            Asked \<Rightarrow> producer_loop levels is arr len spaceLeft p s
          | Full \<Rightarrow> Some (Inr (arr, len, p, s))
          | Stopped \<Rightarrow>
              if i < len then producer_loop levels is (remove_at i len arr) (len - 1) spaceLeft p s
              else Some (Inl IndexOutOfRange)))"

text \<open>
  \<open>ord i\<close> is the order in which Go visits the keys of \<^verbatim>\<open>bestEncryptionLevels\<close> for producer \<open>i\<close>. An empty packet gives its number back.
\<close>

definition fill_levels ::
    "(nat \<Rightarrow> EncryptionLevel list) \<Rightarrow> EncryptionLevel \<Rightarrow> 'w SendingAgent \<Rightarrow> nat \<Rightarrow> EncryptionLevel list" where
  "fill_levels ord level a i = level # filter (\<lambda>eL. sg_bestEncryptionLevels a eL = Some level) (ord i)"

definition fillPacket ::
    "(nat \<Rightarrow> EncryptionLevel list) \<Rightarrow> PNSpace \<Rightarrow> FramePacket \<Rightarrow> EncryptionLevel \<Rightarrow> 'w SendingAgent \<Rightarrow> 'w \<times> Connection \<Rightarrow>
     (FramePacket option \<times> 'w SendingAgent \<times> 'w \<times> Connection) res option" where
  "fillPacket ord space p level a s =
     bind_ro (Some (write_overhead level (snd s))) (\<lambda>overhead.
     bind_ro (producer_loop (fill_levels ord level a) [0 ..< length (sg_FrameProducer a)] (sg_FrameProducer a)
                (length (sg_FrameProducer a)) (uint (sg_MTU a) - int (HeaderLength (fp_Header p)) - int overhead) p s)
       (\<lambda>(arr, len, p, (w, c)).
        let a = a\<lparr>sg_FrameProducer := take len arr\<rparr> in
        if fp_Frames p = []
        then Some (Inr (None, a, (w, c\<lparr>c_PacketNumber := (c_PacketNumber c)(space := c_PacketNumber c space - 1)\<rparr>)))
        else Some (Inr (Some p, a, (w, c)))))"

section \<open>The branches\<close>

text \<open>The UDP datagrams a branch writes are returned with the state; \<open>None\<close> is an empty write.\<close>

type_synonym 'w sg_result = "(bytes option list \<times> 'w SendingAgent \<times> 'w \<times> Connection) res option"

definition send_out :: "time \<Rightarrow> string \<Rightarrow> Packet \<Rightarrow> EncryptionLevel \<Rightarrow> 'w SendingAgent \<Rightarrow> 'w \<times> Connection \<Rightarrow> 'w sg_result" where
  "send_out now remote p level a s =
     (case s of (w, c) \<Rightarrow>
      bind_ro (DoSendPacket now remote p level c) (\<lambda>(b, c). Some (Inr ([b], a, (w, c)))))"

definition pad_initial :: "FramePacket \<Rightarrow> Connection \<Rightarrow> FramePacket res" where
  "pad_initial p c =
     bind_res (write_overhead EncryptionLevelInitial c) (\<lambda>overhead. PadTo (initial_length c - overhead) p)"

text \<open>Making and filling the packet of a level; no packet for the levels without one.\<close>

definition fill_new ::
    "(nat \<Rightarrow> EncryptionLevel list) \<Rightarrow> (Connection \<Rightarrow> (FramePacket \<times> Connection) res) \<Rightarrow> (FramePacket \<Rightarrow> Packet) \<Rightarrow> EncryptionLevel \<Rightarrow>
     'w SendingAgent \<Rightarrow> 'w \<times> Connection \<Rightarrow> (FramePacket option \<times> 'w SendingAgent \<times> 'w \<times> Connection) res option" where
  "fill_new ord new mk level a s =
     bind_ro (Some (new (snd s))) (\<lambda>(p, c). fillPacket ord (Packet_PNSpace (mk p)) p level a (fst s, c))"

definition sg_prepare ::
    "time \<Rightarrow> string \<Rightarrow> (nat \<Rightarrow> EncryptionLevel list) \<Rightarrow> EncryptionLevel \<Rightarrow> 'w SendingAgent \<Rightarrow> 'w \<times> Connection \<Rightarrow> 'w sg_result" where
  "sg_prepare now remote ord eL a s =
     (let best = (eL = EncryptionLevelBest \<or> eL = EncryptionLevelBestAppData);
          nEL = (if best then chooseBestEncryptionLevel (sg_encryptionLevels a) (eL = EncryptionLevelBestAppData) else eL);
          a = (if best then a\<lparr>sg_bestEncryptionLevels := (sg_bestEncryptionLevels a)(eL \<mapsto> nEL)\<rparr> else a)
      in if \<not> sg_encryptionLevels a (available_level nEL) then Some (Inr ([], a, s))
         else if nEL = EncryptionLevelInitial then
           bind_ro (fill_new ord NewInitialPacket InitialP nEL a s) (\<lambda>(p, a, s).
           case p of
             None \<Rightarrow> Some (Inr ([], a, s))
           | Some p \<Rightarrow>
               bind_ro (Some (pad_initial p (snd s))) (\<lambda>p.
               send_out now remote (InitialP p) nEL (a\<lparr>sg_initialSent := True\<rparr>) s))
         else if nEL = EncryptionLevelHandshake then
           bind_ro (fill_new ord NewHandshakePacket HandshakeP nEL a s) (\<lambda>(p, a, s).
           case p of None \<Rightarrow> Some (Inr ([], a, s)) | Some p \<Rightarrow> send_out now remote (HandshakeP p) nEL a s)
         else if nEL = EncryptionLevel1RTT then
           bind_ro (fill_new ord NewProtectedPacket ProtectedP nEL a s) (\<lambda>(p, a, s).
           case p of None \<Rightarrow> Some (Inr ([], a, s)) | Some p \<Rightarrow> send_out now remote (ProtectedP p) nEL a s)
         else if nEL = EncryptionLevel0RTT \<and> sg_initialSent a then
           bind_ro (fill_new ord NewZeroRTTProtectedPacket ZeroRTTP nEL a s) (\<lambda>(p, a, s).
           case p of None \<Rightarrow> Some (Inr ([], a, s)) | Some p \<Rightarrow> send_out now remote (ZeroRTTP p) nEL a s)
         else Some (Inr ([], a, s)))"

definition sg_level :: "DirectionalEncryptionLevel \<Rightarrow> 'w SendingAgent \<Rightarrow> 'w SendingAgent" where
  "sg_level dEL a =
     (if del_Read dEL then a
      else if \<not> del_Available dEL \<and> \<not> sg_KeepDroppedEncryptionLevels a
      then a\<lparr>sg_encryptionLevels := (sg_encryptionLevels a)(dEL := True)\<rparr>
      else if del_Available dEL then
        (let eLs = (sg_encryptionLevels a)(dEL := True, dEL\<lparr>del_Available := False\<rparr> := False) in
         a\<lparr>sg_encryptionLevels := eLs,
           sg_bestEncryptionLevels := (sg_bestEncryptionLevels a)
             (EncryptionLevelBest \<mapsto> chooseBestEncryptionLevel eLs False,
              EncryptionLevelBestAppData \<mapsto> chooseBestEncryptionLevel eLs True)\<rparr>)
      else a)"

text \<open>A 0-RTT packet in the datagram of the Initial packet, whose padding it replaces.\<close>

definition not_padding :: "Frame \<Rightarrow> bool" where
  "not_padding f \<longleftrightarrow> FrameType f \<noteq> PaddingFrameType"

definition coalesce ::
    "FramePacket \<Rightarrow> FramePacket \<Rightarrow> 'w SendingAgent \<Rightarrow> 'w \<times> Connection \<Rightarrow> 'w sg_result" where
  "coalesce initial zp a s =
     (case s of (w, c) \<Rightarrow>
      bind_ro (EncodeAndEncrypt seal_fuel (ZeroRTTP zp) EncryptionLevel0RTT c) (\<lambda>(zpBytes, zp).
      bind_ro (EncodeAndEncrypt seal_fuel (InitialP initial) EncryptionLevelInitial c) (\<lambda>(b, initial').
      let header = (case framer initial' of Some q \<Rightarrow> fp_Header q | None \<Rightarrow> fp_Header initial);
          stripped = initial\<lparr>fp_Header := header, fp_Frames := filter not_padding (fp_Frames initial)\<rparr>
      in bind_ro (Some (PadTo (length (nil_bytes b) - length (nil_bytes zpBytes)) stripped)) (\<lambda>initial.
         bind_ro (EncodeAndEncrypt seal_fuel (InitialP initial) EncryptionLevelInitial c) (\<lambda>(b, initial).
         Some (Inr ([Some (nil_bytes b @ nil_bytes zpBytes)], a,
                    (w, PacketWasSent zp (PacketWasSent initial c)))))))))"

definition sg_send ::
    "time \<Rightarrow> string \<Rightarrow> (nat \<Rightarrow> EncryptionLevel list) \<Rightarrow> PacketToSend \<Rightarrow> 'w SendingAgent \<Rightarrow> 'w \<times> Connection \<Rightarrow> 'w sg_result" where
  "sg_send now remote ord ps a s =
     (case ps_Packet ps of
        None \<Rightarrow> Some (Inl NilPointer)
      | Some (InitialP initial) \<Rightarrow>
          if ps_EncryptionLevel ps = EncryptionLevelInitial \<and> GetPacketType (fp_Header initial) = Initial then
            bind_ro
              (if \<not> sg_DontCoalesceZeroRTT a \<and> sg_bestEncryptionLevels a EncryptionLevelBestAppData = Some EncryptionLevel0RTT
               then fill_new ord NewZeroRTTProtectedPacket ZeroRTTP EncryptionLevel0RTT a s
               else Some (Inr (None, a, s))) (\<lambda>(zp, a, s).
            case zp of
              Some zp \<Rightarrow> coalesce initial zp a s
            | None \<Rightarrow>
                bind_ro (Some (pad_initial initial (snd s))) (\<lambda>p.
                send_out now remote (InitialP p) EncryptionLevelInitial (a\<lparr>sg_initialSent := True\<rparr>) s))
          else send_out now remote (InitialP initial) (ps_EncryptionLevel ps) a s
      | Some p \<Rightarrow> send_out now remote p (ps_EncryptionLevel ps) a s)"

section \<open>The contract of a producer\<close>

text \<open>
  The frames handed out fit the space, and no packet number is taken. What it takes to fill a packet is proved from these two laws.
\<close>

locale frame_producer =
  fixes fp :: "'w producer"
  assumes fits: "0 < n \<Longrightarrow> fp n l pn s = Some (Inr ((fs, running), s')) \<Longrightarrow> frames_size fs \<le> n"
    and numbers: "fp n l pn s = Some (Inr (r, s')) \<Longrightarrow> c_PacketNumber (snd s') = c_PacketNumber (snd s)"

lemma frames_size_Nil [simp]: "frames_size [] = 0"
  by (simp add: frames_size_def)

lemma frames_size_append [simp]: "frames_size (fs @ gs) = frames_size fs + frames_size gs"
  by (simp add: frames_size_def)

lemma add_frames_effect:
  "add_frames fs sp p = Inr (sp', p') \<Longrightarrow>
   sp' = sp - frames_size fs \<and> p' = p\<lparr>fp_Frames := fp_Frames p @ fs\<rparr>"
proof (induction fs arbitrary: sp p)
  case (Cons f fs)
  then obtain l where l: "FrameLength f = Inr l" "add_frames fs (sp - uint l) (AddFrame f p) = Inr (sp', p')" by auto
  from Cons.IH [OF l(2)] l(1) show ?case by (simp add: frames_size_def AddFrame_def)
qed simp

text \<open>What filling keeps: the header, the frames already there, the count of the space left, and the packet numbers.\<close>

definition filled :: "int \<Rightarrow> FramePacket \<Rightarrow> Connection \<Rightarrow> int \<Rightarrow> FramePacket \<Rightarrow> Connection \<Rightarrow> bool" where
  "filled sp p c sp' p' c' \<longleftrightarrow> (\<exists>fs. p' = p\<lparr>fp_Frames := fp_Frames p @ fs\<rparr> \<and> sp' = sp - frames_size fs \<and> (0 \<le> sp \<longrightarrow> 0 \<le> sp')) \<and>
     c_PacketNumber c' = c_PacketNumber c"

lemma filled_refl: "c_PacketNumber c' = c_PacketNumber c \<Longrightarrow> filled sp p c sp p c'"
  by (auto simp: filled_def intro: exI [of _ "[]"])

lemma filled_trans: "filled sp p c sp' p' c' \<Longrightarrow> filled sp' p' c' sp'' p'' c'' \<Longrightarrow> filled sp p c sp'' p'' c''"
  by (fastforce simp: filled_def)

context frame_producer
begin

lemma ask_filled:
  "ask fp ls sp p s = Some (Inr (flow, sp', p', s')) \<Longrightarrow> filled sp p (snd s) sp' p' (snd s')"
proof (induction ls arbitrary: sp p s)
  case Nil
  then show ?case by (auto intro: filled_refl)
next
  case (Cons l ls)
  show ?case
  proof (cases "sp < 1")
    case True
    with Cons.prems show ?thesis by (auto intro: filled_refl)
  next
    case False
    with Cons.prems obtain frames running s1 where
      r: "fp sp l (GetPacketNumber (fp_Header p)) s = Some (Inr ((frames, running), s1))"
      "(if \<not> running then Some (Inr (Stopped, sp, p, s1))
        else bind_ro (Some (add_frames frames sp p)) (\<lambda>(sp, p). ask fp ls sp p s1)) = Some (Inr (flow, sp', p', s'))"
      by auto
    show ?thesis
    proof (cases running)
      case True
      then obtain sp1 p1 where a: "add_frames frames sp p = Inr (sp1, p1)" "ask fp ls sp1 p1 s1 = Some (Inr (flow, sp', p', s'))"
        using r(2) by auto
      have "filled sp p (snd s) sp1 p1 (snd s1)"
        using fits [OF _ r(1)] numbers [OF r(1)] add_frames_effect [OF a(1)] False by (auto simp: filled_def)
      from this Cons.IH [OF a(2)] show ?thesis by (rule filled_trans)
    next
      case False
      with r(2) numbers [OF r(1)] show ?thesis by (auto intro: filled_refl)
    qed
  qed
qed

end

text \<open>A list of producers, each of which may be nil.\<close>

definition producers_ok :: "'w producer option list \<Rightarrow> bool" where
  "producers_ok arr \<longleftrightarrow> (\<forall>fp. Some fp \<in> set arr \<longrightarrow> frame_producer fp)"

lemma producers_ok_remove_at: "producers_ok arr \<Longrightarrow> producers_ok (remove_at i len arr)"
proof -
  have "set (remove_at i len arr) \<subseteq> insert None (set arr)"
    unfolding remove_at_def using set_update_subset_insert [of arr i None]
    by (auto dest: in_set_takeD in_set_dropD)
  then show "producers_ok arr \<Longrightarrow> producers_ok (remove_at i len arr)" by (auto simp: producers_ok_def)
qed

lemma length_remove_at: "i < len \<Longrightarrow> len \<le> length arr \<Longrightarrow> length (remove_at i len arr) = length arr"
  by (simp add: remove_at_def)

lemma producer_loop_filled:
  assumes "producer_loop levels is arr len sp p s = Some (Inr (arr', len', p', s'))" "producers_ok arr"
    "list_all (\<lambda>i. i < length arr) is" "len \<le> length arr"
  shows "\<exists>sp'. filled sp p (snd s) sp' p' (snd s')"
  using assms
proof (induction "is" arbitrary: arr len sp p s)
  case Nil
  then show ?case by (auto intro: filled_refl)
next
  case (Cons i "is")
  obtain fp where fp: "arr ! i = Some fp" using Cons.prems(1) by (cases "arr ! i") auto
  with Cons.prems(1) obtain flow sp1 p1 s1 where a: "ask fp (levels i) sp p s = Some (Inr (flow, sp1, p1, s1))" by auto
  have "frame_producer fp" using Cons.prems(2,3) fp by (simp add: producers_ok_def) (metis nth_mem)
  from frame_producer.ask_filled [OF this a] have f: "filled sp p (snd s) sp1 p1 (snd s1)" .
  show ?case
  proof (cases flow)
    case Asked
    with a fp Cons.prems(1) have "producer_loop levels is arr len sp1 p1 s1 = Some (Inr (arr', len', p', s'))" by simp
    from Cons.IH [OF this] Cons.prems f show ?thesis by (auto intro: filled_trans)
  next
    case Stopped
    with a fp Cons.prems(1) have i: "i < len"
      "producer_loop levels is (remove_at i len arr) (len - 1) sp1 p1 s1 = Some (Inr (arr', len', p', s'))"
      by (auto split: if_splits)
    have "length (remove_at i len arr) = length arr" "len - 1 \<le> length arr"
      using length_remove_at [OF i(1) Cons.prems(4)] Cons.prems(4) by simp_all
    with Cons.IH [OF i(2) producers_ok_remove_at [OF Cons.prems(2)]] Cons.prems(3,4)
    obtain sp' where "filled sp1 p1 (snd s1) sp' p' (snd s')" by auto
    from filled_trans [OF f this] show ?thesis ..
  next
    case Full
    with a fp Cons.prems(1) f show ?thesis by auto
  qed
qed

section \<open>The agents as producers\<close>

text \<open>
  \<^verbatim>\<open>FrameProducingAgent.RequestFrames\<close>: an agent that has stopped answers that there is no more; otherwise it runs its branch for requests.
\<close>

definition RequestFrames ::
    "('w \<Rightarrow> bool) \<Rightarrow> (int \<Rightarrow> EncryptionLevel \<Rightarrow> 'w \<times> Connection \<Rightarrow> (Frame list \<times> 'w \<times> Connection) res option) \<Rightarrow> 'w producer" where
  "RequestFrames stopped branch availableSpace level number s =
     (if stopped (fst s) then Some (Inr (([], False), s))
      else bind_ro (branch availableSpace level s) (\<lambda>(fs, s). Some (Inr ((fs, True), s))))"

text \<open>The state of the agents; \<open>ag_stopped\<close> has the names of those whose close channel is closed.\<close>

record Agents =
  ag_Ack :: AckAgent
  ag_FrameQueue :: frameBuffer
  ag_FlowControl :: FlowControlAgent
  ag_Stream :: StreamAgent
  ag_stopped :: "string set"

definition fq_producer :: "Agents producer" where
  "fq_producer = RequestFrames (\<lambda>w. ''FrameQueueAgent'' \<in> ag_stopped w) (\<lambda>n level (w, c).
     bind_ro (fq_requestFrame n level (ag_FrameQueue w) c) (\<lambda>(fs, b, c). Some (Inr (fs, w\<lparr>ag_FrameQueue := b\<rparr>, c))))"

definition ack_producer :: "time \<Rightarrow> Agents producer" where
  "ack_producer now = RequestFrames (\<lambda>w. ''AckAgent'' \<in> ag_stopped w) (\<lambda>n level (w, c).
     bind_ro (Some (ack_request now n level (ag_Ack w) c)) (\<lambda>(fs, c). Some (Inr (fs, w, c))))"

definition fc_producer :: "(FlowControlAgent \<Rightarrow> u64 list) \<Rightarrow> (FlowControlAgent \<Rightarrow> u64 list) \<Rightarrow> Agents producer" where
  "fc_producer ls bs = RequestFrames (\<lambda>w. ''FlowControlAgent'' \<in> ag_stopped w) (\<lambda>n level (w, c).
     bind_ro (Some (fc_requestFrame (ls (ag_FlowControl w)) (bs (ag_FlowControl w)) n level (ag_FlowControl w) c))
       (\<lambda>(fs, a, c). Some (Inr (fs, w\<lparr>ag_FlowControl := a\<rparr>, c))))"

definition sa_producer :: "(StreamAgent \<Rightarrow> u64 list) \<Rightarrow> Agents producer" where
  "sa_producer ks = RequestFrames (\<lambda>w. ''StreamAgent'' \<in> ag_stopped w) (\<lambda>n level (w, c).
     bind_ro (Some (sa_requestFrame (ks (ag_Stream w)) n level (ag_Stream w) c))
       (\<lambda>(fs, a, c). Some (Inr (map StreamF fs, w\<lparr>ag_Stream := a\<rparr>, c))))"

lemma RequestFrames_producer:
  assumes "\<And>n l s fs s'. 0 < n \<Longrightarrow> branch n l s = Some (Inr (fs, s')) \<Longrightarrow> frames_size fs \<le> n"
    and "\<And>n l s fs s'. branch n l s = Some (Inr (fs, s')) \<Longrightarrow> c_PacketNumber (snd s') = c_PacketNumber (snd s)"
  shows "frame_producer (RequestFrames stopped branch)"
  using assms by unfold_locales (auto simp: RequestFrames_def split: if_splits)

interpretation fq_producer: frame_producer fq_producer
  unfolding fq_producer_def
proof (rule RequestFrames_producer, goal_cases)
  case (1 n l s fs s')
  obtain w c where s: "s = (w, c)" by fastforce
  from 1(2) obtain q i sp q' where "request_loop heap_Pop FrameLength (Suc (length q)) n q = Some (Inr (fs, i, sp, q'))"
    by (auto simp: s fq_requestFrame_def simp del: request_loop.simps split: option.splits sum.splits)
  from request_loop_size [OF this] 1(1) show ?case by simp
next
  case (2 n l s fs s')
  obtain w c where s: "s = (w, c)" by fastforce
  from 2 show ?case
    by (auto simp: s fq_requestFrame_def submit_prepare_def simp del: request_loop.simps split: option.splits sum.splits)
qed

lemma GetAckFrame_numbers: "GetAckFrame space c = (r, c') \<Longrightarrow> c_PacketNumber c' = c_PacketNumber c"
  by (auto simp: GetAckFrame_def Let_def split: list.splits)

interpretation ack_producer: frame_producer "ack_producer now"
  unfolding ack_producer_def
proof (rule RequestFrames_producer, goal_cases)
  case (1 n l s fs s')
  then show ?case
    by (auto simp: ack_request_def Let_def frames_size_def split: if_splits prod.splits option.splits)
next
  case (2 n l s fs s')
  then show ?case
    by (auto simp: ack_request_def Let_def submit_prepare_def dest: GetAckFrame_numbers
        split: if_splits prod.splits option.splits)
qed

lemma fitting_size: "fitting fs n t = Inr gs \<Longrightarrow> t \<le> n \<Longrightarrow> t + frames_size gs \<le> n"
proof (induction fs arbitrary: t gs)
  case (Cons f fs)
  then obtain l where l: "FrameLength f = Inr l" by auto
  show ?case
  proof (cases "t + uint l < n")
    case True
    with Cons.prems l obtain hs where h: "fitting fs n (t + uint l) = Inr hs" "gs = f # hs" by auto
    from Cons.IH [OF h(1)] True l h(2) show ?thesis by (simp add: frames_size_def)
  next
    case False
    with Cons l show ?thesis by simp
  qed
qed simp

lemma blocked_frames_numbers: "c_PacketNumber (snd (blocked_frames is c)) = c_PacketNumber c"
  by (induction "is" c rule: blocked_frames.induct) (auto simp: get_stream_def split: prod.splits)

lemma fc_SubmitFrame_numbers:
  "c_PacketNumber (fold (\<lambda>f. fc_SubmitFrame (g f) a) fs c) = c_PacketNumber c"
  by (induction fs arbitrary: c) (simp_all add: fc_SubmitFrame_def submit_frame_def Let_def)

interpretation fc_producer: frame_producer "fc_producer ls bs"
  unfolding fc_producer_def
proof (rule RequestFrames_producer, goal_cases)
  case (1 n l s fs s')
  obtain w c where s: "s = (w, c)" by fastforce
  from 1(2) consider "fs = []" | gs where "fitting gs n 0 = Inr fs"
    by (auto simp: s fc_requestFrame_def Let_def split: if_splits prod.splits)
  then show ?case using fitting_size [of _ n 0 fs] 1(1) by cases auto
next
  case (2 n l s fs s')
  obtain w c where s: "s = (w, c)" by fastforce
  from 2 show ?case
    using blocked_frames_numbers [of "bs (ag_FlowControl w)" c]
    by (auto simp: s fc_requestFrame_def Let_def fc_SubmitFrame_numbers split: if_splits prod.splits)
qed

section \<open>Making a packet\<close>

text \<open>The four constructors, with their packet type and number space.\<close>

definition maker :: "(Connection \<Rightarrow> (FramePacket \<times> Connection) res) \<Rightarrow> PNSpace \<Rightarrow> bool" where
  "maker new space \<longleftrightarrow> (new, space) \<in> {(NewInitialPacket, PNSpaceInitial), (NewHandshakePacket, PNSpaceHandshake),
     (NewProtectedPacket, PNSpaceAppData), (NewZeroRTTProtectedPacket, PNSpaceAppData)}"

lemma NewLongHeader_numbers:
  "NewLongHeader t c space = Inr (h, c') \<Longrightarrow> lh_PacketNumber h = c_PacketNumber c space \<and>
     c' = c\<lparr>c_PacketNumber := (c_PacketNumber c)(space := c_PacketNumber c space + 1)\<rparr>"
  by (auto simp: NewLongHeader_def nextPacketNumber_def Let_def)

lemma maker_numbers:
  assumes "maker new space" "new c = Inr (p, c')"
  shows "fp_Frames p = [] \<and> GetPacketNumber (fp_Header p) = c_PacketNumber c space \<and>
    c' = c\<lparr>c_PacketNumber := (c_PacketNumber c)(space := c_PacketNumber c space + 1)\<rparr>"
  using assms
  by (auto simp: maker_def NewInitialPacket_def NewHandshakePacket_def NewProtectedPacket_def NewZeroRTTProtectedPacket_def
      new_FramePacket_def NewShortHeader_def nextPacketNumber_def Let_def dest!: NewLongHeader_numbers split: if_splits)


text \<open>An agent whose only producer is the ACK agent, on a connection that owes an acknowledgement, to show that the hypotheses can hold.\<close>

definition ack_sender :: "Agents SendingAgent" where
  "ack_sender = sg_Run \<lparr>sg_MTU = 1200, sg_FrameProducer = [Some (ack_producer 0)], sg_DontCoalesceZeroRTT = False,
     sg_KeepDroppedEncryptionLevels = False, sg_encryptionLevels = \<lambda>_. False, sg_bestEncryptionLevels = Map.empty,
     sg_initialSent = False\<rparr>"

definition owing :: Connection where
  "owing = zero_Connection\<lparr>c_AckQueue := \<lambda>_. [5], c_CryptoStates := \<lambda>_. Some plain_keys, c_PacketNumber := \<lambda>_. 7,
     c_DestinationCID := [1]\<rparr>"

definition five_acked :: AckFrame where
  "five_acked = \<lparr>af_LargestAcknowledged = 5, af_AckDelay = 0, af_AckRangeCount = 0,
     af_AckRanges = [\<lparr>ar_Gap = 0, ar_AckRange = 0\<rparr>]\<rparr>"

lemma ack_sender_fills:
  fixes w :: Agents
  defines "w0 \<equiv> w\<lparr>ag_Ack := \<lparr>aa_DisableAcks = \<lambda>_. False, aa_TotalDataAcked = \<lambda>_. 0, aa_DisablePathResponse = False,
     aa_recvdTimestamps = \<lambda>_. Map.empty\<rparr>, ag_stopped := {}\<rparr>"
  shows "\<exists>p0 c0 p c'. NewProtectedPacket owing = Inr (p0, c0) \<and> HeaderLength (fp_Header p0) = 3 \<and>
    fill_new (\<lambda>_. []) NewProtectedPacket ProtectedP EncryptionLevel1RTT ack_sender (w0, owing) =
      Some (Inr (Some p, ack_sender, w0, c')) \<and> fp_Frames p = [Ack five_acked]"
proof -
  define c0 where "c0 = owing\<lparr>c_PacketNumber := (c_PacketNumber owing)(PNSpaceAppData := 8)\<rparr>"
  define p0 where "p0 = new_FramePacket (Short \<lparr>sh_SpinBit = False, sh_KeyPhase = False, sh_DestinationCID = [1],
     sh_TruncatedPN = \<lparr>tpn_Value = 7, tpn_Length = 1\<rparr>, sh_PacketNumber = 7\<rparr>) []"
  have "int_Log2 8 = 3"
    by (simp add: int_Log2.simps [of 8] int_Log2.simps [of 4] int_Log2.simps [of 2] int_Log2.simps [of "Suc 0"])
  then have new: "NewProtectedPacket owing = Inr (p0, c0)"
    by (simp add: NewProtectedPacket_def NewShortHeader_def nextPacketNumber_def owing_def zero_Connection_def Truncate_def
        p0_def c0_def)
  have "GetAckFrame PNSpaceAppData c0 = (Some five_acked, c0)"
    by (simp add: GetAckFrame_def sort_queue_def c0_def owing_def five_acked_def Let_def fun_upd_idem)
  then have "ack_request 0 1181 EncryptionLevel1RTT (ag_Ack w0) c0 = Inr ([Ack five_acked], c0)"
    by (simp add: ack_request_def EncryptionLevelToPNSpace_def go_lookup_def five_acked_def w0_def
        AckFrame_FrameLength_def len_vars_def VarIntLen_def maxVarInt1_def)
  moreover have "FrameLength (Ack five_acked) = Inr 5"
    by (simp add: five_acked_def AckFrame_FrameLength_def len_vars_def VarIntLen_def maxVarInt1_def)
  moreover have "HeaderLength (fp_Header p0) = 3" by (simp add: p0_def new_FramePacket_def ShortHeader_HeaderLength_def)
  moreover have "write_overhead EncryptionLevel1RTT c0 = Inr 16"
    by (simp add: write_overhead_def Connection_CryptoState_def c0_def owing_def plain_keys_def plain_AEAD_def)
  moreover have "ag_stopped w0 = {}" by (simp add: w0_def)
  ultimately show ?thesis
    using new by (simp add: fill_new_def fillPacket_def ack_sender_def sg_Run_def fill_levels_def ack_producer_def
        RequestFrames_def AddFrame_def p0_def new_FramePacket_def)
qed


section \<open>Slips\<close>

text \<open>Two producers that have stopped are one too many: the loop goes on over the old length of the slice and indexes the shortened one.\<close>

lemma two_stopped_panic:
  assumes "sg_FrameProducer a = [Some fq_producer, Some (ack_producer now)]"
    "ag_stopped w = {''FrameQueueAgent'', ''AckAgent''}" "write_overhead level c = Inr oh"
    "int (HeaderLength (fp_Header p)) + int oh < uint (sg_MTU a)"
  shows "fillPacket ord space p level a (w, c) = Some (Inl IndexOutOfRange)"
  using assms
  by (simp add: fillPacket_def fill_levels_def fq_producer_def ack_producer_def RequestFrames_def remove_at_def upt_rec)

text \<open>Dropping a level sets another key of the map: the level is used as before.\<close>

lemma dropped_level_stays:
  "\<not> del_Available d \<Longrightarrow>
   sg_encryptionLevels (sg_level d a) (available_level l) = sg_encryptionLevels a (available_level l)"
  by (auto simp: sg_level_def available_level_def)

text \<open>
  The stream agent breaks the contract: it counts one byte for the length of its data, whatever the data is. In a space of 70 bytes it
  hands out a frame of 71.
\<close>

lemma stream_agent_overruns:
  fixes a :: StreamAgent and c :: Connection
  defines "a0 \<equiv> a\<lparr>sa_streamBuffers := [0 \<mapsto> replicate 100 0], sa_DisableFrameSending := False\<rparr>"
    and "c0 \<equiv> put_stream 0 (NewStream\<lparr>WriteOffset := 100\<rparr>) c"
  shows "\<exists>f a' c'. sa_requestFrame [0] 70 EncryptionLevel1RTT a0 c0 = Inr ([f], a', c') \<and> frames_size [StreamF f] = 71"
proof -
  have g: "get_stream 0 c0 = (NewStream\<lparr>WriteOffset := 100\<rparr>, c0)"
    by (simp add: c0_def get_stream_def put_stream_def Streams_Get_def)
  have h: "StreamFrame_FrameLength (NewStreamFrame 0 0 [] False) = Inr 3"
    by (simp add: NewStreamFrame_def StreamFrame_FrameLength_def len_vars_def VarIntLen_def maxVarInt1_def)
  let ?f = "(NewStreamFrame 0 0 [] False)\<lparr>sf_StreamData := replicate 67 0, sf_LenBit := True, sf_Length := 67\<rparr>"
  have "sa_requestFrame [0] 70 EncryptionLevel1RTT a0 c0 =
      Inr ([?f], a0\<lparr>sa_streamBuffers := [0 \<mapsto> replicate 30 0]\<rparr>, c0)"
    using g h by (simp add: sa_requestFrame_def sa_take_def a0_def go_Min_def Let_def)
  moreover have "frames_size [StreamF ?f] = 71"
    by (simp add: frames_size_def NewStreamFrame_def StreamFrame_FrameLength_def len_vars_def VarIntLen_def maxVarInt1_def
        maxVarInt2_def)
  ultimately show ?thesis by blast
qed

end
