(* ===== verification/Recovery.thy ===== *)
theory Recovery
  imports Packets
begin

text \<open>
  Loss recovery (\<^verbatim>\<open>agents/recovery_agent.go\<close>): the frames of sent packets are kept until the packet is acknowledged, and are
  requeued again by an ACK frame that skips the packet or when their timer runs out.

  The state is the agent with its two maps; one definition per branch of its \<^verbatim>\<open>select\<close> loop, and a step relation over the agent,
  the connection and the log of outgoing packets it has taken. Times are nanoseconds. A \<^verbatim>\<open>range\<close> over a map visits its keys in an
  order that Go leaves open: the order is an argument of the timer branch.
\<close>

section \<open>The agent\<close>

record RetransmittableFrames =
  rf_Frames :: "Frame list"
  rf_Timestamp :: time
  rf_Level :: EncryptionLevel

type_synonym batch = "RetransmittableFrames list"
type_synonym rec_buffer = "PNSpace \<Rightarrow> PacketNumber \<rightharpoonup> RetransmittableFrames"

record RecoveryAgent =
  retransmissionBuffer :: rec_buffer
  packetsSent :: "PNSpace \<Rightarrow> PacketNumber \<Rightarrow> bool"
  TimerValue :: int
  ra_close :: bool

definition NewRetransmittableFrames :: "Frame list \<Rightarrow> EncryptionLevel \<Rightarrow> time \<Rightarrow> RetransmittableFrames" where
  "NewRetransmittableFrames frames level now = \<lparr>rf_Frames = frames, rf_Timestamp = now, rf_Level = level\<rparr>"

definition batch_Less :: "nat \<Rightarrow> nat \<Rightarrow> batch \<Rightarrow> bool" where
  "batch_Less i j a \<longleftrightarrow> rf_Timestamp (a ! i) < rf_Timestamp (a ! j)"

definition batch_Swap :: "nat \<Rightarrow> nat \<Rightarrow> batch \<Rightarrow> batch" where
  "batch_Swap i j a = a[i := a ! j, j := a ! i]"

definition NFrames :: "batch \<Rightarrow> nat" where
  "NFrames a = fold (\<lambda>rf n. n + length (rf_Frames rf)) a 0"

text \<open>The initial maps, made by \<^verbatim>\<open>Run\<close>.\<close>

definition recovery_Run :: "RecoveryAgent \<Rightarrow> RecoveryAgent" where
  "recovery_Run a = a\<lparr>retransmissionBuffer := \<lambda>_. Map.empty, packetsSent := \<lambda>_ _. False, ra_close := False\<rparr>"

section \<open>Acknowledgements\<close>

definition RA_PacketAcknowledged ::
    "PacketNumber \<Rightarrow> PNSpace \<Rightarrow> RecoveryAgent \<times> Connection \<Rightarrow> RecoveryAgent \<times> Connection" where
  "RA_PacketAcknowledged packet space = (\<lambda>(a, c).
     if \<not> packetsSent a space packet then (a, c)
     else (a\<lparr>retransmissionBuffer := (retransmissionBuffer a)(space := (retransmissionBuffer a space)(packet := None))\<rparr>,
           c\<lparr>c_PacketAcknowledged := c_PacketAcknowledged c @ [\<lparr>pa_PacketNumber = packet, pa_PNSpace = space\<rparr>]\<rparr>))"

definition ack_threshold :: nat where "ack_threshold = 1000"

text \<open>The loop over the acknowledged packets of a range: the packet number does not change in it.\<close>

fun range_loop :: "nat \<Rightarrow> PacketNumber \<Rightarrow> PNSpace \<Rightarrow> RecoveryAgent \<times> Connection \<Rightarrow> RecoveryAgent \<times> Connection" where
  "range_loop 0 cur space s = s"
| "range_loop (Suc n) cur space s = range_loop n cur space (RA_PacketAcknowledged cur space s)"

text \<open>The loop over the packets of a gap.\<close>

fun gap_loop ::
    "nat \<Rightarrow> PacketNumber \<Rightarrow> (PacketNumber \<rightharpoonup> RetransmittableFrames) \<Rightarrow> batch \<Rightarrow>
     PacketNumber \<times> (PacketNumber \<rightharpoonup> RetransmittableFrames) \<times> batch" where
  "gap_loop 0 cur buffer frames = (cur, buffer, frames)"
| "gap_loop (Suc n) cur buffer frames =
     gap_loop n (cur - 1) (buffer(cur - 1 := None)) (case buffer cur of Some f \<Rightarrow> frames @ [f] | None \<Rightarrow> frames)"

definition gap_count :: "AckRange \<Rightarrow> nat" where
  "gap_count b = min (unat (ar_Gap b) + 1) ack_threshold"

definition range_count :: "AckRange \<Rightarrow> nat" where
  "range_count b = min (unat (ar_AckRange b)) ack_threshold"

fun block_loop ::
    "AckRange list \<Rightarrow> PacketNumber \<Rightarrow> PNSpace \<Rightarrow> batch \<Rightarrow> RecoveryAgent \<times> Connection \<Rightarrow>
     batch \<times> RecoveryAgent \<times> Connection" where
  "block_loop [] cur space frames s = (frames, s)"
| "block_loop (b # bs) cur space frames (a, c) =
     (case gap_loop (gap_count b) cur (retransmissionBuffer a space) frames of (cur, buffer, frames) \<Rightarrow>
      block_loop bs cur space frames
        (range_loop (range_count b) cur space
          (a\<lparr>retransmissionBuffer := (retransmissionBuffer a)(space := buffer)\<rparr>, c)))"

definition ProcessAck ::
    "AckFrame \<Rightarrow> PNSpace \<Rightarrow> RecoveryAgent \<times> Connection \<Rightarrow> (batch \<times> RecoveryAgent \<times> Connection) res" where
  "ProcessAck ack space s =
     (let s = RA_PacketAcknowledged (af_LargestAcknowledged ack) space s in
      case af_AckRanges ack of
        [] \<Rightarrow> Inl IndexOutOfRange
      | b # bs \<Rightarrow>
          Inr (block_loop bs (af_LargestAcknowledged ack) space []
                (range_loop (range_count b) (af_LargestAcknowledged ack) space s)))"

section \<open>Retransmission\<close>

text \<open>The heuristic for the first packet of a connection; the index is out of range for an empty list of frames.\<close>

definition first_initial :: "RetransmittableFrames \<Rightarrow> bool res" where
  "first_initial b =
     (if rf_Level b = EncryptionLevelInitial then
        (if length (rf_Frames b) > 200 then Inr True
         else case rf_Frames b of [] \<Rightarrow> Inl IndexOutOfRange | f # _ \<Rightarrow> Inr (FrameType f = StreamType))
      else Inr False)"

definition requeue :: "RetransmittableFrames \<Rightarrow> Connection \<Rightarrow> Connection" where
  "requeue b = fold (\<lambda>f. submit_frame \<lparr>qf_Frame = f, qf_EncryptionLevel = rf_Level b\<rparr>) (rf_Frames b)"

fun RetransmitBatch :: "batch \<Rightarrow> Connection \<Rightarrow> Connection res" where
  "RetransmitBatch [] c = Inr c"
| "RetransmitBatch (b # bs) c =
     bind_res (first_initial b) (\<lambda>first.
     if first then
       bind_res (NewInitialPacket c) (\<lambda>(packet, c).
       Inr (submit_send \<lparr>ps_Packet = Some (InitialP (packet\<lparr>fp_Frames := rf_Frames b\<rparr>)),
              ps_EncryptionLevel = EncryptionLevelInitial\<rparr> c))
     else RetransmitBatch bs (requeue b c))"

section \<open>The branches\<close>

text \<open>\<open>ks\<close> is the order in which the two nested loops visit the entries, \<open>now\<close> the time read for each of them.\<close>

fun expire_loop ::
    "int \<Rightarrow> (PNSpace \<times> PacketNumber \<Rightarrow> time) \<Rightarrow> (PNSpace \<times> PacketNumber) list \<Rightarrow> rec_buffer \<Rightarrow> batch \<Rightarrow>
     rec_buffer \<times> batch" where
  "expire_loop timer now [] buf batch = (buf, batch)"
| "expire_loop timer now ((space, pn) # ks) buf batch =
     (case buf space pn of
        Some v \<Rightarrow>
          if now (space, pn) - rf_Timestamp v > timer
          then expire_loop timer now ks (buf(space := (buf space)(pn := None))) (batch @ [v])
          else expire_loop timer now ks buf batch
      | None \<Rightarrow> expire_loop timer now ks buf batch)"

definition recovery_tick ::
    "(PNSpace \<times> PacketNumber \<Rightarrow> time) \<Rightarrow> (PNSpace \<times> PacketNumber) list \<Rightarrow> RecoveryAgent \<Rightarrow> Connection \<Rightarrow>
     (RecoveryAgent \<times> Connection) res" where
  "recovery_tick now ks a c =
     (case expire_loop (TimerValue a) now ks (retransmissionBuffer a) [] of (buf, batch) \<Rightarrow>
      bind_res (RetransmitBatch batch c) (\<lambda>c. Inr (a\<lparr>retransmissionBuffer := buf\<rparr>, c)))"

fun frame_ack :: "Frame \<Rightarrow> AckFrame option" where
  "frame_ack (Ack f) = Some f"
| "frame_ack (AckECN f) = Some (ae_AckFrame f)"
| "frame_ack _ = None"

fun ack_loop :: "Frame list \<Rightarrow> PNSpace \<Rightarrow> RecoveryAgent \<times> Connection \<Rightarrow> (RecoveryAgent \<times> Connection) res" where
  "ack_loop [] space s = Inr s"
| "ack_loop (f # fs) space (a, c) =
     (case frame_ack f of
        None \<Rightarrow> Inl NilPointer
      | Some ack \<Rightarrow>
          (let c = (if af_LargestAcknowledged ack > c_LargestPNsAcknowledged c space
                    then c\<lparr>c_LargestPNsAcknowledged := (c_LargestPNsAcknowledged c)(space := af_LargestAcknowledged ack)\<rparr>
                    else c)
           in bind_res (ProcessAck ack space (a, c)) (\<lambda>(batch, a, c).
              bind_res (RetransmitBatch batch c) (\<lambda>c. ack_loop fs space (a, c)))))"

definition clear_space :: "PNSpace \<Rightarrow> RecoveryAgent \<Rightarrow> RecoveryAgent" where
  "clear_space space a = a\<lparr>retransmissionBuffer := (retransmissionBuffer a)(space := Map.empty)\<rparr>"

definition clear_all :: "RecoveryAgent \<Rightarrow> RecoveryAgent" where
  "clear_all a = a\<lparr>retransmissionBuffer := \<lambda>_. Map.empty\<rparr>"

definition closes :: "FramePacket \<Rightarrow> bool" where
  "closes p \<longleftrightarrow> Contains ConnectionCloseType p \<or> Contains ApplicationCloseType p"

definition recovery_incoming :: "Packet \<Rightarrow> RecoveryAgent \<Rightarrow> Connection \<Rightarrow> (RecoveryAgent \<times> Connection) res" where
  "recovery_incoming p a c =
     (case framer p of
        Some q \<Rightarrow>
          (let ackFrames = GetAll AckType q @ GetAll AckECNType q in
           bind_res (ack_loop ackFrames (Packet_PNSpace p) (a, c)) (\<lambda>(a, c).
           let a = (if ackFrames = [] \<and> Packet_PNSpace p = PNSpaceInitial then clear_space PNSpaceInitial a else a);
               a = (if closes q then a\<lparr>ra_close := True\<rparr> else a)
           in Inr (a, c)))
      | None \<Rightarrow>
          (case p of
             RetryP _ \<Rightarrow> Inr (clear_space PNSpaceInitial a, c)
           | VersionNegotiationP _ \<Rightarrow> Inr (clear_space PNSpaceInitial a, c)
           | _ \<Rightarrow> Inr (a, c)))"

definition recovery_outgoing :: "time \<Rightarrow> Packet \<Rightarrow> RecoveryAgent \<Rightarrow> RecoveryAgent" where
  "recovery_outgoing now p a =
     (case framer p of
        None \<Rightarrow> a
      | Some q \<Rightarrow>
          (let space = Packet_PNSpace p;
               pn = GetPacketNumber (fp_Header q);
               a = a\<lparr>packetsSent := (packetsSent a)(space := (packetsSent a space)(pn := True))\<rparr>;
               frames = Packet_GetRetransmittableFrames p;
               a = (if length frames > 0
                    then a\<lparr>retransmissionBuffer := (retransmissionBuffer a)(space := (retransmissionBuffer a space)
                            (pn \<mapsto> NewRetransmittableFrames frames (Packet_EncryptionLevel p) now))\<rparr>
                    else a)
           in if closes q then clear_all a else a))"

definition recovery_level :: "DirectionalEncryptionLevel \<Rightarrow> RecoveryAgent \<Rightarrow> RecoveryAgent" where
  "recovery_level eL a =
     (let a = (if del_Available eL \<and> del_EncryptionLevel eL = EncryptionLevel1RTT
               then clear_space PNSpaceHandshake (clear_space PNSpaceInitial a) else a);
          a = (if \<not> del_Available eL \<and> del_EncryptionLevel eL = EncryptionLevelInitial
               then clear_space PNSpaceInitial a else a)
      in if \<not> del_Available eL \<and> del_EncryptionLevel eL = EncryptionLevelHandshake
         then clear_space PNSpaceHandshake a else a)"

definition recovery_closed :: "RecoveryAgent \<Rightarrow> RecoveryAgent" where
  "recovery_closed a = clear_all a"

subsection \<open>The agent as a machine\<close>

text \<open>The state has the log of outgoing packets the agent has seen. The timer visits every entry once.\<close>

type_synonym rec_state = "Packet list \<times> RecoveryAgent \<times> Connection"

datatype rec_event =
    RecTick "PNSpace \<times> PacketNumber \<Rightarrow> time" "(PNSpace \<times> PacketNumber) list"
  | RecIncoming Packet | RecOutgoing time Packet | RecLevel DirectionalEncryptionLevel | RecClosed

definition visits :: "(PNSpace \<times> PacketNumber) list \<Rightarrow> rec_buffer \<Rightarrow> bool" where
  "visits ks buf \<longleftrightarrow> distinct ks \<and> set ks = {(space, pn). buf space pn \<noteq> None}"

inductive rec_step :: "rec_state \<Rightarrow> rec_event \<Rightarrow> rec_state \<Rightarrow> bool" where
  tick: "visits ks (retransmissionBuffer a) \<Longrightarrow> recovery_tick now ks a c = Inr (a', c') \<Longrightarrow>
    rec_step (l, a, c) (RecTick now ks) (l, a', c')"
| incoming: "recovery_incoming p a c = Inr (a', c') \<Longrightarrow> rec_step (l, a, c) (RecIncoming p) (l, a', c')"
| outgoing: "rec_step (l, a, c) (RecOutgoing now p) (l @ [p], recovery_outgoing now p a, c)"
| level: "rec_step (l, a, c) (RecLevel e) (l, recovery_level e a, c)"
| closed: "rec_step (l, a, c) RecClosed (l, recovery_closed a, c)"

inductive_cases rec_stepE: "rec_step s e s'"

definition rec_init :: "rec_state \<Rightarrow> bool" where
  "rec_init = (\<lambda>(l, a, c). l = [] \<and> (\<exists>a'. a = recovery_Run a'))"

section \<open>What the buffer holds\<close>

text \<open>An entry is the retransmittable frames of a packet that was sent.\<close>

definition sent_entry :: "Packet list \<Rightarrow> PNSpace \<Rightarrow> PacketNumber \<Rightarrow> RetransmittableFrames \<Rightarrow> bool" where
  "sent_entry l space pn rf \<longleftrightarrow> rf_Frames rf \<noteq> [] \<and>
     (\<exists>p \<in> set l. \<exists>q. framer p = Some q \<and> Packet_PNSpace p = space \<and> GetPacketNumber (fp_Header q) = pn \<and>
        rf_Level rf = Packet_EncryptionLevel p \<and> rf_Frames rf = Packet_GetRetransmittableFrames p)"

definition rec_inv :: "rec_state \<Rightarrow> bool" where
  "rec_inv = (\<lambda>(l, a, c). \<forall>space pn rf. retransmissionBuffer a space pn = Some rf \<longrightarrow>
     packetsSent a space pn \<and> sent_entry l space pn rf)"

text \<open>Every branch but the one for outgoing packets only takes entries away, and leaves \<^verbatim>\<open>packetsSent\<close> alone.\<close>

definition shrinks :: "RecoveryAgent \<Rightarrow> RecoveryAgent \<Rightarrow> bool" where
  "shrinks a a' \<longleftrightarrow> packetsSent a' = packetsSent a \<and>
     (\<forall>space. retransmissionBuffer a' space \<subseteq>\<^sub>m retransmissionBuffer a space)"

lemma shrinks_refl [simp]: "shrinks a a"
  by (simp add: shrinks_def)

lemma shrinks_trans [trans]: "shrinks a b \<Longrightarrow> shrinks b c \<Longrightarrow> shrinks a c"
  by (auto simp: shrinks_def intro: map_le_trans)

lemma map_le_del: "m(k := None) \<subseteq>\<^sub>m m"
  by (simp add: map_le_def)

lemma shrinks_space:
  "m \<subseteq>\<^sub>m retransmissionBuffer a space \<Longrightarrow>
   shrinks a (a\<lparr>retransmissionBuffer := (retransmissionBuffer a)(space := m)\<rparr>)"
  by (simp add: shrinks_def)

lemma RA_PacketAcknowledged_shrinks: "shrinks (fst s) (fst (RA_PacketAcknowledged pn space s))"
  by (auto simp: RA_PacketAcknowledged_def split_beta intro: shrinks_space map_le_del)

lemma range_loop_shrinks: "shrinks (fst s) (fst (range_loop n cur space s))"
  by (induction n cur space s rule: range_loop.induct) (auto intro: shrinks_trans RA_PacketAcknowledged_shrinks)

lemma gap_loop_map_le: "fst (snd (gap_loop n cur m fs)) \<subseteq>\<^sub>m m"
proof (induction n cur m fs rule: gap_loop.induct)
  case (2 n cur m fs)
  from map_le_trans [OF 2 map_le_del] show ?case by (subst gap_loop.simps)
qed simp

lemma block_loop_shrinks: "shrinks (fst s) (fst (snd (block_loop bs cur space fs s)))"
proof (induction bs cur space fs s rule: block_loop.induct)
  case (2 b bs cur space frames a c)
  obtain cur' m fs' where g: "gap_loop (gap_count b) cur (retransmissionBuffer a space) frames = (cur', m, fs')"
    by (metis prod_cases3)
  let ?a = "a\<lparr>retransmissionBuffer := (retransmissionBuffer a)(space := m)\<rparr>"
  have "shrinks a ?a"
    using gap_loop_map_le [of "gap_count b" cur "retransmissionBuffer a space" frames] g by (intro shrinks_space) simp
  also have "shrinks ?a (fst (range_loop (range_count b) cur' space (?a, c)))"
    using range_loop_shrinks [of "(?a, c)"] by simp
  also note 2 [OF g [symmetric] refl]
  finally show ?case using g by simp
qed simp

lemma ProcessAck_shrinks: "ProcessAck ack space s = Inr (fs, a', c') \<Longrightarrow> shrinks (fst s) a'"
proof -
  assume p: "ProcessAck ack space s = Inr (fs, a', c')"
  let ?s = "RA_PacketAcknowledged (af_LargestAcknowledged ack) space s"
  obtain b bs where b: "block_loop bs (af_LargestAcknowledged ack) space []
      (range_loop (range_count b) (af_LargestAcknowledged ack) space ?s) = (fs, a', c')" (is "block_loop _ _ _ _ ?t = _")
    using p by (auto simp: ProcessAck_def Let_def split: list.splits)
  note RA_PacketAcknowledged_shrinks [of s "af_LargestAcknowledged ack" space]
  also note range_loop_shrinks [of ?s "range_count b" "af_LargestAcknowledged ack" space]
  also have "shrinks (fst ?t) a'"
    using block_loop_shrinks [of ?t bs "af_LargestAcknowledged ack" space "[]"] b by simp
  finally show ?thesis .
qed

lemma ack_loop_shrinks: "ack_loop fs space s = Inr (a', c') \<Longrightarrow> shrinks (fst s) a'"
proof (induction fs arbitrary: s)
  case (Cons f fs)
  obtain a c where s: "s = (a, c)" by fastforce
  with Cons.prems obtain ack c1 fr b c2 c3 where
    "ProcessAck ack space (a, c1) = Inr (fr, b, c2)" "ack_loop fs space (b, c3) = Inr (a', c')"
    by (auto simp: Let_def split: option.splits)
  from ProcessAck_shrinks [OF this(1)] Cons.IH [OF this(2)] show ?case
    by (simp add: s) (rule shrinks_trans)
qed simp

lemma clear_space_shrinks: "shrinks a (clear_space space a)"
  by (auto simp: clear_space_def intro: shrinks_space)

lemma clear_all_shrinks: "shrinks a (clear_all a)"
  by (simp add: clear_all_def shrinks_def)

lemma recovery_incoming_shrinks: "recovery_incoming p a c = Inr (a', c') \<Longrightarrow> shrinks a a'"
proof (cases "framer p")
  case None
  moreover assume "recovery_incoming p a c = Inr (a', c')"
  ultimately show ?thesis using clear_space_shrinks by (auto simp: recovery_incoming_def split: Packet.splits)
next
  case (Some q)
  assume "recovery_incoming p a c = Inr (a', c')"
  then obtain b where "ack_loop (GetAll AckType q @ GetAll AckECNType q) (Packet_PNSpace p) (a, c) = Inr (b, c')"
    and a': "retransmissionBuffer a' = retransmissionBuffer b \<or>
      retransmissionBuffer a' = retransmissionBuffer (clear_space PNSpaceInitial b)" "packetsSent a' = packetsSent b"
    using Some by (auto simp: recovery_incoming_def Let_def clear_space_def split: if_splits)
  then have "shrinks a b" "shrinks b a'"
    using ack_loop_shrinks clear_space_shrinks [of b PNSpaceInitial] by (fastforce simp: shrinks_def)+
  then show ?thesis by (rule shrinks_trans)
qed

lemma expire_loop_le: "fst (expire_loop timer now ks buf batch) space \<subseteq>\<^sub>m buf space"
proof (induction timer now ks buf batch rule: expire_loop.induct)
  case (2 timer now space' pn ks buf batch)
  have le: "(buf(space' := (buf space')(pn := None))) space \<subseteq>\<^sub>m buf space" by (simp add: map_le_def)
  show ?case
    by (simp split: option.splits) (use 2 map_le_trans [OF _ le] in blast)
qed simp

lemma recovery_level_shrinks: "shrinks a (recovery_level e a)"
  using clear_space_shrinks shrinks_trans [OF clear_space_shrinks clear_space_shrinks]
  by (simp add: recovery_level_def Let_def)

lemma rec_inv_shrinks: "rec_inv (l, a, c) \<Longrightarrow> shrinks a a' \<Longrightarrow> rec_inv (l, a', c')"
  unfolding rec_inv_def shrinks_def map_le_def by (clarsimp, metis domI)

lemma rec_inv_outgoing:
  assumes "rec_inv (l, a, c)"
  shows "rec_inv (l @ [p], recovery_outgoing now p a, c)"
  using assms
  by (fastforce simp: rec_inv_def recovery_outgoing_def sent_entry_def NewRetransmittableFrames_def clear_all_def Let_def
      split: option.splits if_splits)

interpretation rec_machine: machine rec_init rec_step rec_inv
proof (unfold_locales, goal_cases)
  case (1 s)
  then show ?case by (auto simp: rec_init_def rec_inv_def recovery_Run_def)
next
  case (2 s e s')
  from 2(2) show ?case
  proof cases
    case (tick ks a now c a' c' l)
    then have "shrinks a a'"
      using expire_loop_le [of "TimerValue a" now ks "retransmissionBuffer a" "[]"]
      by (auto simp: recovery_tick_def shrinks_def split: prod.splits)
    with 2(1) tick show ?thesis by (auto intro: rec_inv_shrinks)
  qed (use 2(1) rec_inv_shrinks recovery_incoming_shrinks recovery_level_shrinks clear_all_shrinks rec_inv_outgoing
      in \<open>auto simp: recovery_closed_def\<close>)
qed

section \<open>What an ACK frame does\<close>

text \<open>The numbers from \<open>cur - n\<close> to \<open>cur - 1\<close>, in the arithmetic of the machine.\<close>

definition below :: "PacketNumber \<Rightarrow> nat \<Rightarrow> PacketNumber set" where
  "below cur n = (\<lambda>k. cur - of_nat k) ` {1..n}"

definition without :: "PacketNumber set \<Rightarrow> (PacketNumber \<rightharpoonup> 'a) \<Rightarrow> (PacketNumber \<rightharpoonup> 'a)" where
  "without K m = (\<lambda>pn. if pn \<in> K then None else m pn)"

lemma below_add: "below cur (m + n) = below cur m \<union> below (cur - of_nat m) n"
proof -
  have "{1..m + n} = {1..m} \<union> (\<lambda>k. k + m) ` {1..n}" by auto
  moreover have "below (cur - of_nat m) n = (\<lambda>k. cur - of_nat k) ` (\<lambda>k. k + m) ` {1..n}"
    unfolding below_def image_image by (intro image_cong) (simp_all add: algebra_simps)
  ultimately show ?thesis unfolding below_def by (metis image_Un)
qed

lemma below_1: "below cur (Suc 0) = {cur - 1}"
  by (simp add: below_def)

lemma below_Suc: "below cur (Suc n) = insert (cur - 1) (below (cur - 1) n)"
  using below_add [of cur 1 n] by (simp add: below_1)

lemma without_without: "without K (without J m) = without (J \<union> K) m"
  by (auto simp: without_def)

lemma without_None: "m k = None \<Longrightarrow> without K m k = None"
  by (simp add: without_def)

lemma without_empty [simp]: "without {} m = m"
  by (simp add: without_def)

lemma without_insert: "without (insert k K) m = without K (m(k := None))"
  by (auto simp: without_def)

lemma gap_loop_effect:
  "m cur = None \<Longrightarrow> gap_loop n cur m fs = (cur - of_nat n, without (below cur n) m, fs)"
proof (induction n arbitrary: cur m)
  case 0
  then show ?case by (simp add: below_def)
next
  case (Suc n)
  have "gap_loop n (cur - 1) (m(cur - 1 := None)) fs =
      (cur - 1 - of_nat n, without (below (cur - 1) n) (m(cur - 1 := None)), fs)"
    by (rule Suc.IH) simp
  with Suc.prems show ?case by (simp add: below_Suc without_insert algebra_simps del: fun_upd_apply)
qed

lemma gap_loop_last: "m cur = None \<Longrightarrow> without (below cur n) m (cur - of_nat n) = None"
  by (cases n) (auto simp: without_def below_def simp del: of_nat_Suc)

lemma range_loop_effect:
  "retransmissionBuffer (fst s) space cur = None \<Longrightarrow> \<exists>c. range_loop n cur space s = (fst s, c)"
proof (induction n arbitrary: s)
  case 0
  then show ?case by (cases s) auto
next
  case (Suc n)
  obtain a c where s: "s = (a, c)" by fastforce
  have "(retransmissionBuffer a)(space := (retransmissionBuffer a space)(cur := None)) = retransmissionBuffer a"
    using Suc.prems s by (simp add: fun_upd_idem)
  then have "fst (RA_PacketAcknowledged cur space s) = a" by (simp add: s RA_PacketAcknowledged_def)
  with Suc.IH [of "RA_PacketAcknowledged cur space s"] Suc.prems s show ?case by simp
qed

definition gap_total :: "AckRange list \<Rightarrow> nat" where
  "gap_total bs = sum_list (map gap_count bs)"

lemma block_loop_effect:
  "retransmissionBuffer a space cur = None \<Longrightarrow>
   \<exists>c'. block_loop bs cur space fs (a, c) =
     (fs, a\<lparr>retransmissionBuffer := (retransmissionBuffer a)
        (space := without (below cur (gap_total bs)) (retransmissionBuffer a space))\<rparr>, c')"
proof (induction bs arbitrary: cur a c)
  case Nil
  then show ?case by (simp add: gap_total_def below_def)
next
  case (Cons b bs)
  let ?n = "gap_count b"
  let ?m = "without (below cur ?n) (retransmissionBuffer a space)"
  let ?a = "a\<lparr>retransmissionBuffer := (retransmissionBuffer a)(space := ?m)\<rparr>"
  have none: "retransmissionBuffer ?a space (cur - of_nat ?n) = None"
    using gap_loop_last [of "retransmissionBuffer a space" cur ?n] Cons.prems by simp
  obtain c1 where "range_loop (range_count b) (cur - of_nat ?n) space (?a, c) = (?a, c1)"
    using range_loop_effect [of "(?a, c)"] none by fastforce
  then have "block_loop (b # bs) cur space fs (a, c) = block_loop bs (cur - of_nat ?n) space fs (?a, c1)"
    using gap_loop_effect [of "retransmissionBuffer a space" cur ?n fs] Cons.prems by simp
  moreover have "without (below (cur - of_nat ?n) (gap_total bs)) ?m =
      without (below cur (gap_total (b # bs))) (retransmissionBuffer a space)"
    by (simp add: without_without gap_total_def below_add)
  moreover have "(f(space := m))(space := m') = f(space := m')" for f :: rec_buffer and m m' by simp
  moreover have "(f(space := m)) space = m" for f :: rec_buffer and m by simp
  moreover note Cons.IH [OF none, of c1]
  ultimately show ?case by (simp del: fun_upd_apply block_loop.simps)
qed

text \<open>All entries belong to packets the agent has seen.\<close>

definition known :: "RecoveryAgent \<Rightarrow> bool" where
  "known a \<longleftrightarrow> (\<forall>space pn. retransmissionBuffer a space pn \<noteq> None \<longrightarrow> packetsSent a space pn)"

lemma ProcessAck_effect:
  assumes "known a" "af_AckRanges ack = b # bs"
  shows "\<exists>c'. ProcessAck ack space (a, c) =
    Inr ([], a\<lparr>retransmissionBuffer := (retransmissionBuffer a)(space :=
      without (insert (af_LargestAcknowledged ack) (below (af_LargestAcknowledged ack) (gap_total bs)))
        (retransmissionBuffer a space))\<rparr>, c')"
proof -
  let ?L = "af_LargestAcknowledged ack"
  let ?m = "(retransmissionBuffer a space)(?L := None)"
  let ?a = "a\<lparr>retransmissionBuffer := (retransmissionBuffer a)(space := ?m)\<rparr>"
  have "?m = retransmissionBuffer a space" if "\<not> packetsSent a space ?L"
    using assms(1) that by (intro fun_upd_idem) (metis known_def)
  then have "fst (RA_PacketAcknowledged ?L space (a, c)) = ?a"
    by (simp add: RA_PacketAcknowledged_def)
  then obtain c1 where c1: "RA_PacketAcknowledged ?L space (a, c) = (?a, c1)" by (metis prod.collapse)
  have none: "retransmissionBuffer ?a space ?L = None" by simp
  obtain c2 where "range_loop (range_count b) ?L space (?a, c1) = (?a, c2)"
    using range_loop_effect [of "(?a, c1)"] none by fastforce
  with c1 assms(2) block_loop_effect [OF none, of bs "[]" c2] show ?thesis
    by (simp add: ProcessAck_def without_insert)
qed

section \<open>What the timer does\<close>

definition timed_out ::
    "int \<Rightarrow> (PNSpace \<times> PacketNumber \<Rightarrow> time) \<Rightarrow> rec_buffer \<Rightarrow> PNSpace \<times> PacketNumber \<Rightarrow> bool" where
  "timed_out timer now buf = (\<lambda>(space, pn).
     case buf space pn of Some v \<Rightarrow> now (space, pn) - rf_Timestamp v > timer | None \<Rightarrow> False)"

definition expired ::
    "int \<Rightarrow> (PNSpace \<times> PacketNumber \<Rightarrow> time) \<Rightarrow> rec_buffer \<Rightarrow> (PNSpace \<times> PacketNumber) list \<Rightarrow> batch" where
  "expired timer now buf ks = map (\<lambda>(space, pn). the (buf space pn)) (filter (timed_out timer now buf) ks)"

lemma expire_loop_effect:
  "distinct ks \<Longrightarrow> expire_loop timer now ks buf batch =
     (\<lambda>space pn. if (space, pn) \<in> set ks \<and> timed_out timer now buf (space, pn) then None else buf space pn,
      batch @ expired timer now buf ks)"
proof (induction ks arbitrary: buf batch)
  case Nil
  then show ?case by (simp add: expired_def)
next
  case (Cons k ks)
  obtain space pn where k: "k = (space, pn)" by fastforce
  let ?buf = "buf(space := (buf space)(pn := None))"
  show ?case
  proof (cases "timed_out timer now buf k")
    case True
    then obtain v where v: "buf space pn = Some v" "now k - rf_Timestamp v > timer"
      by (auto simp: timed_out_def k split: option.splits)
    have same: "timed_out timer now ?buf x = timed_out timer now buf x" "x = (s, p) \<Longrightarrow> ?buf s p = buf s p"
      if "x \<in> set ks" for x s p
      using that Cons.prems by (cases x; auto simp: timed_out_def k split: if_splits)+
    then have "expired timer now ?buf ks = expired timer now buf ks"
      by (auto simp: expired_def cong: filter_cong) 
    moreover have "(\<lambda>s p. if (s, p) \<in> set ks \<and> timed_out timer now ?buf (s, p) then None else ?buf s p) =
        (\<lambda>s p. if (s, p) \<in> set (k # ks) \<and> timed_out timer now buf (s, p) then None else buf s p)"
      using True same(1) by (intro ext) (auto simp: k timed_out_def)
    moreover have "expired timer now buf (k # ks) = v # expired timer now buf ks"
      using True v(1) by (simp add: expired_def k)
    moreover have "expire_loop timer now (k # ks) buf batch = expire_loop timer now ks ?buf (batch @ [v])"
      using v by (simp add: k del: fun_upd_apply)
    moreover note Cons.IH [of ?buf "batch @ [v]"]
    ultimately show ?thesis using Cons.prems by (simp del: fun_upd_apply)
  next
    case False
    then have "expire_loop timer now (k # ks) buf batch = expire_loop timer now ks buf batch"
      by (auto simp: k timed_out_def split: option.splits)
    moreover have "(\<lambda>s p. if (s, p) \<in> set ks \<and> timed_out timer now buf (s, p) then None else buf s p) =
        (\<lambda>s p. if (s, p) \<in> set (k # ks) \<and> timed_out timer now buf (s, p) then None else buf s p)"
      using False by (intro ext) (auto simp: k)
    moreover have "expired timer now buf (k # ks) = expired timer now buf ks" using False by (simp add: expired_def)
    moreover note Cons.IH [of buf batch]
    ultimately show ?thesis using Cons.prems by (simp del: expire_loop.simps)
  qed
qed

definition requeued :: "RetransmittableFrames \<Rightarrow> QueuedFrame list" where
  "requeued b = map (\<lambda>f. \<lparr>qf_Frame = f, qf_EncryptionLevel = rf_Level b\<rparr>) (rf_Frames b)"

lemma requeue_effect: "requeue b c = c\<lparr>c_FrameQueue := c_FrameQueue c @ requeued b\<rparr>"
proof -
  have "fold (\<lambda>f. submit_frame \<lparr>qf_Frame = f, qf_EncryptionLevel = l\<rparr>) fs c =
      c\<lparr>c_FrameQueue := c_FrameQueue c @ map (\<lambda>f. \<lparr>qf_Frame = f, qf_EncryptionLevel = l\<rparr>) fs\<rparr>" for fs l
    by (induction fs arbitrary: c) (simp_all add: submit_frame_def)
  then show ?thesis by (simp add: requeue_def requeued_def)
qed

lemma RetransmitBatch_effect:
  "list_all (\<lambda>b. first_initial b = Inr False) bs \<Longrightarrow>
   RetransmitBatch bs c = Inr (c\<lparr>c_FrameQueue := c_FrameQueue c @ concat (map requeued bs)\<rparr>)"
  by (induction bs arbitrary: c) (simp_all add: requeue_effect)

section \<open>Properties\<close>

lemma rec_known: "rec_inv (l, a, c) \<Longrightarrow> known a"
  by (auto simp: rec_inv_def known_def)

lemma NewInitialPacket_queue: "NewInitialPacket c = Inr (p, c') \<Longrightarrow> c_FrameQueue c' = c_FrameQueue c"
  by (auto simp: NewInitialPacket_def NewLongHeader_def nextPacketNumber_def Let_def split: if_splits)

lemma RetransmitBatch_sent:
  assumes "RetransmitBatch bs c = Inr c'"
  shows "\<exists>fs. c_FrameQueue c' = c_FrameQueue c @ fs \<and> (\<forall>qf \<in> set fs. \<exists>b \<in> set bs. qf \<in> set (requeued b))"
  using assms
proof (induction bs arbitrary: c)
  case (Cons b bs)
  show ?case
  proof (cases "first_initial b = Inr True")
    case True
    with Cons.prems have "c_FrameQueue c' = c_FrameQueue c"
      using NewInitialPacket_queue by (auto simp: submit_send_def)
    then show ?thesis by (intro exI [of _ "[]"]) simp
  next
    case False
    with Cons.prems have "RetransmitBatch bs (requeue b c) = Inr c'" by (auto split: if_splits)
    from Cons.IH [OF this] obtain fs where fs: "c_FrameQueue c' = c_FrameQueue c @ requeued b @ fs"
      "\<forall>qf \<in> set fs. \<exists>b \<in> set bs. qf \<in> set (requeued b)" by (auto simp: requeue_effect)
    then show ?thesis by (intro exI [of _ "requeued b @ fs"]) auto
  qed
qed simp

lemma RA_PacketAcknowledged_queue: "c_FrameQueue (snd (RA_PacketAcknowledged pn space s)) = c_FrameQueue (snd s)"
  by (simp add: RA_PacketAcknowledged_def split_beta)

lemma range_loop_queue: "c_FrameQueue (snd (range_loop n cur space s)) = c_FrameQueue (snd s)"
  by (induction n cur space s rule: range_loop.induct) (simp_all add: RA_PacketAcknowledged_queue)

lemma block_loop_queue: "c_FrameQueue (snd (snd (block_loop bs cur space fs s))) = c_FrameQueue (snd s)"
  by (induction bs cur space fs s rule: block_loop.induct) (simp_all add: range_loop_queue split: prod.splits)

lemma ProcessAck_queue: "ProcessAck ack space s = Inr (fs, a', c') \<Longrightarrow> c_FrameQueue c' = c_FrameQueue (snd s)"
  by (auto simp: ProcessAck_def Let_def split: list.splits)
    (metis RA_PacketAcknowledged_queue block_loop_queue range_loop_queue snd_conv)

lemma known_shrinks: "known a \<Longrightarrow> shrinks a a' \<Longrightarrow> known a'"
  unfolding known_def shrinks_def map_le_def by (metis domIff)

lemma ack_loop_queue: "ack_loop fs space (a, c) = Inr (a', c') \<Longrightarrow> known a \<Longrightarrow> c_FrameQueue c' = c_FrameQueue c"
proof (induction fs arbitrary: a c)
  case (Cons f fs)
  then obtain ack c1 batch b c2 c3 where
    p: "ProcessAck ack space (a, c1) = Inr (batch, b, c2)" "RetransmitBatch batch c2 = Inr c3"
    "ack_loop fs space (b, c3) = Inr (a', c')" "c_FrameQueue c1 = c_FrameQueue c"
    by (auto simp: Let_def split: option.splits if_splits)
  then obtain r rs where "af_AckRanges ack = r # rs" by (auto simp: ProcessAck_def Let_def split: list.splits)
  with ProcessAck_effect [OF Cons.prems(2)] p(1) have "batch = []" by (metis Inr_inject prod.inject)
  moreover have "known b" using known_shrinks [OF Cons.prems(2)] ProcessAck_shrinks [OF p(1)] by simp
  ultimately show ?case using Cons.IH [OF p(3)] ProcessAck_queue [OF p(1)] p(2,4) by simp
qed simp

definition resent :: "Packet list \<Rightarrow> QueuedFrame \<Rightarrow> bool" where
  "resent l qf \<longleftrightarrow> (\<exists>p \<in> set l. qf_Frame qf \<in> set (Packet_GetRetransmittableFrames p) \<and>
     qf_EncryptionLevel qf = Packet_EncryptionLevel p)"

lemma tick_resent:
  assumes inv: "rec_inv (l, a, c)" and "visits ks (retransmissionBuffer a)" "recovery_tick now ks a c = Inr (a', c')"
  shows "\<exists>fs. c_FrameQueue c' = c_FrameQueue c @ fs \<and> list_all (resent l) fs"
proof -
  let ?bs = "expired (TimerValue a) now (retransmissionBuffer a) ks"
  have "RetransmitBatch ?bs c = Inr c'"
    using assms(2,3) by (auto simp: recovery_tick_def visits_def expire_loop_effect)
  from RetransmitBatch_sent [OF this] obtain fs where fs: "c_FrameQueue c' = c_FrameQueue c @ fs"
    "\<forall>qf \<in> set fs. \<exists>b \<in> set ?bs. qf \<in> set (requeued b)" by blast
  have "resent l qf" if qf: "qf \<in> set fs" for qf
  proof -
    obtain b space pn where b: "retransmissionBuffer a space pn = Some b" "qf \<in> set (requeued b)"
      using fs(2) qf by (fastforce simp: expired_def timed_out_def split: option.splits)
    with inv have "sent_entry l space pn b" by (auto simp: rec_inv_def)
    with b(2) show ?thesis by (fastforce simp: sent_entry_def requeued_def resent_def)
  qed
  with fs(1) show ?thesis by (auto simp: list_all_iff)
qed

lemma incoming_queue: "recovery_incoming p a c = Inr (a', c') \<Longrightarrow> known a \<Longrightarrow> c_FrameQueue c' = c_FrameQueue c"
  by (auto simp: recovery_incoming_def Let_def dest: ack_loop_queue split: option.splits Packet.splits if_splits)

text \<open>
  C11. Only sent frames are sent again: in every run of the agent, whatever its next step is (timer, acknowledgement or any other
  event), each frame the step adds to the frame queue is a frame of a packet that was sent, that packet asked for its
  retransmission, and the frame is requeued for the encryption level it was sent at.
\<close>

theorem retransmits_only_sent:
  assumes "reachable rec_init rec_step (l, a, c)" "rec_step (l, a, c) e (l', a', c')"
  shows "\<exists>fs. c_FrameQueue c' = c_FrameQueue c @ fs \<and> list_all (resent l) fs"
proof -
  have inv: "rec_inv (l, a, c)" by (rule rec_machine.inv_reachable [OF assms(1)])
  from assms(2) show ?thesis
  proof cases
    case (tick ks now)
    with tick_resent [OF inv] show ?thesis by blast
  next
    case (incoming p)
    with incoming_queue [OF _ rec_known [OF inv]] show ?thesis by simp
  qed simp_all
qed

text \<open>A run to show that the hypotheses can hold: one packet with a MAX_DATA frame is sent.\<close>

definition one_packet :: Packet where
  "one_packet = ProtectedP (new_FramePacket (Short \<lparr>sh_SpinBit = False, sh_KeyPhase = False, sh_DestinationCID = [7],
     sh_TruncatedPN = \<lparr>tpn_Value = 5, tpn_Length = 1\<rparr>, sh_PacketNumber = 5\<rparr>) [MaxData 9])"

definition one_sent :: RecoveryAgent where
  "one_sent = recovery_outgoing 0 one_packet (recovery_Run \<lparr>retransmissionBuffer = \<lambda>_. Map.empty,
     packetsSent = \<lambda>_ _. False, TimerValue = 500000000, ra_close = False\<rparr>)"

lemma one_sent_reachable: "reachable rec_init rec_step ([one_packet], one_sent, c)"
proof -
  have "rec_step ([], recovery_Run a, c) (RecOutgoing 0 one_packet)
      ([] @ [one_packet], recovery_outgoing 0 one_packet (recovery_Run a), c)" for a
    by (rule rec_step.outgoing)
  then show ?thesis unfolding one_sent_def
    by (intro reachable.onward [OF reachable.start]) (auto simp: rec_init_def)
qed

lemma one_sent_buffer:
  "retransmissionBuffer one_sent = (\<lambda>_. Map.empty)(PNSpaceAppData :=
     [5 \<mapsto> \<lparr>rf_Frames = [MaxData 9], rf_Timestamp = 0, rf_Level = EncryptionLevel1RTT\<rparr>])"
  "TimerValue one_sent = 500000000"
  by (auto simp: one_sent_def recovery_outgoing_def one_packet_def recovery_Run_def new_FramePacket_def Let_def
      GetRetransmittableFrames_def NewRetransmittableFrames_def closes_def Contains_def frame_types)

lemma one_sent_visits: "visits [(PNSpaceAppData, 5)] (retransmissionBuffer one_sent)"
  by (auto simp: visits_def one_sent_buffer split: if_splits)



lemma retransmits_only_sent_witness:
  "\<forall>c :: Connection. \<exists>a' c'. rec_step ([one_packet], one_sent, c) (RecTick (\<lambda>_. 0) [(PNSpaceAppData, 5)]) ([one_packet], a', c') \<and>
     (\<exists>fs. c_FrameQueue c' = c_FrameQueue c @ fs \<and> list_all (resent [one_packet]) fs)"
proof
  fix c :: Connection
  have "recovery_tick (\<lambda>_. 0) [(PNSpaceAppData, 5)] one_sent c = Inr (one_sent, c)"
    by (simp add: recovery_tick_def one_sent_buffer(2)) (simp add: one_sent_buffer(1))
  from rec_step.tick [OF one_sent_visits this, of "[one_packet]"]
  have "rec_step ([one_packet], one_sent, c) (RecTick (\<lambda>_. 0) [(PNSpaceAppData, 5)]) ([one_packet], one_sent, c)" .
  with retransmits_only_sent [OF one_sent_reachable this]
  show "\<exists>a' c'. rec_step ([one_packet], one_sent, c) (RecTick (\<lambda>_. 0) [(PNSpaceAppData, 5)]) ([one_packet], a', c') \<and>
     (\<exists>fs. c_FrameQueue c' = c_FrameQueue c @ fs \<and> list_all (resent [one_packet]) fs)" by blast
qed

text \<open>
  C39. An ACK frame neither frees the packets of its ranges nor retransmits those of its gaps: in every run, it takes the largest
  acknowledged number and the numbers directly below it, as many as the gaps count together, out of the buffer, whatever the ranges
  are, and no frame is retransmitted. So acknowledged packets stay in the buffer, and lost packets of the first gap are forgotten.
\<close>

theorem ack_forgets_lost:
  assumes "reachable rec_init rec_step (l, a, c)" "af_AckRanges ack = b # bs"
  shows "\<exists>a' c'. ProcessAck ack space (a, c) = Inr ([], a', c') \<and>
    retransmissionBuffer a' = (retransmissionBuffer a)(space :=
      without (insert (af_LargestAcknowledged ack) (below (af_LargestAcknowledged ack) (gap_total bs)))
        (retransmissionBuffer a space))"
  using ProcessAck_effect [OF rec_known [OF rec_machine.inv_reachable [OF assms(1)]] assms(2)] by fastforce

text \<open>
  Packet 5 is lost: the frame acknowledges 6 and 4. Its frames are gone from the buffer and not requeued again.
\<close>

lemma ack_forgets_lost_witness:
  "\<forall>c. \<exists>a' c'. ProcessAck \<lparr>af_LargestAcknowledged = 6, af_AckDelay = 0, af_AckRangeCount = 1,
       af_AckRanges = [\<lparr>ar_Gap = 0, ar_AckRange = 0\<rparr>, \<lparr>ar_Gap = 0, ar_AckRange = 0\<rparr>]\<rparr> PNSpaceAppData (one_sent, c) =
     Inr ([], a', c') \<and>
   retransmissionBuffer one_sent PNSpaceAppData 5 \<noteq> None \<and> retransmissionBuffer a' PNSpaceAppData 5 = None"
proof
  fix c
  let ?ack = "\<lparr>af_LargestAcknowledged = 6, af_AckDelay = 0, af_AckRangeCount = 1,
       af_AckRanges = [\<lparr>ar_Gap = 0, ar_AckRange = 0\<rparr>, \<lparr>ar_Gap = 0, ar_AckRange = 0\<rparr>]\<rparr>"
  have "gap_total [\<lparr>ar_Gap = 0, ar_AckRange = 0\<rparr>] = 1" by (simp add: gap_total_def gap_count_def ack_threshold_def)
  then show "\<exists>a' c'. ProcessAck ?ack PNSpaceAppData (one_sent, c) = Inr ([], a', c') \<and>
      retransmissionBuffer one_sent PNSpaceAppData 5 \<noteq> None \<and> retransmissionBuffer a' PNSpaceAppData 5 = None"
    using ack_forgets_lost [OF one_sent_reachable, of ?ack "\<lparr>ar_Gap = 0, ar_AckRange = 0\<rparr>"
        "[\<lparr>ar_Gap = 0, ar_AckRange = 0\<rparr>]" PNSpaceAppData c]
    by (auto simp: below_1 without_def one_sent_buffer(1))
qed

end
