(* ===== verification/Http3.thy ===== *)
theory Http3
  imports VarInt
begin

text \<open>
  HTTP/3 frames (\<^verbatim>\<open>http3/http3.go\<close>) and the decoding of a stream of them (\<^verbatim>\<open>HTTP3Agent.attemptDecoding\<close> of
  \<^verbatim>\<open>agents/http3_agent.go\<close>).

  One datatype constructor per frame struct, each with its header. The results: a frame whose header announces its length is read
  back as written; a sequence of frames on a stream is decoded to the same sequence whatever pieces the stream delivers it in; and
  two constructors or readers that break this.
\<close>

section \<open>Frames\<close>

record HTTPFrameHeader =
  hh_Type :: VarInt
  hh_Length :: VarInt

record Setting =
  set_Identifier :: VarInt
  set_Value :: VarInt

record Priority =
  pr_PrioritizedType :: u8
  pr_DependencyType :: u8
  pr_Empty :: u8
  pr_Exclusive :: bool
  pr_PrioritizedElementID :: VarInt
  pr_ElementDependencyID :: VarInt
  pr_Weight :: u8

datatype HTTPFrame =
    DATA HTTPFrameHeader bytes
  | HEADERS HTTPFrameHeader bytes
  | PRIORITY HTTPFrameHeader Priority
  | CANCEL_PUSH HTTPFrameHeader VarInt
  | SETTINGS HTTPFrameHeader "Setting list"
  | PUSH_PROMISE HTTPFrameHeader VarInt bytes
  | GOAWAY HTTPFrameHeader VarInt
  | MAX_PUSH_ID HTTPFrameHeader VarInt
  | UnknownFrame HTTPFrameHeader bytes

definition FrameTypeDATA :: u64 where "FrameTypeDATA = 0x0"
definition FrameTypeHEADERS :: u64 where "FrameTypeHEADERS = 0x1"
definition FrameTypePRIORITY :: u64 where "FrameTypePRIORITY = 0x2"
definition FrameTypeCANCEL_PUSH :: u64 where "FrameTypeCANCEL_PUSH = 0x3"
definition FrameTypeSETTINGS :: u64 where "FrameTypeSETTINGS = 0x4"
definition FrameTypePUSH_PROMISE :: u64 where "FrameTypePUSH_PROMISE = 0x5"
definition FrameTypeGOAWAY :: u64 where "FrameTypeGOAWAY = 0x7"
definition FrameTypeMAX_PUSH_ID :: u64 where "FrameTypeMAX_PUSH_ID = 0xd"

lemmas http_types = FrameTypeDATA_def FrameTypeHEADERS_def FrameTypePRIORITY_def FrameTypeCANCEL_PUSH_def
  FrameTypeSETTINGS_def FrameTypePUSH_PROMISE_def FrameTypeGOAWAY_def FrameTypeMAX_PUSH_ID_def

fun http_header :: "HTTPFrame \<Rightarrow> HTTPFrameHeader" where
  "http_header (DATA h _) = h"
| "http_header (HEADERS h _) = h"
| "http_header (PRIORITY h _) = h"
| "http_header (CANCEL_PUSH h _) = h"
| "http_header (SETTINGS h _) = h"
| "http_header (PUSH_PROMISE h _ _) = h"
| "http_header (GOAWAY h _) = h"
| "http_header (MAX_PUSH_ID h _) = h"
| "http_header (UnknownFrame h _) = h"

definition http_FrameType :: "HTTPFrame \<Rightarrow> u64" where
  "http_FrameType f = vi_Value (hh_Type (http_header f))"

definition WireLength :: "HTTPFrame \<Rightarrow> u64" where
  "WireLength f = of_nat (vi_Length (hh_Length (http_header f)) + vi_Length (hh_Type (http_header f))) +
     vi_Value (hh_Length (http_header f))"

section \<open>Writing\<close>

definition HTTPFrameHeader_WriteTo :: "HTTPFrameHeader \<Rightarrow> bytes res" where
  "HTTPFrameHeader_WriteTo h = cat_res [VarInt_Encode (hh_Type h), VarInt_Encode (hh_Length h)]"

definition Setting_WriteTo :: "Setting \<Rightarrow> bytes res" where
  "Setting_WriteTo s = cat_res [VarInt_Encode (set_Identifier s), VarInt_Encode (set_Value s)]"

definition priority_byte :: "Priority \<Rightarrow> u8" where
  "priority_byte f =
     (let firstByte = push_bit 6 (pr_PrioritizedType f) OR push_bit 4 (pr_DependencyType f) OR push_bit 1 (pr_Empty f)
      in if pr_Exclusive f then firstByte OR 0x1 else firstByte)"

fun http_payload :: "HTTPFrame \<Rightarrow> bytes res" where
  "http_payload (DATA h p) = Inr p"
| "http_payload (HEADERS h p) = Inr p"
| "http_payload (PRIORITY h f) = cat_res [Inr [priority_byte f], VarInt_Encode (pr_PrioritizedElementID f),
     VarInt_Encode (pr_ElementDependencyID f), Inr [pr_Weight f]]"
| "http_payload (CANCEL_PUSH h i) = VarInt_Encode i"
| "http_payload (SETTINGS h ss) = cat_res (map Setting_WriteTo ss)"
| "http_payload (PUSH_PROMISE h i p) = cat_res [VarInt_Encode i, Inr p]"
| "http_payload (GOAWAY h i) = VarInt_Encode i"
| "http_payload (MAX_PUSH_ID h i) = VarInt_Encode i"
| "http_payload (UnknownFrame h p) = Inr p"

text \<open>Every \<^verbatim>\<open>WriteTo\<close> writes the header first, then the payload.\<close>

definition HTTP_WriteTo :: "HTTPFrame \<Rightarrow> bytes res" where
  "HTTP_WriteTo f = cat_res [HTTPFrameHeader_WriteTo (http_header f), http_payload f]"

section \<open>Constructors\<close>

definition new_header :: "u64 \<Rightarrow> u64 \<Rightarrow> HTTPFrameHeader res" where
  "new_header t len = bind_res (NewVarInt t) (\<lambda>t. bind_res (NewVarInt len) (\<lambda>l. Inr \<lparr>hh_Type = t, hh_Length = l\<rparr>))"

definition NewDATA :: "bytes \<Rightarrow> HTTPFrame res" where
  "NewDATA payload = bind_res (new_header FrameTypeDATA (of_nat (length payload))) (\<lambda>h. Inr (DATA h payload))"

definition NewHEADERS :: "bytes \<Rightarrow> HTTPFrame res" where
  "NewHEADERS headerBlock = bind_res (new_header FrameTypeHEADERS (of_nat (length headerBlock))) (\<lambda>h. Inr (HEADERS h headerBlock))"

definition NewPRIORITY :: "u8 \<Rightarrow> u8 \<Rightarrow> bool \<Rightarrow> u64 \<Rightarrow> u64 \<Rightarrow> u8 \<Rightarrow> HTTPFrame res" where
  "NewPRIORITY prioritizedType dependencyType exclusive prioritizedElementID elementDependencyID weight =
     bind_res (VarIntLen prioritizedElementID) (\<lambda>m.
     bind_res (VarIntLen elementDependencyID) (\<lambda>n.
     bind_res (new_header FrameTypePRIORITY (of_nat (1 + m + n + 1))) (\<lambda>h.
     bind_res (NewVarInt prioritizedElementID) (\<lambda>i.
     bind_res (NewVarInt elementDependencyID) (\<lambda>j.
     Inr (PRIORITY h \<lparr>pr_PrioritizedType = prioritizedType, pr_DependencyType = dependencyType, pr_Empty = 0,
       pr_Exclusive = exclusive, pr_PrioritizedElementID = i, pr_ElementDependencyID = j, pr_Weight = weight\<rparr>))))))"

text \<open>The three frames whose payload is one number.\<close>

definition new_number :: "u64 \<Rightarrow> (HTTPFrameHeader \<Rightarrow> VarInt \<Rightarrow> HTTPFrame) \<Rightarrow> u64 \<Rightarrow> HTTPFrame res" where
  "new_number t mk i =
     bind_res (VarIntLen i) (\<lambda>n.
     bind_res (new_header t (of_nat n)) (\<lambda>h. bind_res (NewVarInt i) (\<lambda>i. Inr (mk h i))))"

definition NewCANCEL_PUSH :: "u64 \<Rightarrow> HTTPFrame res" where
  "NewCANCEL_PUSH pushID = new_number FrameTypeCANCEL_PUSH CANCEL_PUSH pushID"

definition NewGOAWAY :: "u64 \<Rightarrow> HTTPFrame res" where
  "NewGOAWAY streamID = new_number FrameTypeGOAWAY GOAWAY streamID"

definition NewMAX_PUSH_ID :: "u64 \<Rightarrow> HTTPFrame res" where
  "NewMAX_PUSH_ID pushID = new_number FrameTypeMAX_PUSH_ID MAX_PUSH_ID pushID"

definition NewSETTINGS :: "Setting list \<Rightarrow> HTTPFrame res" where
  "NewSETTINGS settings =
     (let len = fold (\<lambda>s len. len + (vi_Length (set_Value s) + 2)) settings 0
      in bind_res (new_header FrameTypeSETTINGS (of_nat len)) (\<lambda>h. Inr (SETTINGS h settings)))"

definition NewPUSH_PROMISE :: "u64 \<Rightarrow> bytes \<Rightarrow> HTTPFrame res" where
  "NewPUSH_PROMISE pushID headerBlock =
     bind_res (VarIntLen pushID) (\<lambda>n.
     bind_res (new_header FrameTypePUSH_PROMISE (of_nat (n + length headerBlock))) (\<lambda>h.
     bind_res (NewVarInt pushID) (\<lambda>i. Inr (PUSH_PROMISE h i headerBlock))))"

section \<open>Reading\<close>

definition ReadHTTPFrameHeader :: "reader \<Rightarrow> HTTPFrameHeader \<times> reader" where
  "ReadHTTPFrameHeader r =
     (case rd_VarInt r of (t, r) \<Rightarrow> case rd_VarInt r of (l, r) \<Rightarrow> (\<lparr>hh_Type = t, hh_Length = l\<rparr>, r))"

definition rd_byte :: "reader \<Rightarrow> u8 \<times> reader" where
  "rd_byte r = (case ReadByte r of (Inr b, r) \<Rightarrow> (b, r) | (Inl e, r) \<Rightarrow> (0, r))"

definition ReadPriority :: "reader \<Rightarrow> Priority \<times> reader" where
  "ReadPriority r =
     (case rd_byte r of (firstByte, r) \<Rightarrow>
      case rd_VarInt r of (i, r) \<Rightarrow>
      case rd_VarInt r of (j, r) \<Rightarrow>
      case rd_byte r of (w, r) \<Rightarrow>
      (\<lparr>pr_PrioritizedType = drop_bit 6 (firstByte AND 0xc0), pr_DependencyType = drop_bit 4 (firstByte AND 0x30),
        pr_Empty = drop_bit 1 (firstByte AND 0xe), pr_Exclusive = (firstByte AND 0x1 = 0x1),
        pr_PrioritizedElementID = i, pr_ElementDependencyID = j, pr_Weight = w\<rparr>, r))"

definition ReadSetting :: "reader \<Rightarrow> Setting \<times> reader" where
  "ReadSetting r =
     (case rd_VarInt r of (i, r) \<Rightarrow> case rd_VarInt r of (v, r) \<Rightarrow> (\<lparr>set_Identifier = i, set_Value = v\<rparr>, r))"

lemma wire_len_positive: "0 < wire_len f"
  using wire_len_range [of f] by auto

lemma rd_VarInt_Len:
  "rd_Len (snd (rd_VarInt r)) \<le> rd_Len r"
  "0 < rd_Len r \<Longrightarrow> rd_Len (snd (rd_VarInt r)) < rd_Len r"
  using wire_len_positive by (cases r rule: ReadVarIntValue_cases; force simp: rd_VarInt_def ReadVarInt_def rd_Len_def)+

lemma ReadSetting_Len: "0 < rd_Len r \<Longrightarrow> rd_Len (snd (ReadSetting r)) < rd_Len r"
  using rd_VarInt_Len(2) [of r] rd_VarInt_Len(1) [of "snd (rd_VarInt r)"]
  by (auto simp: ReadSetting_def split: prod.splits)

function read_settings :: "reader \<Rightarrow> Setting list" where
  "read_settings r = (if rd_Len r > 0 then (case ReadSetting r of (s, r) \<Rightarrow> s # read_settings r) else [])"
  by pat_completeness auto
termination
  by (relation "measure rd_Len") (auto dest: ReadSetting_Len, metis ReadSetting_Len snd_conv)

declare read_settings.simps [simp del]

text \<open>\<^verbatim>\<open>make([]byte, int(Length) - PushID.Length)\<close>; the block is not filled from the reader.\<close>

definition make_block :: "u64 \<Rightarrow> nat \<Rightarrow> bytes res" where
  "make_block len n = (if n \<le> unat len then make_bytes (unat len - n) else Inl MakeSliceLen)"

text \<open>\<^verbatim>\<open>Seek(-n, io.SeekCurrent)\<close>.\<close>

fun seek_back :: "nat \<Rightarrow> reader \<Rightarrow> reader" where
  "seek_back n (Reader d t) = Reader (drop n d) (rev (take n d) @ t)"

definition read_payload ::
    "(HTTPFrameHeader \<Rightarrow> bytes \<Rightarrow> HTTPFrame) \<Rightarrow> reader \<Rightarrow> (HTTPFrame \<times> reader) res" where
  "read_payload mk r =
     (case ReadHTTPFrameHeader r of (h, r) \<Rightarrow>
      bind_res (make_Read (unat (vi_Value (hh_Length h))) r) (\<lambda>(p, r). Inr (mk h p, r)))"

definition read_number ::
    "(HTTPFrameHeader \<Rightarrow> VarInt \<Rightarrow> HTTPFrame) \<Rightarrow> reader \<Rightarrow> (HTTPFrame \<times> reader) res" where
  "read_number mk r = (case ReadHTTPFrameHeader r of (h, r) \<Rightarrow> case rd_VarInt r of (i, r) \<Rightarrow> Inr (mk h i, r))"

definition ReadPRIORITY :: "reader \<Rightarrow> (HTTPFrame \<times> reader) res" where
  "ReadPRIORITY r = (case ReadHTTPFrameHeader r of (h, r) \<Rightarrow> case ReadPriority r of (p, r) \<Rightarrow> Inr (PRIORITY h p, r))"

definition ReadSETTINGS :: "reader \<Rightarrow> (HTTPFrame \<times> reader) res" where
  "ReadSETTINGS r =
     (case ReadHTTPFrameHeader r of (h, r) \<Rightarrow>
      bind_res (make_Read (unat (vi_Value (hh_Length h))) r) (\<lambda>(settingsBuffer, r).
      Inr (SETTINGS h (read_settings (NewReader settingsBuffer)), r)))"

definition ReadPUSH_PROMISE :: "reader \<Rightarrow> (HTTPFrame \<times> reader) res" where
  "ReadPUSH_PROMISE r =
     (case ReadHTTPFrameHeader r of (h, r) \<Rightarrow>
      case rd_VarInt r of (i, r) \<Rightarrow>
      bind_res (make_block (vi_Value (hh_Length h)) (vi_Length i)) (\<lambda>b. Inr (PUSH_PROMISE h i b, r)))"

definition ReadHTTPFrame :: "reader \<Rightarrow> (HTTPFrame \<times> reader) res" where
  "ReadHTTPFrame r =
     (case rd_VarInt r of (typeByte, r) \<Rightarrow>
      let r = seek_back (vi_Length typeByte) r; t = vi_Value typeByte in
      if t = FrameTypeDATA then read_payload DATA r
      else if t = FrameTypeHEADERS then read_payload HEADERS r
      else if t = FrameTypePRIORITY then ReadPRIORITY r
      else if t = FrameTypeCANCEL_PUSH then read_number CANCEL_PUSH r
      else if t = FrameTypeSETTINGS then ReadSETTINGS r
      else if t = FrameTypePUSH_PROMISE then ReadPUSH_PROMISE r
      else if t = FrameTypeGOAWAY then read_number GOAWAY r
      else if t = FrameTypeMAX_PUSH_ID then read_number MAX_PUSH_ID r
      else read_payload UnknownFrame r)"

section \<open>Decoding a stream\<close>

text \<open>The frames submitted and what is left in the buffer. The recursion ends because every frame takes bytes from the buffer.\<close>

definition frame_extent :: "bytes \<Rightarrow> nat option" where
  "frame_extent b =
     (case ReadVarInt (NewReader b) of
        (Inl _, _) \<Rightarrow> None
      | (Inr t, r) \<Rightarrow>
          (case ReadVarInt r of
             (Inl _, _) \<Rightarrow> None
           | (Inr l, _) \<Rightarrow>
               (let n = vi_Length t + vi_Length l + unat (vi_Value l) in if length b \<ge> n then Some n else None)))"

lemma ReadVarInt_length: "ReadVarInt r = (Inr v, r') \<Longrightarrow> 0 < vi_Length v"
  using wire_len_positive by (cases r rule: ReadVarIntValue_cases) (auto simp: ReadVarInt_def)

lemma frame_extent_bounds: "frame_extent b = Some n \<Longrightarrow> 0 < n \<and> n \<le> length b"
  using ReadVarInt_length by (auto simp: frame_extent_def Let_def split: prod.splits sum.splits if_splits)

function attemptDecoding :: "bytes \<Rightarrow> (HTTPFrame list \<times> bytes) res" where
  "attemptDecoding b =
     (case frame_extent b of
        None \<Rightarrow> Inr ([], b)
      | Some n \<Rightarrow>
          bind_res (ReadHTTPFrame (NewReader (take n b))) (\<lambda>(f, _).
          bind_res (attemptDecoding (drop n b)) (\<lambda>(fs, rest). Inr (f # fs, rest))))"
  by pat_completeness auto
termination
  by (relation "measure length") (auto dest: frame_extent_bounds)

declare attemptDecoding.simps [simp del]

text \<open>The agent appends what the stream delivers to the buffer and decodes.\<close>

fun feed :: "bytes \<Rightarrow> bytes list \<Rightarrow> (HTTPFrame list \<times> bytes) res" where
  "feed buf [] = Inr ([], buf)"
| "feed buf (c # cs) =
     bind_res (attemptDecoding (buf @ c)) (\<lambda>(fs, buf).
     bind_res (feed buf cs) (\<lambda>(gs, buf). Inr (fs @ gs, buf)))"

section \<open>Reading what was written\<close>

text \<open>The header announces the type of the frame and the length of the payload.\<close>

definition announces :: "HTTPFrameHeader \<Rightarrow> nat \<Rightarrow> bool" where
  "announces h n \<longleftrightarrow> wf_VarInt (hh_Type h) \<and> wf_VarInt (hh_Length h) \<and> vi_Value (hh_Length h) = of_nat n \<and> n \<le> maxAlloc"

fun payload_ok :: "HTTPFrame \<Rightarrow> bool" where
  "payload_ok (DATA h p) \<longleftrightarrow> vi_Value (hh_Type h) = FrameTypeDATA"
| "payload_ok (HEADERS h p) \<longleftrightarrow> vi_Value (hh_Type h) = FrameTypeHEADERS"
| "payload_ok (PRIORITY h f) \<longleftrightarrow> vi_Value (hh_Type h) = FrameTypePRIORITY \<and> unat (pr_PrioritizedType f) < 4 \<and>
     unat (pr_DependencyType f) < 4 \<and> unat (pr_Empty f) < 8 \<and> wf_VarInt (pr_PrioritizedElementID f) \<and>
     wf_VarInt (pr_ElementDependencyID f)"
| "payload_ok (CANCEL_PUSH h i) \<longleftrightarrow> vi_Value (hh_Type h) = FrameTypeCANCEL_PUSH \<and> wf_VarInt i"
| "payload_ok (SETTINGS h ss) \<longleftrightarrow> vi_Value (hh_Type h) = FrameTypeSETTINGS \<and>
     list_all (\<lambda>s. wf_VarInt (set_Identifier s) \<and> wf_VarInt (set_Value s)) ss"
| "payload_ok (PUSH_PROMISE h i p) \<longleftrightarrow> False"
| "payload_ok (GOAWAY h i) \<longleftrightarrow> vi_Value (hh_Type h) = FrameTypeGOAWAY \<and> wf_VarInt i"
| "payload_ok (MAX_PUSH_ID h i) \<longleftrightarrow> vi_Value (hh_Type h) = FrameTypeMAX_PUSH_ID \<and> wf_VarInt i"
| "payload_ok (UnknownFrame h p) \<longleftrightarrow> vi_Value (hh_Type h) \<notin> {FrameTypeDATA, FrameTypeHEADERS, FrameTypePRIORITY,
     FrameTypeCANCEL_PUSH, FrameTypeSETTINGS, FrameTypePUSH_PROMISE, FrameTypeGOAWAY, FrameTypeMAX_PUSH_ID}"

definition wf_http :: "HTTPFrame \<Rightarrow> bool" where
  "wf_http f \<longleftrightarrow> payload_ok f \<and> (\<forall>p. http_payload f = Inr p \<longrightarrow> announces (http_header f) (length p))"

lemma wf_rd_VarInt:
  assumes "wf_VarInt v" "VarInt_Encode v = Inr b"
  shows "rd_VarInt (Reader d (b @ t)) = (v, Reader (rev b @ d) t)" "ReadVarInt (Reader d (b @ t)) = (Inr v, Reader (rev b @ d) t)"
    "vi_Length v = length b"
proof -
  have e: "EncodeVarInt (vi_Value v) = Inr b" using assms(2) by (simp add: VarInt_Encode_def WriteVarInt_def)
  then show l: "vi_Length v = length b" using assms(1) VarIntLen_EncodeVarInt [OF e] by (simp add: wf_VarInt_def)
  with rd_VarInt_enc [OF e] ReadVarInt_enc [OF e] show "rd_VarInt (Reader d (b @ t)) = (v, Reader (rev b @ d) t)"
    "ReadVarInt (Reader d (b @ t)) = (Inr v, Reader (rev b @ d) t)" by (metis VarInt.surjective old.unit.exhaust)+
qed

lemma priority_bits:
  "\<forall>p \<in> {0, 1, 2, 3 :: u8}. \<forall>d \<in> {0, 1, 2, 3}. \<forall>e \<in> {0, 1, 2, 3, 4, 5, 6, 7}. \<forall>x \<in> {0, 1}.
     let b = push_bit 6 p OR push_bit 4 d OR push_bit 1 e OR x in
     drop_bit 6 (b AND 0xc0) = p \<and> drop_bit 4 (b AND 0x30) = d \<and> drop_bit 1 (b AND 0xe) = e \<and> b AND 0x1 = x"
  by code_simp

lemma u8_small_all:
  "\<forall>x :: u8. (unat x < 4 \<longrightarrow> x \<in> {0, 1, 2, 3}) \<and> (unat x < 8 \<longrightarrow> x \<in> {0, 1, 2, 3, 4, 5, 6, 7})"
  by code_simp

lemmas u8_small = u8_small_all [rule_format, THEN conjunct1, rule_format] u8_small_all [rule_format, THEN conjunct2, rule_format]

lemma ReadPriority_written:
  assumes "payload_ok (PRIORITY h f)" "http_payload (PRIORITY h f) = Inr p"
  shows "ReadPriority (Reader d (p @ t)) = (f, Reader (rev p @ d) t)"
proof -
  obtain a b where p: "VarInt_Encode (pr_PrioritizedElementID f) = Inr a" "VarInt_Encode (pr_ElementDependencyID f) = Inr b"
    "p = priority_byte f # a @ b @ [pr_Weight f]" using assms(2) by auto
  let ?x = "if pr_Exclusive f then 1 else 0 :: u8"
  have pb: "priority_byte f = push_bit 6 (pr_PrioritizedType f) OR push_bit 4 (pr_DependencyType f) OR
      push_bit 1 (pr_Empty f) OR ?x" by (simp add: priority_byte_def or.assoc)
  have m: "pr_PrioritizedType f \<in> {0, 1, 2, 3}" "pr_DependencyType f \<in> {0, 1, 2, 3}"
    "pr_Empty f \<in> {0, 1, 2, 3, 4, 5, 6, 7}" "?x \<in> {0, 1}"
    using assms(1) by (intro u8_small; simp)+ simp
  have "drop_bit 6 (priority_byte f AND 0xc0) = pr_PrioritizedType f" "drop_bit 4 (priority_byte f AND 0x30) = pr_DependencyType f"
    "drop_bit 1 (priority_byte f AND 0xe) = pr_Empty f" "(priority_byte f AND 0x1 = 0x1) = pr_Exclusive f"
    using priority_bits [rule_format, OF m] unfolding pb Let_def by (simp_all split: if_splits)
  moreover have "wf_VarInt (pr_PrioritizedElementID f)" "wf_VarInt (pr_ElementDependencyID f)" using assms(1) by simp_all
  ultimately show ?thesis
    using wf_rd_VarInt(1) [OF _ p(1)] wf_rd_VarInt(1) [OF _ p(2)]
    by (simp add: ReadPriority_def rd_byte_def p(3))
qed

lemma read_settings_written:
  "list_all (\<lambda>s. wf_VarInt (set_Identifier s) \<and> wf_VarInt (set_Value s)) ss \<Longrightarrow>
   cat_res (map Setting_WriteTo ss) = Inr p \<Longrightarrow> read_settings (Reader d p) = ss"
proof (induction ss arbitrary: p d)
  case Nil
  then show ?case by (simp add: read_settings.simps)
next
  case (Cons s ss)
  obtain a b q where p: "VarInt_Encode (set_Identifier s) = Inr a" "VarInt_Encode (set_Value s) = Inr b"
    "cat_res (map Setting_WriteTo ss) = Inr q" "p = a @ b @ q"
    using Cons.prems(2) by (auto simp: Setting_WriteTo_def [of s])
  have wf: "wf_VarInt (set_Identifier s)" "wf_VarInt (set_Value s)" using Cons.prems(1) by simp_all
  have "0 < length p" using wf_rd_VarInt(3) [OF wf(1) p(1)] wf(1) VarIntLen_bounds p(4) by (fastforce simp: wf_VarInt_def)
  moreover have "ReadSetting (Reader d p) = (s, Reader (rev b @ rev a @ d) q)"
    using wf_rd_VarInt(1) [OF wf(1) p(1)] wf_rd_VarInt(1) [OF wf(2) p(2)] by (simp add: ReadSetting_def p(4))
  ultimately show ?case using Cons.IH [OF _ p(3)] Cons.prems(1) by (simp add: read_settings.simps [of "Reader d p"])
qed

lemma header_written:
  assumes "HTTP_WriteTo f = Inr b" "wf_http f"
  obtains tb lb p where "b = tb @ lb @ p" "http_payload f = Inr p" "EncodeVarInt (vi_Value (hh_Type (http_header f))) = Inr tb"
    "EncodeVarInt (vi_Value (hh_Length (http_header f))) = Inr lb" "announces (http_header f) (length p)"
    "\<And>d t. rd_VarInt (Reader d (tb @ t)) = (hh_Type (http_header f), Reader (rev tb @ d) t)"
    "\<And>d t. ReadHTTPFrameHeader (Reader d (tb @ lb @ t)) = (http_header f, Reader (rev lb @ rev tb @ d) t)"
    "vi_Length (hh_Type (http_header f)) = length tb" "vi_Length (hh_Length (http_header f)) = length lb"
proof -
  obtain tb lb p where b: "VarInt_Encode (hh_Type (http_header f)) = Inr tb" "VarInt_Encode (hh_Length (http_header f)) = Inr lb"
    "http_payload f = Inr p" "b = tb @ lb @ p"
    using assms(1) by (auto simp: HTTP_WriteTo_def HTTPFrameHeader_WriteTo_def)
  then have a: "announces (http_header f) (length p)" using assms(2) by (simp add: wf_http_def)
  then have wf: "wf_VarInt (hh_Type (http_header f))" "wf_VarInt (hh_Length (http_header f))" by (simp_all add: announces_def)
  note r = wf_rd_VarInt [OF wf(1) b(1)] wf_rd_VarInt [OF wf(2) b(2)]
  have "ReadHTTPFrameHeader (Reader d (tb @ lb @ t)) = (http_header f, Reader (rev lb @ rev tb @ d) t)" for d t
    using r(1) [of d "lb @ t"] r(4) [of "rev tb @ d" t] by (simp add: ReadHTTPFrameHeader_def)
  with that [of tb lb p] b a r show thesis by (simp add: VarInt_Encode_def WriteVarInt_def)
qed

lemma seek_back_rev [simp]: "seek_back (length b) (Reader (rev b @ d) t) = Reader d (b @ t)"
  by simp

lemma unat_announced: "announces h n \<Longrightarrow> unat (vi_Value (hh_Length h)) = n" "announces h n \<Longrightarrow> n \<le> maxAlloc"
  by (simp_all add: announces_def maxAlloc_def)

lemma ReadHTTPFrame_written:
  assumes "HTTP_WriteTo f = Inr b" "wf_http f"
  shows "ReadHTTPFrame (Reader d (b @ t)) = Inr (f, Reader (rev b @ d) t)"
proof -
  obtain tb lb p where b: "b = tb @ lb @ p" "http_payload f = Inr p" "announces (http_header f) (length p)"
    "\<And>d t. rd_VarInt (Reader d (tb @ t)) = (hh_Type (http_header f), Reader (rev tb @ d) t)"
    "\<And>d t. ReadHTTPFrameHeader (Reader d (tb @ lb @ t)) = (http_header f, Reader (rev lb @ rev tb @ d) t)"
    "vi_Length (hh_Type (http_header f)) = length tb"
    using header_written [OF assms] by metis
  note n = unat_announced [OF b(3)]
  have pay: "make_Read (unat (vi_Value (hh_Length (http_header f)))) (Reader d (p @ t)) = Inr (p, Reader (rev p @ d) t)" for d
    by (rule make_Read_append) (simp_all add: n)
  have ok: "payload_ok f" using assms(2) by (simp add: wf_http_def)
  have num: "rd_VarInt (Reader d (p @ t)) = (i, Reader (rev p @ d) t)" if "wf_VarInt i" "VarInt_Encode i = Inr p" for i d
    by (rule wf_rd_VarInt(1) [OF that])
  have pri: "ReadPriority (Reader d (p @ t)) = (q, Reader (rev p @ d) t)" if "f = PRIORITY h q" for h q d
    using ReadPriority_written ok b(2) that by blast
  have settings: "read_settings (Reader [] p) = ss" if "f = SETTINGS h ss" for h ss
    using read_settings_written [of ss p "[]"] ok b(2) that by simp
  have "ReadHTTPFrame (Reader d (b @ t)) =
      (let r = Reader d (tb @ lb @ p @ t); ty = vi_Value (hh_Type (http_header f)) in
      if ty = FrameTypeDATA then read_payload DATA r
      else if ty = FrameTypeHEADERS then read_payload HEADERS r
      else if ty = FrameTypePRIORITY then ReadPRIORITY r
      else if ty = FrameTypeCANCEL_PUSH then read_number CANCEL_PUSH r
      else if ty = FrameTypeSETTINGS then ReadSETTINGS r
      else if ty = FrameTypePUSH_PROMISE then ReadPUSH_PROMISE r
      else if ty = FrameTypeGOAWAY then read_number GOAWAY r
      else if ty = FrameTypeMAX_PUSH_ID then read_number MAX_PUSH_ID r
      else read_payload UnknownFrame r)"
    by (simp add: ReadHTTPFrame_def b(1,4,6) del: seek_back.simps)
  note all = this ok b(1,2,5)
  show ?thesis
  proof (cases f)
    case (CANCEL_PUSH h i)
    with all num [of i] show ?thesis by (simp add: read_number_def http_types)
  next
    case (GOAWAY h i)
    with all num [of i] show ?thesis by (simp add: read_number_def http_types)
  next
    case (MAX_PUSH_ID h i)
    with all num [of i] show ?thesis by (simp add: read_number_def http_types)
  qed (use all pay pri settings in
      \<open>simp_all add: read_payload_def ReadPRIORITY_def ReadSETTINGS_def NewReader_def http_types\<close>)
qed

section \<open>Pieces of a stream\<close>

lemma append_split:
  assumes "x @ y = a @ b"
  shows "(\<exists>u. x = a @ u \<and> u @ y = b) \<or> (\<exists>u. a = x @ u \<and> u \<noteq> [])"
proof -
  from assms obtain us where "x = a @ us \<and> us @ y = b \<or> x @ us = a \<and> y = us @ b" unfolding append_eq_append_conv2 by blast
  then show ?thesis by (cases "us = []") auto
qed

lemma strict_prefix_varint:
  assumes "EncodeVarInt i = Inr b" "b = p @ q" "q \<noteq> []"
  shows "\<exists>r. ReadVarInt (Reader d p) = (Inl EOF, r)"
proof (cases p)
  case (Cons f t)
  have "ReadVarIntValue (Reader [] (b @ [])) = (Inr (i, length b), Reader (rev b @ []) [])"
    by (rule ReadVarIntValue_EncodeVarInt [OF assms(1)])
  then have "wire_len f = length b"
    using Cons assms(2) by (cases "Reader [] b" rule: ReadVarIntValue_cases) auto
  then have "length t + 1 < wire_len f" using Cons assms(2,3) by (cases q) auto
  from ReadVarIntValue_short [OF this] show ?thesis by (simp add: Cons ReadVarInt_def)
qed (simp add: ReadVarInt_def)

lemma frame_extent_written:
  assumes "HTTP_WriteTo f = Inr b" "wf_http f"
  shows "frame_extent (b @ t) = Some (length b)"
proof -
  obtain tb lb p where b: "b = tb @ lb @ p" "EncodeVarInt (vi_Value (hh_Type (http_header f))) = Inr tb"
    "EncodeVarInt (vi_Value (hh_Length (http_header f))) = Inr lb" "announces (http_header f) (length p)"
    using header_written [OF assms] by metis
  then show ?thesis
    by (simp add: frame_extent_def NewReader_def ReadVarInt_enc unat_announced)
qed

lemma frame_extent_partial:
  assumes "HTTP_WriteTo f = Inr b" "wf_http f" "b = x @ y" "y \<noteq> []"
  shows "frame_extent x = None"
proof -
  obtain tb lb p where b: "b = tb @ lb @ p" "EncodeVarInt (vi_Value (hh_Type (http_header f))) = Inr tb"
    "EncodeVarInt (vi_Value (hh_Length (http_header f))) = Inr lb" "announces (http_header f) (length p)"
    using header_written [OF assms(1,2)] by metis
  consider (type) u where "tb = x @ u" "u \<noteq> []" | (len) u v where "x = tb @ u" "lb = u @ v" "v \<noteq> []"
    | (payload) u where "x = tb @ lb @ u" "length u < length p"
  proof -
    have e: "x @ y = tb @ lb @ p" using assms(3) b(1) by simp
    from append_split [OF e] show thesis
    proof (elim disjE exE conjE)
      fix u
      assume u: "x = tb @ u" "u @ y = lb @ p"
      from append_split [OF u(2)] show thesis
      proof (elim disjE exE conjE)
        fix w
        assume w: "u = lb @ w" "w @ y = p"
        then have "length w < length p" using assms(4) by auto
        with u(1) w(1) show thesis by (intro payload) simp_all
      qed (use len [OF u(1)] in blast)
    qed (use type in blast)
  qed
  then show ?thesis
  proof cases
    case type
    obtain r where "ReadVarInt (Reader [] x) = (Inl EOF, r)" using strict_prefix_varint [OF b(2) type] by blast
    then show ?thesis by (simp add: frame_extent_def NewReader_def)
  next
    case len
    obtain r where "ReadVarInt (Reader (rev tb) u) = (Inl EOF, r)" using strict_prefix_varint [OF b(3) len(2,3)] by blast
    then show ?thesis using len(1) by (simp add: frame_extent_def NewReader_def ReadVarInt_enc [OF b(2)])
  next
    case payload
    then show ?thesis
      using b(2,3,4) by (simp add: frame_extent_def NewReader_def ReadVarInt_enc unat_announced)
  qed
qed

text \<open>What decoding makes of a part of the stream: the frames that are complete, and a rest that is not.\<close>

lemma attemptDecoding_part:
  assumes "cat_res (map HTTP_WriteTo fs) = Inr w" "list_all wf_http fs" "w = x @ y"
  shows "\<exists>gs hs rest v. fs = gs @ hs \<and> attemptDecoding x = Inr (gs, rest) \<and>
    cat_res (map HTTP_WriteTo hs) = Inr v \<and> v = rest @ y \<and> frame_extent rest = None"
  using assms
proof (induction fs arbitrary: w x)
  case Nil
  have "frame_extent [] = None" by (simp add: frame_extent_def NewReader_def ReadVarInt_def)
  with Nil show ?case by (simp add: attemptDecoding.simps)
next
  case (Cons f fs)
  obtain b v where b: "HTTP_WriteTo f = Inr b" "cat_res (map HTTP_WriteTo fs) = Inr v" "w = b @ v"
    using Cons.prems(1) by auto
  have wf: "wf_http f" "list_all wf_http fs" using Cons.prems(2) by simp_all
  have "x @ y = b @ v" using b(3) Cons.prems(3) by simp
  from append_split [OF this] show ?case
  proof (elim disjE exE conjE)
    fix u
    assume u: "x = b @ u" "u @ y = v"
    obtain gs hs rest v' where r: "fs = gs @ hs" "attemptDecoding u = Inr (gs, rest)" "cat_res (map HTTP_WriteTo hs) = Inr v'"
      "v' = rest @ y" "frame_extent rest = None"
      using Cons.IH [OF b(2) wf(2) u(2) [symmetric]] by blast
    have "attemptDecoding x = Inr (f # gs, rest)"
      using ReadHTTPFrame_written [OF b(1) wf(1), of "[]" "[]"] r(2)
      by (simp add: attemptDecoding.simps [of "b @ u"] frame_extent_written [OF b(1) wf(1)] u(1) NewReader_def)
    with r show ?case by (intro exI [of _ "f # gs"] exI [of _ hs]) auto
  next
    fix u
    assume "b = x @ u" "u \<noteq> []"
    from frame_extent_partial [OF b(1) wf(1) this] Cons.prems show ?case
      by (intro exI [of _ "[]"] exI [of _ "f # fs"] exI [of _ x] exI [of _ w]) (simp add: attemptDecoding.simps)
  qed
qed

lemma feed_rest:
  "cat_res (map HTTP_WriteTo fs) = Inr (buf @ concat cs) \<Longrightarrow> list_all wf_http fs \<Longrightarrow> frame_extent buf = None \<Longrightarrow>
   feed buf cs = Inr (fs, [])"
proof (induction cs arbitrary: fs buf)
  case Nil
  show ?case
  proof (cases fs)
    case (Cons f gs)
    then obtain b v where b: "HTTP_WriteTo f = Inr b" "buf = b @ v" using Nil.prems(1) by auto
    with frame_extent_written [OF b(1)] Nil.prems(2,3) Cons show ?thesis by simp
  qed (use Nil in simp)
next
  case (Cons c cs)
  obtain gs hs rest where r: "fs = gs @ hs" "attemptDecoding (buf @ c) = Inr (gs, rest)"
    "cat_res (map HTTP_WriteTo hs) = Inr (rest @ concat cs)" "frame_extent rest = None"
    using attemptDecoding_part [OF Cons.prems(1,2), of "buf @ c" "concat cs"] by auto
  from Cons.IH [OF r(3) _ r(4)] Cons.prems(2) r(1,2) show ?case by simp
qed

section \<open>The constructors announce what they write\<close>

lemma new_header_announces:
  assumes "new_header t (of_nat n) = Inr h" "n \<le> maxAlloc"
  shows "announces h n" "vi_Value (hh_Type h) = t"
  using assms NewVarInt_wf by (auto simp: new_header_def announces_def)

lemma NewDATA_wf: "NewDATA p = Inr f \<Longrightarrow> length p \<le> maxAlloc \<Longrightarrow> wf_http f"
  using new_header_announces by (auto simp: NewDATA_def wf_http_def)

lemma NewHEADERS_wf: "NewHEADERS p = Inr f \<Longrightarrow> length p \<le> maxAlloc \<Longrightarrow> wf_http f"
  using new_header_announces by (auto simp: NewHEADERS_def wf_http_def)

lemma VarInt_written_length: "NewVarInt i = Inr v \<Longrightarrow> VarInt_Encode v = Inr p \<Longrightarrow> VarIntLen i = Inr (length p)"
  using NewVarInt_wf [of i v] wf_rd_VarInt(3) [of v p] by (auto simp: wf_VarInt_def)

lemma new_number_wf:
  assumes "new_number t mk i = Inr f" "\<And>h v. payload_ok (mk h v) \<longleftrightarrow> vi_Value (hh_Type h) = t \<and> wf_VarInt v"
    "\<And>h v. http_payload (mk h v) = VarInt_Encode v" "\<And>h v. http_header (mk h v) = h"
  shows "wf_http f"
proof -
  obtain n h v where f: "VarIntLen i = Inr n" "new_header t (of_nat n) = Inr h" "NewVarInt i = Inr v" "f = mk h v"
    using assms(1) by (auto simp: new_number_def)
  have "n \<le> maxAlloc" using VarIntLen_bounds [OF f(1)] by (simp add: maxAlloc_def)
  note h = new_header_announces [OF f(2) this]
  have "length p = n" if "VarInt_Encode v = Inr p" for p using VarInt_written_length [OF f(3) that] f(1) by simp
  with h NewVarInt_wf [OF f(3)] show ?thesis by (auto simp: wf_http_def f(4) assms)
qed

lemmas NewCANCEL_PUSH_wf = new_number_wf [of FrameTypeCANCEL_PUSH CANCEL_PUSH, folded NewCANCEL_PUSH_def, simplified]
lemmas NewGOAWAY_wf = new_number_wf [of FrameTypeGOAWAY GOAWAY, folded NewGOAWAY_def, simplified]
lemmas NewMAX_PUSH_ID_wf = new_number_wf [of FrameTypeMAX_PUSH_ID MAX_PUSH_ID, folded NewMAX_PUSH_ID_def, simplified]

text \<open>A SETTINGS frame counts two bytes for every identifier: with an identifier of one byte it announces a byte too many.\<close>

lemma settings_length_wrong:
  "\<exists>h. NewSETTINGS [\<lparr>set_Identifier = \<lparr>vi_Value = 1, vi_Length = 1\<rparr>, set_Value = \<lparr>vi_Value = 5, vi_Length = 1\<rparr>\<rparr>] =
     Inr (SETTINGS h [\<lparr>set_Identifier = \<lparr>vi_Value = 1, vi_Length = 1\<rparr>, set_Value = \<lparr>vi_Value = 5, vi_Length = 1\<rparr>\<rparr>]) \<and>
   vi_Value (hh_Length h) = 3 \<and>
   http_payload (SETTINGS h [\<lparr>set_Identifier = \<lparr>vi_Value = 1, vi_Length = 1\<rparr>, set_Value = \<lparr>vi_Value = 5, vi_Length = 1\<rparr>\<rparr>]) =
     Inr [1, 5]"
  by (simp add: NewSETTINGS_def new_header_def NewVarInt_def VarIntLen_def http_types Setting_WriteTo_def VarInt_Encode_def
      WriteVarInt_def EncodeVarInt_def maxVarInt1_def)

text \<open>The header block of a PUSH_PROMISE is not read, and a length smaller than the push identifier is a panic.\<close>

lemma push_promise_block_lost:
  "ReadHTTPFrame (NewReader [5, 3, 9, 1, 2]) =
     Inr (PUSH_PROMISE \<lparr>hh_Type = \<lparr>vi_Value = 5, vi_Length = 1\<rparr>, hh_Length = \<lparr>vi_Value = 3, vi_Length = 1\<rparr>\<rparr>
       \<lparr>vi_Value = 9, vi_Length = 1\<rparr> [0, 0], Reader [9, 3, 5] [1, 2]) \<and>
   ReadHTTPFrame (NewReader [5, 0, 9]) = Inl MakeSliceLen"
proof -
  have r: "rd_VarInt (Reader d (5 # t)) = (\<lparr>vi_Value = 5, vi_Length = 1\<rparr>, Reader (5 # d) t)"
    "rd_VarInt (Reader d (3 # t)) = (\<lparr>vi_Value = 3, vi_Length = 1\<rparr>, Reader (3 # d) t)"
    "rd_VarInt (Reader d (9 # t)) = (\<lparr>vi_Value = 9, vi_Length = 1\<rparr>, Reader (9 # d) t)"
    "rd_VarInt (Reader d (0 # t)) = (\<lparr>vi_Value = 0, vi_Length = 1\<rparr>, Reader (0 # d) t)" for d t
    using rd_VarInt_enc [of 5 "[5]" d t] rd_VarInt_enc [of 3 "[3]" d t] rd_VarInt_enc [of 9 "[9]" d t] rd_VarInt_enc [of 0 "[0]" d t]
    by (simp_all add: EncodeVarInt_def maxVarInt1_def)
  moreover have "replicate 2 (0 :: u8) = [0, 0]" by (simp add: numeral_2_eq_2)
  ultimately show ?thesis
    by (simp add: ReadHTTPFrame_def NewReader_def Let_def http_types ReadPUSH_PROMISE_def ReadHTTPFrameHeader_def make_block_def
        make_bytes_def maxAlloc_def)
qed

section \<open>Properties\<close>


definition example_headers :: HTTPFrame where
  "example_headers = HEADERS \<lparr>hh_Type = \<lparr>vi_Value = 1, vi_Length = 1\<rparr>, hh_Length = \<lparr>vi_Value = 2, vi_Length = 1\<rparr>\<rparr> [7, 8]"

definition example_data :: HTTPFrame where
  "example_data = DATA \<lparr>hh_Type = \<lparr>vi_Value = 0, vi_Length = 1\<rparr>, hh_Length = \<lparr>vi_Value = 3, vi_Length = 1\<rparr>\<rparr> [1, 2, 3]"


end
