(* ===== verification/HttpAgents.thy ===== *)
theory HttpAgents
  imports Http3 ConnOps
begin

text \<open>
  The HTTP agents (\<^verbatim>\<open>agents/http3_agent.go\<close>, \<^verbatim>\<open>agents/http09_agent.go\<close>): requests, the control stream of the peer, and the assembly of
  responses from the frames of a stream.

  The QPACK encoder and decoder are not part of the model: what is handed to them is a log (\<open>h3_DecodeHeaders\<close>, \<open>h3_EncodeHeaders\<close>,
  \<open>h3_InitEncoder\<close>), what comes back from them is an event. \<open>h3_frameReceived\<close> holds the frames that wait in the channel of that name,
  \<open>h3_responses\<close> the responses delivered.

  Results: the frames decoded from a stream do not depend on how it was cut, and a delivered response has the data of exactly those frames that
  its byte counts stand for; and a response can be delivered before all of its data has come.
\<close>

section \<open>The HTTP/3 agent\<close>

type_synonym HTTPHeader = "string \<times> string"

record HTTP3Response =
  hr_streamID :: u64
  hr_body :: bytes
  hr_headers :: "HTTPHeader list"
  hr_fin :: bool
  hr_headersRemaining :: int
  hr_totalProcessed :: u64
  hr_totalReceived :: u64

definition Complete :: "HTTP3Response \<Rightarrow> bool" where
  "Complete r \<longleftrightarrow> hr_fin r \<and> hr_totalReceived r > 0 \<and> hr_totalProcessed r = hr_totalReceived r \<and> hr_headersRemaining r = 0"

record HTTP3Agent =
  h3_DisableQPACKStreams :: bool
  h3_ReceivedSettings :: "Setting list option"
  h3_streamDataBuffer :: "u64 \<Rightarrow> bytes option"
  h3_responseBuffer :: "u64 \<Rightarrow> HTTP3Response option"
  h3_peerControlStreamID :: u64
  h3_peerControlStream :: "bytes list"
  h3_peerControlStreamBuffer :: bytes
  h3_frameReceived :: "(u64 \<times> HTTPFrame) list"
  h3_responses :: "HTTP3Response list"
  h3_DecodeHeaders :: "(u64 \<times> bytes) list"
  h3_EncodeHeaders :: "(u64 \<times> HTTPHeader list) list"
  h3_InitEncoder :: "(u64 \<times> u64 \<times> u64) list"
  h3_settingsHeaderTableSize :: u64
  h3_settingsQPACKBlockedStreams :: u64

definition HTTPNoStream :: u64 where "HTTPNoStream = MaxUint64"
definition StreamTypeControl :: u64 where "StreamTypeControl = 0"
definition SETTINGS_HEADER_TABLE_SIZE :: u64 where "SETTINGS_HEADER_TABLE_SIZE = 1"
definition SETTINGS_QPACK_BLOCKED_STREAMS :: u64 where "SETTINGS_QPACK_BLOCKED_STREAMS = 7"

definition sendFrameOnStream :: "HTTPFrame \<Rightarrow> u64 \<Rightarrow> bool \<Rightarrow> Connection \<Rightarrow> Connection res" where
  "sendFrameOnStream frame streamID fin c =
     bind_res (HTTP_WriteTo frame) (\<lambda>b. Inr (c\<lparr>c_Streams := Streams_Send streamID b fin (c_Streams c)\<rparr>))"

definition h3_Run :: "bool \<Rightarrow> Connection \<Rightarrow> (HTTP3Agent \<times> Connection) res" where
  "h3_Run disable c =
     (let c = c\<lparr>c_Streams := Streams_Send 2 [ucast StreamTypeControl] False (c_Streams c)\<rparr>
      in bind_res (NewSETTINGS []) (\<lambda>f.
         bind_res (sendFrameOnStream f 2 False c) (\<lambda>c.
         Inr (\<lparr>h3_DisableQPACKStreams = disable, h3_ReceivedSettings = None, h3_streamDataBuffer = Map.empty,
               h3_responseBuffer = Map.empty, h3_peerControlStreamID = HTTPNoStream, h3_peerControlStream = [],
               h3_peerControlStreamBuffer = [], h3_frameReceived = [], h3_responses = [], h3_DecodeHeaders = [],
               h3_EncodeHeaders = [], h3_InitEncoder = [], h3_settingsHeaderTableSize = 4096,
               h3_settingsQPACKBlockedStreams = 100\<rparr>, c))))"

text \<open>Incoming packets: the peer opens its control stream.\<close>

definition h3_stream_frame :: "StreamFrame \<Rightarrow> HTTP3Agent \<Rightarrow> Connection \<Rightarrow> HTTP3Agent \<times> Connection" where
  "h3_stream_frame s a c =
     (if sf_Offset s < 4 \<and> IsUni (sf_StreamId s) \<and> sf_StreamId s \<noteq> h3_peerControlStreamID a then
        (case Streams_Get (sf_StreamId s) (c_Streams c) of (stream, ss) \<Rightarrow>
         let c = c\<lparr>c_Streams := ss\<rparr> in
         case fst (ReadVarInt (NewReader (ReadData stream))) of
           Inl _ \<Rightarrow> (a, c)
         | Inr httpStreamType \<Rightarrow>
             (if vi_Value httpStreamType = StreamTypeControl then
                (if h3_peerControlStreamID a \<noteq> HTTPNoStream then (a, c)
                 else
                   (a\<lparr>h3_peerControlStreamID := sf_StreamId s,
                      h3_peerControlStream := h3_peerControlStream a @
                        (if length (ReadData stream) > vi_Length httpStreamType
                         then [drop (vi_Length httpStreamType) (ReadData stream)] else [])\<rparr>, c))
              else (a, c)))
      else (a, c))"

fun h3_stream_frames :: "Frame list \<Rightarrow> HTTP3Agent \<Rightarrow> Connection \<Rightarrow> HTTP3Agent \<times> Connection" where
  "h3_stream_frames [] a c = (a, c)"
| "h3_stream_frames (StreamF s # fs) a c = (case h3_stream_frame s a c of (a, c) \<Rightarrow> h3_stream_frames fs a c)"
| "h3_stream_frames (_ # fs) a c = h3_stream_frames fs a c"

definition h3_packet :: "Packet \<Rightarrow> HTTP3Agent \<Rightarrow> Connection \<Rightarrow> HTTP3Agent \<times> Connection" where
  "h3_packet p a c =
     (if Packet_PNSpace p = PNSpaceAppData
      then (case framer p of None \<Rightarrow> (a, c) | Some q \<Rightarrow> h3_stream_frames (GetAll StreamType q) a c)
      else (a, c))"

text \<open>Data of the control stream and of a request stream; a stream without a buffer is a nil pointer.\<close>

definition h3_decode :: "u64 \<Rightarrow> bytes \<Rightarrow> HTTP3Agent \<Rightarrow> (HTTP3Agent \<times> bytes) res" where
  "h3_decode streamID buffer a =
     bind_res (attemptDecoding buffer) (\<lambda>(fs, rest).
     Inr (a\<lparr>h3_frameReceived := h3_frameReceived a @ map (Pair streamID) fs\<rparr>, rest))"

definition h3_control :: "HTTP3Agent \<Rightarrow> HTTP3Agent res" where
  "h3_control a =
     (case h3_peerControlStream a of
        [] \<Rightarrow> Inr a
      | d # ds \<Rightarrow>
          bind_res (h3_decode (h3_peerControlStreamID a) (h3_peerControlStreamBuffer a @ d) (a\<lparr>h3_peerControlStream := ds\<rparr>))
            (\<lambda>(a, rest). Inr (a\<lparr>h3_peerControlStreamBuffer := rest\<rparr>)))"

definition h3_streamData :: "u64 \<Rightarrow> bytes \<Rightarrow> HTTP3Agent \<Rightarrow> HTTP3Agent res" where
  "h3_streamData streamID data a =
     (case h3_streamDataBuffer a streamID of
        None \<Rightarrow> Inl NilPointer
      | Some buf \<Rightarrow>
          bind_res (h3_decode streamID (buf @ data) a) (\<lambda>(a, rest).
          Inr (a\<lparr>h3_streamDataBuffer := (h3_streamDataBuffer a)(streamID \<mapsto> rest)\<rparr>)))"

definition checkResponse :: "HTTP3Response \<Rightarrow> HTTP3Agent \<Rightarrow> HTTP3Agent" where
  "checkResponse r a = (if Complete r then a\<lparr>h3_responses := h3_responses a @ [r]\<rparr> else a)"

definition put_response :: "u64 \<Rightarrow> HTTP3Response \<Rightarrow> HTTP3Agent \<Rightarrow> HTTP3Agent" where
  "put_response i r a = a\<lparr>h3_responseBuffer := (h3_responseBuffer a)(i \<mapsto> r)\<rparr>"

definition read_setting :: "Setting \<Rightarrow> HTTP3Agent \<Rightarrow> HTTP3Agent" where
  "read_setting s a =
     (if vi_Value (set_Identifier s) = SETTINGS_HEADER_TABLE_SIZE then a\<lparr>h3_settingsHeaderTableSize := vi_Value (set_Value s)\<rparr>
      else if vi_Value (set_Identifier s) = SETTINGS_QPACK_BLOCKED_STREAMS
      then a\<lparr>h3_settingsQPACKBlockedStreams := vi_Value (set_Value s)\<rparr> else a)"

definition h3_SETTINGS :: "Setting list \<Rightarrow> HTTP3Agent \<Rightarrow> HTTP3Agent" where
  "h3_SETTINGS ss a =
     (if h3_ReceivedSettings a \<noteq> None then a
      else
        (let a = fold read_setting ss (a\<lparr>h3_ReceivedSettings := Some ss\<rparr>);
             dynamicTableSize = (if h3_DisableQPACKStreams a then 0 else 1024);
             dynamicTableSize = min dynamicTableSize (h3_settingsHeaderTableSize a)
         in a\<lparr>h3_InitEncoder := h3_InitEncoder a @
                [(h3_settingsHeaderTableSize a, dynamicTableSize, h3_settingsQPACKBlockedStreams a)]\<rparr>))"

definition process :: "HTTPFrame \<Rightarrow> HTTP3Response \<Rightarrow> HTTP3Response" where
  "process f r = r\<lparr>hr_totalProcessed := hr_totalProcessed r + WireLength f\<rparr>"

fun h3_handle :: "u64 \<Rightarrow> HTTPFrame \<Rightarrow> HTTP3Agent \<Rightarrow> HTTP3Agent" where
  "h3_handle i (HEADERS h b) a =
     (let a = a\<lparr>h3_DecodeHeaders := h3_DecodeHeaders a @ [(i, b)]\<rparr> in
      case h3_responseBuffer a i of
        None \<Rightarrow> a
      | Some r \<Rightarrow> put_response i (process (HEADERS h b) (r\<lparr>hr_headersRemaining := hr_headersRemaining r + 1\<rparr>)) a)"
| "h3_handle i (DATA h p) a =
     (case h3_responseBuffer a i of
        None \<Rightarrow> a
      | Some r \<Rightarrow> let r = process (DATA h p) (r\<lparr>hr_body := hr_body r @ p\<rparr>) in checkResponse r (put_response i r a))"
| "h3_handle i (SETTINGS h ss) a = h3_SETTINGS ss a"
| "h3_handle i f a = (case h3_responseBuffer a i of None \<Rightarrow> a | Some r \<Rightarrow> put_response i (process f r) a)"

definition h3_frame :: "HTTP3Agent \<Rightarrow> HTTP3Agent" where
  "h3_frame a =
     (case h3_frameReceived a of [] \<Rightarrow> a | (i, f) # fs \<Rightarrow> h3_handle i f (a\<lparr>h3_frameReceived := fs\<rparr>))"

definition h3_decodedHeaders :: "u64 \<Rightarrow> HTTPHeader list \<Rightarrow> HTTP3Agent \<Rightarrow> HTTP3Agent" where
  "h3_decodedHeaders i hs a =
     (case h3_responseBuffer a i of
        None \<Rightarrow> a
      | Some r \<Rightarrow>
          let r = r\<lparr>hr_headersRemaining := hr_headersRemaining r - 1, hr_headers := hr_headers r @ hs\<rparr>
          in checkResponse r (put_response i r a))"

definition h3_encodedHeaders :: "u64 \<Rightarrow> bytes \<Rightarrow> Connection \<Rightarrow> Connection res" where
  "h3_encodedHeaders i b c = bind_res (NewHEADERS b) (\<lambda>f. sendFrameOnStream f i True c)"

text \<open>
  A request. \<open>visit\<close> gives the order in which the map of headers is visited, \<open>commit\<close> is the text of \<^verbatim>\<open>GitCommit()\<close>.
\<close>

definition h3_SendRequest ::
    "(HTTPHeader list \<Rightarrow> HTTPHeader list) \<Rightarrow> string \<Rightarrow> string \<Rightarrow> string \<Rightarrow> string \<Rightarrow> HTTPHeader list \<Rightarrow> HTTP3Agent \<Rightarrow> Connection \<Rightarrow> HTTP3Agent \<times> Connection" where
  "h3_SendRequest visit commit path verb authority headers a c =
     (let headers = (if ''user-agent'' \<in> fst ` set headers then headers
                     else headers @ [(''user-agent'', ''QUIC-Tracker/'' @ commit)]);
          hdrs = [('':method'', verb), ('':scheme'', ''https''), ('':authority'', authority), ('':path'', path)] @ visit headers;
          streamID = c_CurrentStreamID c;
          r = \<lparr>hr_streamID = streamID, hr_body = [], hr_headers = [], hr_fin = False, hr_headersRemaining = 0,
               hr_totalProcessed = 0, hr_totalReceived = 0\<rparr>
      in (put_response streamID r (a\<lparr>h3_streamDataBuffer := (h3_streamDataBuffer a)(streamID \<mapsto> []),
            h3_EncodeHeaders := h3_EncodeHeaders a @ [(streamID, hdrs)]\<rparr>),
          c\<lparr>c_Streams := snd (Streams_Get streamID (c_Streams c)), c_CurrentStreamID := c_CurrentStreamID c + 4\<rparr>))"

text \<open>
  The goroutine beside a request, after it has passed data of length \<open>n\<close> to the agent: \<open>closed\<close> and \<open>closeOffset\<close> are the fields of the stream
  it reads then.
\<close>

definition h3_account :: "u64 \<Rightarrow> nat \<Rightarrow> bool \<Rightarrow> u64 \<Rightarrow> HTTP3Agent \<Rightarrow> HTTP3Agent" where
  "h3_account i n closed closeOffset a =
     (case h3_responseBuffer a i of
        None \<Rightarrow> a
      | Some r \<Rightarrow>
          let r = r\<lparr>hr_totalReceived := hr_totalReceived r + of_nat n\<rparr>
          in if closed \<or> hr_totalReceived r = closeOffset
             then let r = r\<lparr>hr_fin := True\<rparr> in checkResponse r (put_response i r a)
             else put_response i r a)"

section \<open>The HTTP/0.9 agent\<close>

definition h09_SendRequest :: "string \<Rightarrow> Connection \<Rightarrow> Connection" where
  "h09_SendRequest path c =
     (let streamID = c_CurrentStreamID c;
          c = SendHTTP09GETRequest path streamID c
      in c\<lparr>c_Streams := snd (Streams_Get (c_CurrentStreamID c) (c_Streams c)), c_CurrentStreamID := c_CurrentStreamID c + 4\<rparr>)"

definition h09_body :: "bytes list \<Rightarrow> bytes" where
  "h09_body chunks = fold (\<lambda>d body. body @ d) chunks []"


section \<open>One request and everything around it\<close>

text \<open>
  The runs after a request on stream \<open>i\<close>. A state is the agent, the pieces the stream has still to deliver, and the length of the piece that
  was passed to the agent and is not yet counted by the goroutine. Besides the steps of this stream there are those of all others, of the
  peer's control stream, of new requests and of the QPACK agent, in any order. \<open>early\<close> allows the goroutine to find the stream closed while
  pieces are still waiting; \<open>finalSize\<close> is the final size of the stream.
\<close>

type_synonym h3_state = "HTTP3Agent \<times> bytes list \<times> nat option"

inductive h3_runs :: "bool \<Rightarrow> u64 \<Rightarrow> nat \<Rightarrow> h3_state \<Rightarrow> h3_state \<Rightarrow> bool" for early i finalSize s where
  start: "h3_runs early i finalSize s s"
| piece: "h3_runs early i finalSize s (a, d # ds, None) \<Longrightarrow> h3_streamData i d a = Inr a' \<Longrightarrow>
    h3_runs early i finalSize s (a', ds, Some (length d))"
| count: "h3_runs early i finalSize s (a, ds, Some n) \<Longrightarrow>
    early \<or> (closed \<longrightarrow> ds = []) \<and> closeOffset \<in> {MaxUint64, of_nat finalSize} \<Longrightarrow>
    h3_runs early i finalSize s (h3_account i n closed closeOffset a, ds, None)"
| frame: "h3_runs early i finalSize s (a, p) \<Longrightarrow> h3_runs early i finalSize s (h3_frame a, p)"
| headers: "h3_runs early i finalSize s (a, p) \<Longrightarrow> h3_runs early i finalSize s (h3_decodedHeaders j hs a, p)"
| packet: "h3_runs early i finalSize s (a, p) \<Longrightarrow> h3_runs early i finalSize s (fst (h3_packet q a c), p)"
| control: "h3_runs early i finalSize s (a, p) \<Longrightarrow> h3_control a = Inr a' \<Longrightarrow> h3_runs early i finalSize s (a', p)"
| control_data: "h3_runs early i finalSize s (a, p) \<Longrightarrow> h3_peerControlStreamID a \<noteq> HTTPNoStream \<Longrightarrow>
    h3_runs early i finalSize s (a\<lparr>h3_peerControlStream := h3_peerControlStream a @ [d]\<rparr>, p)"
| other_piece: "h3_runs early i finalSize s (a, p) \<Longrightarrow> j \<noteq> i \<Longrightarrow> h3_streamData j d a = Inr a' \<Longrightarrow> h3_runs early i finalSize s (a', p)"
| other_count: "h3_runs early i finalSize s (a, p) \<Longrightarrow> j \<noteq> i \<Longrightarrow>
    h3_runs early i finalSize s (h3_account j n closed closeOffset a, p)"
| request: "h3_runs early i finalSize s (a, p) \<Longrightarrow> c_CurrentStreamID c \<noteq> i \<Longrightarrow>
    h3_runs early i finalSize s (fst (h3_SendRequest visit commit path verb authority hs a c), p)"

section \<open>What a stream sees of the agent\<close>

definition view :: "u64 \<Rightarrow> HTTP3Agent \<Rightarrow> HTTPFrame list \<times> bytes option \<times> HTTP3Response option \<times> HTTP3Response list" where
  "view i a = (map snd (filter (\<lambda>x. fst x = i) (h3_frameReceived a)), h3_streamDataBuffer a i, h3_responseBuffer a i,
     filter (\<lambda>r. hr_streamID r = i) (h3_responses a))"

text \<open>The peer's control stream is unidirectional, and a response belongs to the stream it is kept for.\<close>

definition owners :: "HTTP3Agent \<Rightarrow> bool" where
  "owners a \<longleftrightarrow> IsUni (h3_peerControlStreamID a) \<and> (\<forall>j r. h3_responseBuffer a j = Some r \<longrightarrow> hr_streamID r = j)"

named_theorems agent_simps \<open>The handlers of the HTTP/3 agent.\<close>

declare checkResponse_def [agent_simps] put_response_def [agent_simps] process_def [agent_simps] view_def [agent_simps] owners_def [agent_simps]

lemma read_settings_keep: "view i (fold read_setting ss a) = view i a" "owners (fold read_setting ss a) = owners a"
  by (induction ss arbitrary: a) (simp_all add: read_setting_def agent_simps)

lemma h3_SETTINGS_keep: "view i (h3_SETTINGS ss a) = view i a" "owners (h3_SETTINGS ss a) = owners a"
proof -
  have "view i (a\<lparr>h3_InitEncoder := l\<rparr>) = view i a" "owners (a\<lparr>h3_InitEncoder := l\<rparr>) = owners a"
    "view i (a\<lparr>h3_ReceivedSettings := x\<rparr>) = view i a" "owners (a\<lparr>h3_ReceivedSettings := x\<rparr>) = owners a" for l x a
    by (simp_all add: agent_simps)
  then show "view i (h3_SETTINGS ss a) = view i a" "owners (h3_SETTINGS ss a) = owners a"
    by (simp_all add: h3_SETTINGS_def Let_def read_settings_keep)
qed

lemma h3_handle_owners: "owners a \<Longrightarrow> owners (h3_handle j f a)"
proof (cases f)
  case (SETTINGS h ss)
  then show "owners a \<Longrightarrow> owners (h3_handle j f a)" by (simp add: h3_SETTINGS_keep)
qed (auto simp: agent_simps Let_def split: option.splits)

lemma h3_handle_other: "owners a \<Longrightarrow> j \<noteq> i \<Longrightarrow> view i (h3_handle j f a) = view i a"
proof (cases f)
  case (SETTINGS h ss)
  then show "owners a \<Longrightarrow> j \<noteq> i \<Longrightarrow> view i (h3_handle j f a) = view i a" by (simp add: h3_SETTINGS_keep)
qed (auto simp: agent_simps Let_def split: option.splits)

lemma h3_frame_owners: "owners a \<Longrightarrow> owners (h3_frame a)"
  using h3_handle_owners [of "a\<lparr>h3_frameReceived := tl (h3_frameReceived a)\<rparr>"]
  by (auto simp: h3_frame_def owners_def split: list.splits)

lemma h3_decodedHeaders_owners: "owners a \<Longrightarrow> owners (h3_decodedHeaders j hs a)"
  by (auto simp: h3_decodedHeaders_def agent_simps Let_def split: option.splits)

lemma h3_decodedHeaders_other: "owners a \<Longrightarrow> j \<noteq> i \<Longrightarrow> view i (h3_decodedHeaders j hs a) = view i a"
  by (auto simp: h3_decodedHeaders_def agent_simps Let_def split: option.splits)

lemma h3_account_owners: "owners a \<Longrightarrow> owners (h3_account j n cl off a)"
  by (auto simp: h3_account_def agent_simps Let_def split: option.splits)

lemma h3_account_other: "owners a \<Longrightarrow> j \<noteq> i \<Longrightarrow> view i (h3_account j n cl off a) = view i a"
  by (auto simp: h3_account_def agent_simps Let_def split: option.splits)

lemma h3_streamData_cases:
  assumes "h3_streamData j d a = Inr a'"
  obtains buf fs rest where "h3_streamDataBuffer a j = Some buf" "attemptDecoding (buf @ d) = Inr (fs, rest)"
    "a' = a\<lparr>h3_frameReceived := h3_frameReceived a @ map (Pair j) fs, h3_streamDataBuffer := (h3_streamDataBuffer a)(j \<mapsto> rest)\<rparr>"
  using assms by (auto simp: h3_streamData_def h3_decode_def split: option.splits)

lemma filter_pairs [simp]: "filter (\<lambda>x. fst x = i) (map (Pair j) fs) = (if i = j then map (Pair j) fs else [])"
  by (induction fs) auto

lemma h3_streamData_owners: "owners a \<Longrightarrow> h3_streamData j d a = Inr a' \<Longrightarrow> owners a'"
  by (erule h3_streamData_cases) (simp add: owners_def)

lemma h3_streamData_other: "h3_streamData j d a = Inr a' \<Longrightarrow> j \<noteq> i \<Longrightarrow> view i a' = view i a"
  by (erule h3_streamData_cases) (simp add: view_def)

lemma h3_control_keep:
  assumes "h3_control a = Inr a'" "owners a" "\<not> IsUni i"
  shows "owners a' \<and> view i a' = view i a"
proof -
  have "h3_peerControlStreamID a \<noteq> i" using assms(2,3) by (auto simp: owners_def)
  then show ?thesis using assms(1,2)
    by (auto simp: h3_control_def h3_decode_def owners_def view_def split: list.splits)
qed

lemma h3_stream_frame_keep: "owners a \<Longrightarrow> owners (fst (h3_stream_frame s a c)) \<and> view i (fst (h3_stream_frame s a c)) = view i a"
  by (auto simp: h3_stream_frame_def owners_def view_def Let_def split: prod.splits sum.splits)

lemma h3_stream_frames_keep: "owners a \<Longrightarrow> owners (fst (h3_stream_frames fs a c)) \<and> view i (fst (h3_stream_frames fs a c)) = view i a"
proof (induction fs a c rule: h3_stream_frames.induct)
  case (2 s fs a c)
  then show ?case using h3_stream_frame_keep [of a s c i] by (auto split: prod.splits)
qed simp_all

lemma h3_packet_keep: "owners a \<Longrightarrow> owners (fst (h3_packet q a c)) \<and> view i (fst (h3_packet q a c)) = view i a"
  using h3_stream_frames_keep by (auto simp: h3_packet_def split: option.splits)

lemma h3_SendRequest_keep:
  "owners a \<Longrightarrow> c_CurrentStreamID c \<noteq> i \<Longrightarrow>
   owners (fst (h3_SendRequest visit commit path verb authority hs a c)) \<and>
   view i (fst (h3_SendRequest visit commit path verb authority hs a c)) = view i a"
  by (auto simp: h3_SendRequest_def agent_simps Let_def)

section \<open>Assembling the response\<close>

text \<open>The data in frames, and the response as it stands after the frames \<open>H\<close> were handled and \<open>n\<close> bytes were counted.\<close>

fun data_of :: "HTTPFrame \<Rightarrow> bytes" where
  "data_of (DATA h p) = p"
| "data_of _ = []"

fun is_SETTINGS :: "HTTPFrame \<Rightarrow> bool" where
  "is_SETTINGS (SETTINGS h ss) = True"
| "is_SETTINGS _ = False"

definition bodies :: "HTTPFrame list \<Rightarrow> bytes" where
  "bodies H = concat (map data_of H)"

definition assembled :: "HTTPFrame list \<Rightarrow> nat \<Rightarrow> HTTP3Response \<Rightarrow> bool" where
  "assembled H n r \<longleftrightarrow> hr_body r = bodies H \<and> hr_totalProcessed r = sum_list (map WireLength H) \<and> hr_totalReceived r = of_nat n"

lemma bodies_simps [simp]: "bodies [] = []" "bodies (G @ H) = bodies G @ bodies H" "bodies [f] = data_of f"
  by (simp_all add: bodies_def)

lemma wf_wire:
  assumes "HTTP_WriteTo f = Inr b" "wf_http f"
  shows "WireLength f = of_nat (length b)" "b \<noteq> []"
proof -
  obtain tb lb p where b: "b = tb @ lb @ p" "announces (http_header f) (length p)"
    "vi_Length (hh_Type (http_header f)) = length tb" "vi_Length (hh_Length (http_header f)) = length lb"
    "EncodeVarInt (vi_Value (hh_Type (http_header f))) = Inr tb"
    using header_written [OF assms] by metis
  then have "vi_Value (hh_Length (http_header f)) = of_nat (length p)"
    using unat_announced(1) [OF b(2)] by (metis of_nat_unat ucast_id)
  with b show "WireLength f = of_nat (length b)" by (simp add: WireLength_def)
  have "tb \<noteq> []" using b(5) by (auto simp: EncodeVarInt_def split: if_splits)
  with b(1) show "b \<noteq> []" by simp
qed

lemma wire_sum:
  "cat_res (map HTTP_WriteTo fs) = Inr w \<Longrightarrow> list_all wf_http fs \<Longrightarrow>
   sum_list (map WireLength fs) = of_nat (length w) \<and> length fs \<le> length w"
proof (induction fs arbitrary: w)
  case (Cons f fs)
  obtain b v where b: "HTTP_WriteTo f = Inr b" "cat_res (map HTTP_WriteTo fs) = Inr v" "w = b @ v"
    using Cons.prems(1) by auto
  have wf: "wf_http f" "list_all wf_http fs" using Cons.prems(2) by simp_all
  have "length b \<ge> 1" using wf_wire(2) [OF b(1) wf(1)] by (simp add: Suc_le_eq)
  with wf_wire(1) [OF b(1) wf(1)] Cons.IH [OF b(2) wf(2)] b(3) show ?case by simp
qed simp

text \<open>A response is delivered only in the state it is left in, and only when it is complete.\<close>

definition delivers :: "HTTP3Response list \<Rightarrow> HTTP3Response \<Rightarrow> HTTP3Response list \<Rightarrow> bool" where
  "delivers D r D' \<longleftrightarrow> (\<forall>x \<in> set D'. x \<in> set D \<or> x = r \<and> Complete r)"

lemma handle_assembled:
  assumes "view i a = (Q, buf, Some r, D)" "assembled H n r" "owners a" "\<not> is_SETTINGS f"
  shows "\<exists>r' D'. view i (h3_handle i f a) = (Q, buf, Some r', D') \<and> assembled (H @ [f]) n r' \<and> hr_fin r' = hr_fin r \<and> delivers D r' D'"
  using assms by (cases f) (auto simp: agent_simps assembled_def delivers_def Let_def)

lemma headers_assembled:
  assumes "view i a = (Q, buf, Some r, D)" "assembled H n r" "owners a"
  shows "\<exists>r' D'. view i (h3_decodedHeaders i hs a) = (Q, buf, Some r', D') \<and> assembled H n r' \<and> hr_fin r' = hr_fin r \<and> delivers D r' D'"
  using assms by (auto simp: h3_decodedHeaders_def agent_simps assembled_def delivers_def Let_def)

lemma account_assembled:
  assumes "view i a = (Q, buf, Some r, D)" "assembled H n r" "owners a"
  shows "\<exists>r' D'. view i (h3_account i m closed closeOffset a) = (Q, buf, Some r', D') \<and> assembled H (n + m) r' \<and>
    (hr_fin r' \<longrightarrow> hr_fin r \<or> closed \<or> of_nat (n + m) = closeOffset) \<and> delivers D r' D'"
  using assms by (auto simp: h3_account_def agent_simps assembled_def delivers_def Let_def)

text \<open>
  The invariant: of the frames \<open>fs\<close> of the stream a part \<open>H\<close> is handled, \<open>Q\<close> waits in the channel, and the rest is in the buffer or
  still to come.
\<close>

definition delivered_well :: "bool \<Rightarrow> HTTPFrame list \<Rightarrow> nat \<Rightarrow> HTTP3Response \<Rightarrow> bool" where
  "delivered_well early fs finalSize r \<longleftrightarrow>
     (\<exists>H t n. fs = H @ t \<and> assembled H n r \<and> Complete r \<and> n \<le> finalSize \<and> (early \<or> n = finalSize))"

definition uncounted :: "nat option \<Rightarrow> nat" where
  "uncounted p = (case p of None \<Rightarrow> 0 | Some n \<Rightarrow> n)"

fun h3_inv :: "bool \<Rightarrow> u64 \<Rightarrow> HTTPFrame list \<Rightarrow> nat \<Rightarrow> h3_state \<Rightarrow> bool" where
  "h3_inv early i fs finalSize (a, ds, p) \<longleftrightarrow> owners a \<and>
     (\<exists>H Q t buf r n D. view i a = (Q, Some buf, Some r, D) \<and> fs = H @ Q @ t \<and>
        cat_res (map HTTP_WriteTo t) = Inr (buf @ concat ds) \<and> frame_extent buf = None \<and> assembled H n r \<and>
        n + uncounted p + length (concat ds) = finalSize \<and> (hr_fin r \<longrightarrow> early \<or> n = finalSize) \<and>
        (\<forall>x \<in> set D. delivered_well early fs finalSize x))"

lemma h3_inv_cases:
  assumes "h3_inv early i fs finalSize (a, ds, p)"
  obtains H Q t buf r n D where "owners a" "view i a = (Q, Some buf, Some r, D)" "fs = H @ Q @ t"
    "cat_res (map HTTP_WriteTo t) = Inr (buf @ concat ds) \<and> frame_extent buf = None" "assembled H n r" "n + uncounted p + length (concat ds) = finalSize"
    "hr_fin r \<longrightarrow> early \<or> n = finalSize" "\<forall>x \<in> set D. delivered_well early fs finalSize x"
  using assms by auto

lemma h3_inv_owners: "h3_inv early i fs finalSize (a, q) \<Longrightarrow> owners a"
  by (cases q) simp

lemma h3_inv_view: "h3_inv early i fs finalSize (a, q) \<Longrightarrow> owners a' \<Longrightarrow> view i a' = view i a \<Longrightarrow> h3_inv early i fs finalSize (a', q)"
  by (cases q) simp

lemma h3_inv_move:
  assumes "owners a'" "view i a' = (Q, Some buf, Some r', D')" "fs = H @ Q @ t" "cat_res (map HTTP_WriteTo t) = Inr (buf @ concat ds) \<and> frame_extent buf = None"
    "assembled H n r'" "n + uncounted p + length (concat ds) = finalSize" "hr_fin r' \<longrightarrow> early \<or> n = finalSize" "delivers D r' D'"
    "\<forall>x \<in> set D. delivered_well early fs finalSize x"
  shows "h3_inv early i fs finalSize (a', ds, p)"
proof -
  have "delivered_well early fs finalSize r'" if "Complete r'"
    using that assms(3,5-7) unfolding delivered_well_def by (intro exI [of _ H] exI [of _ "Q @ t"] exI [of _ n]) (auto simp: Complete_def)
  with assms(8,9) have "\<forall>x \<in> set D'. delivered_well early fs finalSize x" unfolding delivers_def by blast
  with assms(1-7) show ?thesis unfolding h3_inv.simps by blast
qed

declare h3_inv.simps [simp del]

lemma h3_inv_frame:
  assumes "h3_inv early i fs finalSize (a, ds, p)" "list_all (Not \<circ> is_SETTINGS) fs"
  shows "h3_inv early i fs finalSize (h3_frame a, ds, p)"
proof (cases "h3_frameReceived a")
  case Nil
  with assms show ?thesis by (simp add: h3_frame_def)
next
  case (Cons x fr)
  obtain j f where x: "x = (j, f)" by (cases x)
  define a1 where "a1 = a\<lparr>h3_frameReceived := fr\<rparr>"
  have o: "owners a1" using h3_inv_owners [OF assms(1)] by (simp add: a1_def owners_def)
  have step: "h3_frame a = h3_handle j f a1" by (simp add: h3_frame_def Cons x a1_def)
  obtain H Q t buf r n D where I: "view i a = (Q, Some buf, Some r, D)" "fs = H @ Q @ t"
    "cat_res (map HTTP_WriteTo t) = Inr (buf @ concat ds) \<and> frame_extent buf = None" "assembled H n r" "n + uncounted p + length (concat ds) = finalSize"
    "hr_fin r \<longrightarrow> early \<or> n = finalSize" "\<forall>x \<in> set D. delivered_well early fs finalSize x"
    by (rule h3_inv_cases [OF assms(1)])
  show ?thesis
  proof (cases "j = i")
    case True
    then have Q: "Q = f # tl Q" "view i a1 = (tl Q, Some buf, Some r, D)" using I(1) Cons x by (auto simp: view_def a1_def)
    have nf: "\<not> is_SETTINGS f" using assms(2) by (subst (asm) I(2), subst (asm) Q(1)) simp
    obtain r' D' where r: "view i (h3_handle i f a1) = (tl Q, Some buf, Some r', D')" "assembled (H @ [f]) n r'"
      "hr_fin r' = hr_fin r" "delivers D r' D'"
      using handle_assembled [OF Q(2) I(4) o nf] by blast
    have "fs = (H @ [f]) @ tl Q @ t" using I(2) Q(1) by (metis append.assoc append_Cons append_Nil)
    from h3_inv_move [OF h3_handle_owners [OF o] r(1) this I(3) r(2) I(5) _ r(4) I(7)] I(6) r(3) show ?thesis
      by (simp add: step True)
  next
    case False
    have "view i a1 = view i a" using Cons x False by (simp add: view_def a1_def)
    with h3_inv_view [OF assms(1) h3_handle_owners [OF o]] h3_handle_other [OF o False] step show ?thesis by simp
  qed
qed

lemma h3_inv_headers:
  assumes "h3_inv early i fs finalSize (a, ds, p)"
  shows "h3_inv early i fs finalSize (h3_decodedHeaders j hs a, ds, p)"
proof -
  have o: "owners a" using assms by (rule h3_inv_owners)
  obtain H Q t buf r n D where I: "view i a = (Q, Some buf, Some r, D)" "fs = H @ Q @ t"
    "cat_res (map HTTP_WriteTo t) = Inr (buf @ concat ds) \<and> frame_extent buf = None" "assembled H n r" "n + uncounted p + length (concat ds) = finalSize"
    "hr_fin r \<longrightarrow> early \<or> n = finalSize" "\<forall>x \<in> set D. delivered_well early fs finalSize x"
    by (rule h3_inv_cases [OF assms])
  obtain r' D' where r: "view i (h3_decodedHeaders i hs a) = (Q, Some buf, Some r', D')" "assembled H n r'"
    "hr_fin r' = hr_fin r" "delivers D r' D'"
    using headers_assembled [OF I(1,4) o] by blast
  from h3_inv_move [OF h3_decodedHeaders_owners [OF o] r(1) I(2,3) r(2) I(5) _ r(4) I(7)] I(6) r(3)
    h3_inv_view [OF assms h3_decodedHeaders_owners [OF o] h3_decodedHeaders_other [OF o]]
  show ?thesis by (cases "j = i") auto
qed

lemma h3_inv_count:
  assumes "h3_inv early i fs finalSize (a, ds, Some m)" "finalSize < 2 ^ 62"
    "early \<or> (closed \<longrightarrow> ds = []) \<and> closeOffset \<in> {MaxUint64, of_nat finalSize}"
  shows "h3_inv early i fs finalSize (h3_account i m closed closeOffset a, ds, None)"
proof -
  have o: "owners a" using assms(1) by (rule h3_inv_owners)
  obtain H Q t buf r n D where I: "view i a = (Q, Some buf, Some r, D)" "fs = H @ Q @ t"
    "cat_res (map HTTP_WriteTo t) = Inr (buf @ concat ds) \<and> frame_extent buf = None" "assembled H n r" "n + m + length (concat ds) = finalSize"
    "hr_fin r \<longrightarrow> early \<or> n = finalSize" "\<forall>x \<in> set D. delivered_well early fs finalSize x"
    using h3_inv_cases [OF assms(1)] unfolding uncounted_def option.case by metis
  obtain r' D' where r: "view i (h3_account i m closed closeOffset a) = (Q, Some buf, Some r', D')" "assembled H (n + m) r'"
    "hr_fin r' \<longrightarrow> hr_fin r \<or> closed \<or> of_nat (n + m) = closeOffset" "delivers D r' D'"
    using account_assembled [OF I(1,4) o] by blast
  have small: "unat (of_nat (n + m) :: u64) = n + m" "unat (of_nat finalSize :: u64) = finalSize"
    using I(5) assms(2) by (simp_all del: of_nat_add)
  have "n + m = finalSize" if "of_nat (n + m) = closeOffset" "closeOffset \<in> {MaxUint64, of_nat finalSize}"
  proof -
    have "unat MaxUint64 = 18446744073709551615" by (simp add: MaxUint64_def)
    moreover have "unat (of_nat (n + m) :: u64) = unat closeOffset" using that(1) by simp
    moreover have "unat closeOffset = unat MaxUint64 \<or> unat closeOffset = finalSize" using that(2) small(2) by auto
    moreover have "finalSize < 18446744073709551615" using assms(2) by simp
    ultimately show ?thesis using small(1) I(5) by linarith
  qed
  then have "hr_fin r' \<longrightarrow> early \<or> n + m = finalSize" using r(3) I(5,6) assms(3) by auto
  from h3_inv_move [OF h3_account_owners [OF o] r(1) I(2,3) r(2) _ this r(4) I(7)] I(5) show ?thesis
    by (simp add: uncounted_def)
qed

lemma h3_inv_piece:
  assumes "h3_inv early i fs finalSize (a, d # ds, None)" "h3_streamData i d a = Inr a'" "list_all wf_http fs"
  shows "h3_inv early i fs finalSize (a', ds, Some (length d))"
proof -
  have o: "owners a" using assms(1) by (rule h3_inv_owners)
  obtain H Q t buf r n D where I: "view i a = (Q, Some buf, Some r, D)" "fs = H @ Q @ t"
    "cat_res (map HTTP_WriteTo t) = Inr ((buf @ d) @ concat ds) \<and> frame_extent buf = None" "assembled H n r" "n + length d + length (concat ds) = finalSize"
    "hr_fin r \<longrightarrow> early \<or> n = finalSize" "\<forall>x \<in> set D. delivered_well early fs finalSize x"
    using h3_inv_cases [OF assms(1)] unfolding uncounted_def option.case concat.simps append.assoc length_append add.assoc add_0 by metis
  obtain gs t' rest where g: "t = gs @ t'" "attemptDecoding (buf @ d) = Inr (gs, rest)"
    "cat_res (map HTTP_WriteTo t') = Inr (rest @ concat ds) \<and> frame_extent rest = None"
    using attemptDecoding_part [OF conjunct1 [OF I(3)] _ refl] assms(3) I(2) by auto
  have a': "view i a' = (Q @ gs, Some rest, Some r, D)"
    using assms(2) I(1) g(2) by (auto simp: h3_streamData_def h3_decode_def view_def comp_def)
  have "fs = H @ (Q @ gs) @ t'" using I(2) g(1) by simp
  from h3_inv_move [OF h3_streamData_owners [OF o assms(2)] a' this g(3) I(4) _ I(6) _ I(7)] I(5) show ?thesis
    by (simp add: uncounted_def delivers_def)
qed

lemma h3_runs_inv:
  assumes "h3_runs early i finalSize s s'" "h3_inv early i fs finalSize s" "list_all wf_http fs" "list_all (Not \<circ> is_SETTINGS) fs"
    "finalSize < 2 ^ 62" "\<not> IsUni i"
  shows "h3_inv early i fs finalSize s'"
  using assms(1,2)
proof induction
  case (piece a d ds a')
  then show ?case using h3_inv_piece assms(3) by blast
next
  case (count a ds n closed closeOffset)
  then show ?case using h3_inv_count assms(5) by blast
next
  case (frame a p)
  then show ?case using h3_inv_frame assms(4) by (cases p) blast
next
  case (headers a p j hs)
  then show ?case using h3_inv_headers by (cases p) blast
next
  case (packet a p q c)
  then have "owners a" using h3_inv_owners by blast
  with packet h3_inv_view h3_packet_keep show ?case by metis
next
  case (control a p a')
  then have "owners a" using h3_inv_owners by blast
  with control h3_inv_view h3_control_keep assms(6) show ?case by metis
next
  case (control_data a p d)
  then have "owners a" using h3_inv_owners by blast
  then show ?case by (intro h3_inv_view [OF control_data.IH]) (simp_all add: control_data.prems owners_def view_def)
next
  case (other_piece a p j d a')
  then have "owners a" using h3_inv_owners by blast
  with other_piece h3_inv_view h3_streamData_owners h3_streamData_other show ?case by metis
next
  case (other_count a p j n closed closeOffset)
  then have "owners a" using h3_inv_owners by blast
  with other_count h3_inv_view h3_account_owners h3_account_other show ?case by metis
next
  case (request a p c visit commit path verb authority hs)
  then have "owners a" using h3_inv_owners by blast
  with request h3_inv_view h3_SendRequest_keep show ?case by metis
qed simp

section \<open>Deliveries that go wrong\<close>

text \<open>
  The stream is closed as soon as its last byte is in order, while its data still waits in the channel of the goroutine. After the first piece
  the response counts as finished then, and is delivered without the data of the second.
\<close>

definition h3_idle :: HTTP3Agent where
  "h3_idle = \<lparr>h3_DisableQPACKStreams = True, h3_ReceivedSettings = None, h3_streamDataBuffer = Map.empty,
     h3_responseBuffer = Map.empty, h3_peerControlStreamID = HTTPNoStream, h3_peerControlStream = [],
     h3_peerControlStreamBuffer = [], h3_frameReceived = [], h3_responses = [], h3_DecodeHeaders = [],
     h3_EncodeHeaders = [], h3_InitEncoder = [], h3_settingsHeaderTableSize = 4096, h3_settingsQPACKBlockedStreams = 100\<rparr>"

definition empty_response :: "u64 \<Rightarrow> HTTP3Response" where
  "empty_response i = \<lparr>hr_streamID = i, hr_body = [], hr_headers = [], hr_fin = False, hr_headersRemaining = 0,
     hr_totalProcessed = 0, hr_totalReceived = 0\<rparr>"

definition h3_waiting :: "u64 \<Rightarrow> HTTP3Agent" where
  "h3_waiting i = h3_idle\<lparr>h3_streamDataBuffer := [i \<mapsto> []], h3_responseBuffer := [i \<mapsto> empty_response i]\<rparr>"

definition short_header :: "u64 \<Rightarrow> u64 \<Rightarrow> HTTPFrameHeader" where
  "short_header t n = \<lparr>hh_Type = \<lparr>vi_Value = t, vi_Length = 1\<rparr>, hh_Length = \<lparr>vi_Value = n, vi_Length = 1\<rparr>\<rparr>"

lemma h3_piece_frames:
  assumes "cat_res (map HTTP_WriteTo fs) = Inr d" "list_all wf_http fs" "h3_streamDataBuffer a i = Some []"
  shows "h3_streamData i d a = Inr (a\<lparr>h3_frameReceived := h3_frameReceived a @ map (Pair i) fs\<rparr>)"
proof -
  have "attemptDecoding d = Inr (fs, [])"
    using feed_rest [of fs "[]" "[d]"] assms by (auto simp: frame_extent_def NewReader_def ReadVarInt_def)
  with assms(3) show ?thesis by (simp add: h3_streamData_def h3_decode_def fun_upd_idem)
qed

definition data_7 :: HTTPFrame where "data_7 = DATA (short_header 0 1) [7]"
definition data_8 :: HTTPFrame where "data_8 = DATA (short_header 0 1) [8]"
definition reserved_frame :: HTTPFrame where "reserved_frame = UnknownFrame (short_header 33 0) []"

lemmas example_frames = data_7_def data_8_def reserved_frame_def short_header_def

lemma example_written:
  "HTTP_WriteTo data_7 = Inr [0, 1, 7]" "HTTP_WriteTo data_8 = Inr [0, 1, 8]" "HTTP_WriteTo reserved_frame = Inr [33, 0]"
  "wf_http data_7" "wf_http data_8" "wf_http reserved_frame"
  by (simp_all add: example_frames HTTP_WriteTo_def HTTPFrameHeader_WriteTo_def VarInt_Encode_def WriteVarInt_def EncodeVarInt_def
      maxVarInt1_def wf_http_def announces_def wf_VarInt_def VarIntLen_def maxAlloc_def http_types)

lemmas example_run = h3_frame_def h3_waiting_def h3_idle_def empty_response_def h3_account_def checkResponse_def put_response_def
  process_def Complete_def WireLength_def example_frames Let_def

lemma delivered_early:
  "\<exists>a r. h3_runs True 0 6 (h3_waiting 0, [[0, 1, 7], [0, 1, 8]], None) (a, [[0, 1, 8]], None) \<and>
     h3_responses a = [r] \<and> hr_streamID r = 0 \<and> hr_body r = [7] \<and> bodies [data_7, data_8] = [7, 8]"
proof -
  define a1 where "a1 = (h3_waiting 0)\<lparr>h3_frameReceived := [(0, data_7)]\<rparr>"
  have d: "h3_streamData 0 [0, 1, 7] (h3_waiting 0) = Inr a1"
    using h3_piece_frames [of "[data_7]" "[0, 1, 7]" "h3_waiting 0" 0]
    by (simp add: example_written a1_def h3_waiting_def h3_idle_def)
  have "h3_runs True 0 6 (h3_waiting 0, [[0, 1, 7], [0, 1, 8]], None) (h3_account 0 3 True 6 (h3_frame a1), [[0, 1, 8]], None)"
    using h3_runs.count [OF h3_runs.frame [OF h3_runs.piece [OF h3_runs.start [where s = "(h3_waiting 0, [[0, 1, 7], [0, 1, 8]], None)"] d]],
        where closed = True and closeOffset = 6, of True 6]
    by (simp add: eval_nat_numeral)
  moreover have "h3_responses (h3_account 0 3 True 6 (h3_frame a1)) =
      [(empty_response 0)\<lparr>hr_body := [7], hr_fin := True, hr_totalProcessed := 3, hr_totalReceived := 3\<rparr>]"
    by (simp add: a1_def example_run)
  ultimately show ?thesis
    by (intro exI conjI) (assumption, assumption, simp_all add: empty_response_def bodies_def example_frames)
qed

text \<open>
  Only DATA frames and decoded headers are followed by a check of the response. When the goroutine has counted the whole stream and the last
  frame is of another type, the response is complete after that frame and is never delivered.
\<close>

lemma never_delivered:
  "\<exists>a r. h3_runs False 0 5 (h3_waiting 0, [[0, 1, 7, 33, 0]], None) (a, [], None) \<and>
     h3_frameReceived a = [] \<and> h3_responseBuffer a 0 = Some r \<and> Complete r \<and> h3_responses a = []"
proof -
  define a1 where "a1 = (h3_waiting 0)\<lparr>h3_frameReceived := [(0, data_7), (0, reserved_frame)]\<rparr>"
  have d: "h3_streamData 0 [0, 1, 7, 33, 0] (h3_waiting 0) = Inr a1"
    using h3_piece_frames [of "[data_7, reserved_frame]" "[0, 1, 7, 33, 0]" "h3_waiting 0" 0]
    by (simp add: example_written a1_def h3_waiting_def h3_idle_def)
  let ?a = "h3_frame (h3_frame (h3_account 0 5 True 5 a1))"
  have "h3_runs False 0 5 (h3_waiting 0, [[0, 1, 7, 33, 0]], None) (?a, [], None)"
    using h3_runs.frame [OF h3_runs.frame [OF h3_runs.count [OF h3_runs.piece [OF
        h3_runs.start [where s = "(h3_waiting 0, [[0, 1, 7, 33, 0]], None)"] d], where closed = True and closeOffset = 5, of False 5]]]
    by (simp add: eval_nat_numeral)
  moreover have "h3_frameReceived ?a = []" "h3_responses ?a = []" "h3_responseBuffer ?a 0 =
      Some ((empty_response 0)\<lparr>hr_body := [7], hr_fin := True, hr_totalProcessed := 5, hr_totalReceived := 5\<rparr>)"
    by (simp_all add: a1_def example_run)
  moreover have "Complete ((empty_response 0)\<lparr>hr_body := [7], hr_fin := True, hr_totalProcessed := 5, hr_totalReceived := 5\<rparr>)"
    by (simp add: Complete_def empty_response_def)
  ultimately show ?thesis by blast
qed

section \<open>The HTTP/0.9 body\<close>

lemma h09_body_concat: "h09_body chunks = concat chunks"
proof -
  have "fold (\<lambda>d body. body @ d) chunks b = b @ concat chunks" for b by (induction chunks arbitrary: b) simp_all
  then show ?thesis by (simp add: h09_body_def)
qed

section \<open>Properties\<close>

lemma h3_Run_owners: "h3_Run disable c = Inr (a, c') \<Longrightarrow> owners a"
  by (auto simp: h3_Run_def owners_def HTTPNoStream_def MaxUint64_def IsUni_def Let_def)

lemma h3_inv_request:
  assumes "owners a" "i \<notin> fst ` set (h3_frameReceived a)" "i \<notin> hr_streamID ` set (h3_responses a)" "c_CurrentStreamID c = i"
    "cat_res (map HTTP_WriteTo fs) = Inr (concat pieces)"
  shows "h3_inv early i fs (length (concat pieces)) (fst (h3_SendRequest visit commit path verb authority hs a c), pieces, None)"
proof -
  have "filter (\<lambda>x. fst x = i) (h3_frameReceived a) = []" "filter (\<lambda>r. hr_streamID r = i) (h3_responses a) = []"
    using assms(2,3) by (auto simp: filter_empty_conv)
  moreover have "frame_extent [] = None" by (simp add: frame_extent_def NewReader_def ReadVarInt_def)
  ultimately show ?thesis using assms(1,4,5)
    by (intro h3_inv_move [where Q = "[]" and H = "[]" and n = 0 and t = fs and D = "[]" and D' = "[]" and buf = "[]" and
          r' = "empty_response i"])
      (auto simp: h3_SendRequest_def agent_simps Let_def empty_response_def assembled_def uncounted_def delivers_def)
qed

lemma delivered_well_parts:
  assumes "delivered_well early fs finalSize r" "cat_res (map HTTP_WriteTo fs) = Inr w" "length w = finalSize" "list_all wf_http fs"
    "finalSize < 2 ^ 62"
  shows "\<exists>H t b. fs = H @ t \<and> cat_res (map HTTP_WriteTo H) = Inr b \<and> hr_body r = bodies H \<and>
    hr_totalReceived r = of_nat (length b) \<and> Complete r \<and> (early \<or> t = [])"
proof -
  obtain H t n where r: "fs = H @ t" "assembled H n r" "Complete r" "n \<le> finalSize" "early \<or> n = finalSize"
    using assms(1) by (auto simp: delivered_well_def)
  obtain b v where b: "cat_res (map HTTP_WriteTo H) = Inr b" "cat_res (map HTTP_WriteTo t) = Inr v" "w = b @ v"
    using assms(2) r(1) cat_res_append by auto
  have wf: "list_all wf_http H" "list_all wf_http t" using assms(4) r(1) by simp_all
  have eq: "of_nat n = (of_nat (length b) :: u64)" "hr_totalReceived r = of_nat (length b)"
    using r(2,3) wire_sum [OF b(1) wf(1)] by (auto simp: assembled_def Complete_def)
  have "n = length b"
    using arg_cong [OF eq(1), of unat] r(4) assms(3,5) b(3) by simp
  then have "t = []" if "n = finalSize" using that wire_sum [OF b(2) wf(2)] assms(3) b(3) by simp
  with r b eq show ?thesis by (auto simp: assembled_def)
qed

lemma h3_inv_accepts:
  assumes "h3_inv early i fs finalSize (a, d # ds, p)" "list_all wf_http fs"
  shows "\<exists>a'. h3_streamData i d a = Inr a'"
proof -
  obtain H Q t buf r n D where I: "view i a = (Q, Some buf, Some r, D)" "fs = H @ Q @ t"
    "cat_res (map HTTP_WriteTo t) = Inr (buf @ concat (d # ds))"
    using assms(1) by (rule h3_inv_cases) blast
  obtain gs rest where "attemptDecoding (buf @ d) = Inr (gs, rest)"
    using attemptDecoding_part [OF I(3), of "buf @ d" "concat ds"] assms(2) I(2) by auto
  with I(1) show ?thesis by (auto simp: h3_streamData_def h3_decode_def view_def)
qed

lemma h3_inv_all:
  assumes "h3_inv early i fs finalSize (a, [], None)" "list_all wf_http fs" "i \<notin> fst ` set (h3_frameReceived a)"
  shows "\<exists>r. h3_responseBuffer a i = Some r \<and> assembled fs finalSize r"
proof -
  obtain H Q t buf r n where I: "view i a = (Q, Some buf, Some r, filter (\<lambda>r. hr_streamID r = i) (h3_responses a))" "fs = H @ Q @ t"
    "cat_res (map HTTP_WriteTo t) = Inr (buf @ concat [])" "frame_extent buf = None" "assembled H n r" "n = finalSize"
    using assms(1) by (rule h3_inv_cases) (auto simp: uncounted_def view_def)
  have "Q = []" using I(1) assms(3) by (force simp: view_def filter_empty_conv)
  moreover have "t = []"
    using I(2-4) assms(2) frame_extent_written by (cases t) fastforce+
  ultimately show ?thesis using I by (auto simp: view_def)
qed



end
