(* ===== verification/Buffering.thy ===== *)
theory Buffering
  imports ConnData
begin

text \<open>
  The agent that keeps the payloads no key is available for (\<^verbatim>\<open>agents/buffer_agent.go\<close>). Both branches of its \<^verbatim>\<open>select\<close> loop, as
  functions that also return the payloads they submit to \<^verbatim>\<open>IncomingPayloads\<close>, and a step relation with the log of what came in and
  what went out. The result: no payload is lost, repeated or overtaken by another one of its level.
\<close>

section \<open>The agent\<close>

record BufferAgent =
  unprocessedPayloads :: "EncryptionLevel \<Rightarrow> IncomingPayload list"
  encryptionLevelsAvailable :: "EncryptionLevel \<Rightarrow> bool"

definition buffer_Run :: BufferAgent where
  "buffer_Run = \<lparr>unprocessedPayloads = \<lambda>_. [], encryptionLevelsAvailable = \<lambda>_. False\<rparr>"

definition submit_payloads :: "IncomingPayload list \<Rightarrow> Connection \<Rightarrow> Connection" where
  "submit_payloads ps c = c\<lparr>c_IncomingPayloads := c_IncomingPayloads c @ ps\<rparr>"

definition mark_buffered :: "IncomingPayload \<Rightarrow> IncomingPayload" where
  "mark_buffered p = p\<lparr>ip_PacketContext := (ip_PacketContext p)\<lparr>pc_WasBuffered := True\<rparr>\<rparr>"

definition buffer_payload :: "UnprocessedPayload \<Rightarrow> BufferAgent \<Rightarrow> IncomingPayload list \<times> BufferAgent" where
  "buffer_payload u a =
     (let eL = up_EncryptionLevel u in
      if \<not> encryptionLevelsAvailable a eL
      then ([], a\<lparr>unprocessedPayloads := (unprocessedPayloads a)(eL := unprocessedPayloads a eL @ [up_IncomingPayload u])\<rparr>)
      else ([up_IncomingPayload u], a))"

definition buffer_level :: "DirectionalEncryptionLevel \<Rightarrow> BufferAgent \<Rightarrow> IncomingPayload list \<times> BufferAgent" where
  "buffer_level dEL a =
     (if del_Available dEL \<and> del_Read dEL then
        (let eL = del_EncryptionLevel dEL in
         (map mark_buffered (unprocessedPayloads a eL),
          a\<lparr>encryptionLevelsAvailable := (encryptionLevelsAvailable a)(eL := True),
            unprocessedPayloads := (unprocessedPayloads a)(eL := [])\<rparr>))
      else ([], a))"

section \<open>The agent as a machine\<close>

text \<open>
  \<open>bs_in\<close> is the log of the payloads received, \<open>bs_out\<close> the log of those submitted, with their levels.
\<close>

record buffer_state =
  bs_agent :: BufferAgent
  bs_conn :: Connection
  bs_in :: "(EncryptionLevel \<times> IncomingPayload) list"
  bs_out :: "(EncryptionLevel \<times> IncomingPayload) list"

datatype buffer_event = BufPayload UnprocessedPayload | BufLevel DirectionalEncryptionLevel

inductive buffer_step :: "buffer_state \<Rightarrow> buffer_event \<Rightarrow> buffer_state \<Rightarrow> bool" where
  payload: "buffer_payload u (bs_agent s) = (ps, a) \<Longrightarrow>
    buffer_step s (BufPayload u) (s\<lparr>bs_agent := a, bs_conn := submit_payloads ps (bs_conn s),
      bs_in := bs_in s @ [(up_EncryptionLevel u, up_IncomingPayload u)],
      bs_out := bs_out s @ map (Pair (up_EncryptionLevel u)) ps\<rparr>)"
| level: "buffer_level d (bs_agent s) = (ps, a) \<Longrightarrow>
    buffer_step s (BufLevel d) (s\<lparr>bs_agent := a, bs_conn := submit_payloads ps (bs_conn s),
      bs_out := bs_out s @ map (Pair (del_EncryptionLevel d)) ps\<rparr>)"

definition buffer_init :: "buffer_state \<Rightarrow> bool" where
  "buffer_init s \<longleftrightarrow> bs_agent s = buffer_Run \<and> bs_in s = [] \<and> bs_out s = []"

text \<open>The payloads of a level, in order, without the mark the agent sets.\<close>

definition at_level :: "EncryptionLevel \<Rightarrow> (EncryptionLevel \<times> IncomingPayload) list \<Rightarrow> IncomingPayload list" where
  "at_level l xs = map (mark_buffered \<circ> snd) (filter (\<lambda>x. fst x = l) xs)"

lemma at_level_append [simp]: "at_level l (xs @ ys) = at_level l xs @ at_level l ys"
  by (simp add: at_level_def)

lemma at_level_Nil [simp]: "at_level l [] = []"
  by (simp add: at_level_def)

lemma at_level_one [simp]: "at_level l [(k, p)] = (if k = l then [mark_buffered p] else [])"
  by (simp add: at_level_def)

lemma mark_idem [simp]: "mark_buffered (mark_buffered p) = mark_buffered p"
  by (simp add: mark_buffered_def)

lemma at_level_Pair [simp]: "at_level l (map (Pair k) ps) = (if k = l then map mark_buffered ps else [])"
  by (induction ps) (auto simp: at_level_def)

definition buffer_inv :: "buffer_state \<Rightarrow> bool" where
  "buffer_inv s \<longleftrightarrow> (\<forall>l. at_level l (bs_in s) = at_level l (bs_out s) @ map mark_buffered (unprocessedPayloads (bs_agent s) l) \<and>
     (encryptionLevelsAvailable (bs_agent s) l \<longrightarrow> unprocessedPayloads (bs_agent s) l = []))"

interpretation buffer_machine: machine buffer_init buffer_step buffer_inv
proof (unfold_locales, goal_cases)
  case (1 s)
  then show ?case by (simp add: buffer_init_def buffer_inv_def buffer_Run_def)
next
  case (2 s e s')
  from 2(2) show ?case
  proof cases
    case (payload u ps a)
    with 2(1) show ?thesis
      by (cases "encryptionLevelsAvailable (bs_agent s) (up_EncryptionLevel u)")
        (auto simp: buffer_inv_def buffer_payload_def Let_def)
  next
    case (level d ps a)
    with 2(1) show ?thesis
      by (cases "del_Available d \<and> del_Read d") (auto simp: buffer_inv_def buffer_level_def Let_def o_def)
  qed
qed

section \<open>Properties\<close>

text \<open>
  C13. The buffer agent neither loses nor repeats nor reorders: in every run, the payloads of a level that were submitted, followed by
  those still buffered for it, are the payloads received for the level in the order they came; and once the level can be read,
  nothing is buffered for it.
\<close>

theorem buffer_keeps_order:
  assumes "reachable buffer_init buffer_step s"
  shows "at_level l (bs_in s) = at_level l (bs_out s) @ map mark_buffered (unprocessedPayloads (bs_agent s) l) \<and>
    (encryptionLevelsAvailable (bs_agent s) l \<longrightarrow> at_level l (bs_in s) = at_level l (bs_out s))"
  using buffer_machine.inv_reachable [OF assms] by (simp add: buffer_inv_def)

lemma buffer_keeps_order_witness:
  "\<forall>c. \<exists>s. reachable buffer_init buffer_step s \<and> bs_conn s = submit_payloads [mark_buffered \<lparr>ip_PacketContext = zero_PacketContext,
       ip_Payload = [1]\<rparr>] (submit_payloads [] c) \<and>
     at_level EncryptionLevelHandshake (bs_in s) = at_level EncryptionLevelHandshake (bs_out s) \<and>
     length (bs_in s) = 1"
proof
  fix c :: Connection
  let ?l = EncryptionLevelHandshake
  let ?p = "\<lparr>ip_PacketContext = zero_PacketContext, ip_Payload = [1]\<rparr>"
  let ?s0 = "\<lparr>bs_agent = buffer_Run, bs_conn = c, bs_in = [], bs_out = []\<rparr>"
  let ?a1 = "buffer_Run\<lparr>unprocessedPayloads := (\<lambda>_. [])(?l := [?p])\<rparr>"
  let ?s1 = "?s0\<lparr>bs_agent := ?a1, bs_conn := submit_payloads [] c, bs_in := [(?l, ?p)]\<rparr>"
  let ?a2 = "?a1\<lparr>encryptionLevelsAvailable := (\<lambda>_. False)(?l := True), unprocessedPayloads := \<lambda>_. []\<rparr>"
  let ?s2 = "?s1\<lparr>bs_agent := ?a2, bs_conn := submit_payloads [mark_buffered ?p] (submit_payloads [] c),
      bs_out := [(?l, mark_buffered ?p)]\<rparr>"
  have "reachable buffer_init buffer_step ?s0" by (rule reachable.start) (simp add: buffer_init_def)
  moreover have "buffer_step ?s0 (BufPayload \<lparr>up_IncomingPayload = ?p, up_EncryptionLevel = ?l\<rparr>) ?s1"
    using payload [of "\<lparr>up_IncomingPayload = ?p, up_EncryptionLevel = ?l\<rparr>" ?s0 "[]" ?a1]
    by (simp add: buffer_payload_def buffer_Run_def)
  ultimately have "reachable buffer_init buffer_step ?s1" by (rule reachable.onward)
  moreover have "buffer_step ?s1 (BufLevel \<lparr>del_EncryptionLevel = ?l, del_Read = True, del_Available = True\<rparr>) ?s2"
    using level [of "\<lparr>del_EncryptionLevel = ?l, del_Read = True, del_Available = True\<rparr>" ?s1 "[mark_buffered ?p]" ?a2]
    by (simp add: buffer_level_def buffer_Run_def fun_upd_idem)
  ultimately have r: "reachable buffer_init buffer_step ?s2" by (rule reachable.onward)
  with buffer_keeps_order [OF r, of ?l] show "\<exists>s. reachable buffer_init buffer_step s \<and>
      bs_conn s = submit_payloads [mark_buffered ?p] (submit_payloads [] c) \<and>
      at_level ?l (bs_in s) = at_level ?l (bs_out s) \<and> length (bs_in s) = 1" by force
qed

end
