(* ===== verification/TlsAgents.thy ===== *)
theory TlsAgents
  imports ConnOps
begin

text \<open>
  The agent that drives the TLS stack (\<^verbatim>\<open>agents/tls_agent.go\<close>). The stack is the parameter of theory ConnOps; its state is passed
  along. What the agent broadcasts itself (its status, resumption tickets) is a log in its record.

  Result: a level is announced once, and exactly when its key is installed.
\<close>

section \<open>The TLS agent\<close>

record TLSStatus =
  tst_Completed :: bool
  tst_Packet :: Packet
  tst_Error :: "go_error option"

text \<open>\<open>ta_read p\<close> counts what the agent has taken from the channel it registered with the crypto stream of space \<open>p\<close>.\<close>

record TLSAgent =
  ta_TLSStatus :: "TLSStatus list"
  ta_ResumptionTicket :: "bytes list"
  ta_DisableFrameSending :: bool
  ta_levels :: "DirectionalEncryptionLevel list"
  ta_read :: "PNSpace \<Rightarrow> nat"

definition tls_levels :: "DirectionalEncryptionLevel list" where
  "tls_levels =
     [\<lparr>del_EncryptionLevel = EncryptionLevelHandshake, del_Read = False, del_Available = False\<rparr>,
      \<lparr>del_EncryptionLevel = EncryptionLevelHandshake, del_Read = True, del_Available = False\<rparr>,
      \<lparr>del_EncryptionLevel = EncryptionLevel1RTT, del_Read = False, del_Available = False\<rparr>,
      \<lparr>del_EncryptionLevel = EncryptionLevel1RTT, del_Read = True, del_Available = False\<rparr>]"

definition received_chunks :: "PNSpace \<Rightarrow> Connection \<Rightarrow> bytes list" where
  "received_chunks space c = submitted (ReadChan (fst (CryptoStreams_Get space (c_CryptoStreams c))))"

text \<open>\<^verbatim>\<open>Run\<close> makes the three crypto streams and registers with them.\<close>

definition tls_Run :: "bool \<Rightarrow> Connection \<Rightarrow> TLSAgent \<times> Connection" where
  "tls_Run disable c =
     (\<lparr>ta_TLSStatus = [], ta_ResumptionTicket = [], ta_DisableFrameSending = disable, ta_levels = tls_levels,
       ta_read = \<lambda>space. length (received_chunks space c)\<rparr>,
      c\<lparr>c_CryptoStreams := fold (\<lambda>space m. snd (CryptoStreams_Get space m))
          [PNSpaceInitial, PNSpaceHandshake, PNSpaceAppData] (c_CryptoStreams c)\<rparr>)"

text \<open>Taking everything that waits in the channel.\<close>

definition take_chunks :: "PNSpace \<Rightarrow> TLSAgent \<Rightarrow> Connection \<Rightarrow> bytes \<times> TLSAgent" where
  "take_chunks space a c =
     (let chunks = received_chunks space c in
      (concat (drop (ta_read a space) chunks), a\<lparr>ta_read := (ta_read a)(space := length chunks)\<rparr>))"

definition install_handshake :: "'t TlsStack \<Rightarrow> 't \<Rightarrow> Connection \<Rightarrow> Connection" where
  "install_handshake T t c =
     (let cs = (case c_CryptoStates c EncryptionLevelHandshake of None \<Rightarrow> new_CryptoState | Some cs \<Rightarrow> cs);
          cs = (if cs_HeaderRead cs = None \<and> length (ts_HandshakeReadSecret T t) > 0
                then InitRead (ts_Keys T t) (ts_HandshakeReadSecret T t) cs else cs);
          cs = (if cs_HeaderWrite cs = None \<and> length (ts_HandshakeWriteSecret T t) > 0
                then InitWrite (ts_Keys T t) (ts_HandshakeWriteSecret T t) cs else cs)
      in c\<lparr>c_CryptoStates := (c_CryptoStates c)(EncryptionLevelHandshake \<mapsto> cs)\<rparr>)"

definition queue_message :: "bool \<Rightarrow> TlsMessage \<Rightarrow> Connection \<Rightarrow> Connection" where
  "queue_message disable m c =
     (let encLevel = EpochToEncryptionLevel (tm_Epoch m) in
      case put_crypto_frame (EpochToPNSpace (tm_Epoch m)) (tm_Data m) c of (f, c) \<Rightarrow>
      let qf = \<lparr>qf_Frame = Crypto f, qf_EncryptionLevel = encLevel\<rparr>
      in if disable then c\<lparr>c_TlsQueue := (c_TlsQueue c)(encLevel := c_TlsQueue c encLevel @ [qf])\<rparr>
         else submit_frame qf c)"

text \<open>The end of the handshake: keys, then the parameters of the server.\<close>

definition complete ::
    "'t TlsStack \<Rightarrow> 't \<Rightarrow> bool \<Rightarrow> Packet \<Rightarrow> TLSAgent \<Rightarrow> Connection \<Rightarrow> (TLSAgent \<times> Connection) res" where
  "complete T t notCompleted p a c =
     (if \<not> notCompleted \<and> c_CryptoStates c EncryptionLevel1RTT = None then
        (let c = c\<lparr>c_CryptoStates := (c_CryptoStates c)(EncryptionLevel1RTT \<mapsto>
                   NewProtectedCryptoState (ts_Keys T t) (ts_ProtectedReadSecret T t) (ts_ProtectedWriteSecret T t))\<rparr>
         in bind_res (ReceiveExtensionData (ts_ReceivedQUICTransportParameters T t) (c_TLSTPHandler c)) (\<lambda>(err, h).
            let c = c\<lparr>c_TLSTPHandler := h\<rparr> in
            case (err, h_ReceivedParameters h) of
              (Some e, _) \<Rightarrow>
                Inr (a\<lparr>ta_TLSStatus := ta_TLSStatus a @ [\<lparr>tst_Completed = False, tst_Packet = p, tst_Error = Some e\<rparr>]\<rparr>, c)
            | (None, None) \<Rightarrow> Inl NilPointer
            | (None, Some ps) \<Rightarrow>
                Inr (a\<lparr>ta_TLSStatus := ta_TLSStatus a @ [\<lparr>tst_Completed = True, tst_Packet = p, tst_Error = None\<rparr>]\<rparr>,
                     c\<lparr>c_TransportParameters := c_TransportParameters c @ [ps]\<rparr>)))
      else Inr (a, c))"

definition has_key :: "DirectionalEncryptionLevel \<Rightarrow> Connection \<Rightarrow> bool" where
  "has_key e c \<longleftrightarrow>
     (case c_CryptoStates c (del_EncryptionLevel e) of
        None \<Rightarrow> False
      | Some cs \<Rightarrow> (del_Read e \<and> cs_HeaderRead cs \<noteq> None) \<or> (\<not> del_Read e \<and> cs_HeaderWrite cs \<noteq> None))"

fun announce :: "DirectionalEncryptionLevel list \<Rightarrow> Connection \<Rightarrow> DirectionalEncryptionLevel list \<times> Connection" where
  "announce [] c = ([], c)"
| "announce (e # es) c =
     (if \<not> del_Available e \<and> has_key e c
      then (case announce es (submit_level (e\<lparr>del_Available := True\<rparr>) c) of (es, c) \<Rightarrow> (e\<lparr>del_Available := True\<rparr> # es, c))
      else (case announce es c of (es, c) \<Rightarrow> (e # es, c)))"

text \<open>
  The branch for incoming packets. The ticket is submitted each time: the flag \<^verbatim>\<open>resumptionTicketSent\<close> is never set.
\<close>

definition tls_incoming ::
    "'t TlsStack \<Rightarrow> Packet \<Rightarrow> TLSAgent \<Rightarrow> 't \<Rightarrow> Connection \<Rightarrow> (TLSAgent \<times> 't \<times> Connection) res" where
  "tls_incoming T p a t c =
     (case framer p of
        None \<Rightarrow> Inr (a, t, c)
      | Some _ \<Rightarrow>
          (case take_chunks (Packet_PNSpace p) a c of (handshakeData, a) \<Rightarrow>
           if length handshakeData > 0 then
             (case ts_HandleMessage T handshakeData (PNSpaceToEpoch (Packet_PNSpace p)) t of
                ((tlsOutput, notCompleted, err), t) \<Rightarrow>
              let a = (case err of None \<Rightarrow> a
                       | Some e \<Rightarrow> a\<lparr>ta_TLSStatus := ta_TLSStatus a @
                           [\<lparr>tst_Completed = False, tst_Packet = p, tst_Error = Some (ErrorString e)\<rparr>]\<rparr>);
                  c = fold (queue_message (ta_DisableFrameSending a)) tlsOutput (install_handshake T t c)
              in bind_res (complete T t notCompleted p a c) (\<lambda>(a, c).
                 case announce (ta_levels a) c of (es, c) \<Rightarrow>
                 let a = a\<lparr>ta_levels := es\<rparr>;
                     a = (if length (ts_ResumptionTicket T t) > 0
                          then a\<lparr>ta_ResumptionTicket := ta_ResumptionTicket a @ [ts_ResumptionTicket T t]\<rparr> else a)
                 in Inr (a, t, c)))
           else Inr (a, t, c)))"

text \<open>
  The branch of \<^verbatim>\<open>SendFromQueue\<close>. A nil crypto frame would be queued and dereferenced by the frame queue: it counts as a panic here.
\<close>

definition tls_send ::
    "'t TlsStack \<Rightarrow> EncryptionLevel \<Rightarrow> 't \<Rightarrow> Connection \<Rightarrow> ('t \<times> Connection) res" where
  "tls_send T encLevel t c =
     (case c_TlsQueue c encLevel of
        qf # qfs \<Rightarrow> Inr (t, (submit_frame qf c)\<lparr>c_TlsQueue := (c_TlsQueue c)(encLevel := qfs)\<rparr>)
      | [] \<Rightarrow>
          bind_res (GetCryptoFrame T encLevel t c) (\<lambda>(f, t, c).
          case f of
            None \<Rightarrow> Inl NilPointer
          | Some f \<Rightarrow> Inr (t, submit_frame \<lparr>qf_Frame = Crypto f, qf_EncryptionLevel = encLevel\<rparr> c)))"

text \<open>
  The other agents may change the connection between two steps, above all the crypto streams, but leave the keys and the channel
  of encryption levels alone.
\<close>

datatype tls_event = TlsIncoming Packet | TlsSend EncryptionLevel | TlsOther

inductive tls_step ::
    "'t TlsStack \<Rightarrow> TLSAgent \<times> 't \<times> Connection \<Rightarrow> tls_event \<Rightarrow> TLSAgent \<times> 't \<times> Connection \<Rightarrow> bool" for T where
  incoming: "tls_incoming T p a t c = Inr (a', t', c') \<Longrightarrow> tls_step T (a, t, c) (TlsIncoming p) (a', t', c')"
| send: "tls_send T l t c = Inr (t', c') \<Longrightarrow> tls_step T (a, t, c) (TlsSend l) (a, t', c')"
| other: "c_CryptoStates c' = c_CryptoStates c \<Longrightarrow> c_EncryptionLevels c' = c_EncryptionLevels c \<Longrightarrow>
    tls_step T (a, t, c) TlsOther (a, t, c')"

definition tls_init :: "TLSAgent \<times> 't \<times> Connection \<Rightarrow> bool" where
  "tls_init = (\<lambda>(a, t, c). c_EncryptionLevels c = [] \<and> c_CryptoStates c EncryptionLevelHandshake = None \<and>
     c_CryptoStates c EncryptionLevel1RTT = None \<and> (\<exists>disable c0. (a, c) = tls_Run disable c0))"

section \<open>Announced levels\<close>

definition not_early :: "DirectionalEncryptionLevel \<Rightarrow> bool" where
  "not_early d \<longleftrightarrow> del_EncryptionLevel d \<noteq> EncryptionLevel0RTT"

definition announced :: "Connection \<Rightarrow> DirectionalEncryptionLevel list" where
  "announced c = filter not_early (c_EncryptionLevels c)"

text \<open>Early data is only written: a key to read it is not kept, and never announced.\<close>

definition kept_key :: "DirectionalEncryptionLevel \<Rightarrow> bool" where
  "kept_key d \<longleftrightarrow> not_early d \<or> \<not> del_Read d"

definition keys_grow :: "Connection \<Rightarrow> Connection \<Rightarrow> bool" where
  "keys_grow c c' \<longleftrightarrow> (\<forall>e. kept_key e \<longrightarrow> has_key e c \<longrightarrow> has_key e c')"

lemma keys_grow_refl [simp]: "keys_grow c c"
  by (simp add: keys_grow_def)

lemma keys_grow_trans [trans]: "keys_grow c d \<Longrightarrow> keys_grow d e \<Longrightarrow> keys_grow c e"
  by (simp add: keys_grow_def)

lemma keys_grow_same: "c_CryptoStates c' = c_CryptoStates c \<Longrightarrow> keys_grow c c'"
  by (simp add: keys_grow_def has_key_def)

lemma keys_grow_new: "c_CryptoStates c l = None \<Longrightarrow> keys_grow c (c\<lparr>c_CryptoStates := (c_CryptoStates c)(l \<mapsto> cs)\<rparr>)"
  by (auto simp: keys_grow_def has_key_def split: option.splits)

lemma install_handshake_grow: "keys_grow c (install_handshake T t c)"
  by (auto simp: keys_grow_def has_key_def install_handshake_def Let_def InitRead_def InitWrite_def split: option.splits)

lemma queue_messages_keep:
  "c_CryptoStates (fold (queue_message d) ms c) = c_CryptoStates c \<and>
   c_EncryptionLevels (fold (queue_message d) ms c) = c_EncryptionLevels c"
  by (induction ms arbitrary: c)
    (auto simp: queue_message_def put_crypto_frame_def submit_frame_def Let_def split: prod.splits)

lemma complete_keep:
  assumes "complete T t nc p a c = Inr (a', c')"
  shows "keys_grow c c' \<and> c_EncryptionLevels c' = c_EncryptionLevels c \<and> ta_levels a' = ta_levels a"
proof (cases "\<not> nc \<and> c_CryptoStates c EncryptionLevel1RTT = None")
  case True
  let ?c = "c\<lparr>c_CryptoStates := (c_CryptoStates c)(EncryptionLevel1RTT \<mapsto>
      NewProtectedCryptoState (ts_Keys T t) (ts_ProtectedReadSecret T t) (ts_ProtectedWriteSecret T t))\<rparr>"
  have "c_CryptoStates c' = c_CryptoStates ?c" "c_EncryptionLevels c' = c_EncryptionLevels c" "ta_levels a' = ta_levels a"
    using assms True by (auto simp: complete_def Let_def split: option.splits)
  moreover have "keys_grow c ?c" using True by (intro keys_grow_new) simp
  ultimately show ?thesis using keys_grow_trans keys_grow_same by blast
qed (use assms in \<open>auto simp: complete_def split: if_splits\<close>)

lemma announce_spec:
  "announce es c =
     (map (\<lambda>e. if has_key e c then e\<lparr>del_Available := True\<rparr> else e) es,
      c\<lparr>c_EncryptionLevels := c_EncryptionLevels c @
          map (\<lambda>e. e\<lparr>del_Available := True\<rparr>) (filter (\<lambda>e. \<not> del_Available e \<and> has_key e c) es)\<rparr>)"
proof (induction es arbitrary: c)
  case (Cons e es)
  have "has_key d (submit_level x c) = has_key d c" for d x by (simp add: has_key_def submit_level_def)
  with Cons show ?case by (auto simp: submit_level_def)
qed simp

lemma announced_available:
  "mset (filter del_Available (map (\<lambda>e. if K e then e\<lparr>del_Available := True\<rparr> else e) es)) =
   mset (filter del_Available es) + mset (map (\<lambda>e. e\<lparr>del_Available := True\<rparr>) (filter (\<lambda>e. \<not> del_Available e \<and> K e) es))"
  by (induction es) auto

definition level_keys :: "DirectionalEncryptionLevel list \<Rightarrow> (EncryptionLevel \<times> bool) list" where
  "level_keys es = map (\<lambda>e. (del_EncryptionLevel e, del_Read e)) es"

text \<open>The invariant: the announcements are those of the levels with keys, each once.\<close>

definition tls_inv :: "TLSAgent \<times> 't \<times> Connection \<Rightarrow> bool" where
  "tls_inv = (\<lambda>(a, t, c). level_keys (ta_levels a) = level_keys tls_levels \<and>
     (\<forall>e\<in>set (ta_levels a). del_Available e \<longleftrightarrow> has_key e c) \<and>
     mset (announced c) = mset (filter del_Available (ta_levels a)) \<and>
     (\<forall>e\<in>set (c_EncryptionLevels c). kept_key e \<and> has_key e c))"

lemma has_key_upd [simp]: "has_key (e\<lparr>del_Available := b\<rparr>) c = has_key e c"
  by (simp add: has_key_def split: option.split)

lemma kept_key_upd [simp]: "kept_key (e\<lparr>del_Available := b\<rparr>) = kept_key e" "not_early (e\<lparr>del_Available := b\<rparr>) = not_early e"
  by (simp_all add: kept_key_def not_early_def)

lemma level_keys_upd: "level_keys (map (\<lambda>e. if K e then e\<lparr>del_Available := True\<rparr> else e) es) = level_keys es"
  by (simp add: level_keys_def)

lemma tls_levels_not_early: "level_keys es = level_keys tls_levels \<Longrightarrow> e \<in> set es \<Longrightarrow> not_early e"
proof -
  assume "level_keys es = level_keys tls_levels" "e \<in> set es"
  then have "(del_EncryptionLevel e, del_Read e) \<in> set (level_keys tls_levels)"
    by (metis (no_types, lifting) image_eqI level_keys_def list.set_map)
  then show ?thesis by (auto simp: level_keys_def tls_levels_def not_early_def)
qed

text \<open>Announcing brings the list of the agent up to date after keys were installed.\<close>

lemma announce_inv:
  assumes "tls_inv (a, t, c)" "keys_grow c c1" "c_EncryptionLevels c1 = c_EncryptionLevels c" "announce (ta_levels a) c1 = (es, c2)"
    "ta_levels a' = es"
  shows "tls_inv (a', t', c2)"
proof -
  have lk: "level_keys (ta_levels a) = level_keys tls_levels" and av: "\<forall>e\<in>set (ta_levels a). del_Available e = has_key e c"
    using assms(1) by (auto simp: tls_inv_def)
  have ne: "\<forall>e\<in>set (ta_levels a). not_early e" using tls_levels_not_early [OF lk] by blast
  have es: "es = map (\<lambda>e. if has_key e c1 then e\<lparr>del_Available := True\<rparr> else e) (ta_levels a)"
    and c2: "c2 = c1\<lparr>c_EncryptionLevels := c_EncryptionLevels c1 @
          map (\<lambda>e. e\<lparr>del_Available := True\<rparr>) (filter (\<lambda>e. \<not> del_Available e \<and> has_key e c1) (ta_levels a))\<rparr>"
    using assms(4) by (simp_all add: announce_spec)
  have hk: "has_key e c2 = has_key e c1" for e by (simp add: c2 has_key_def)
  have grow: "has_key e c1" if "has_key e c" "kept_key e" for e using that assms(2) by (simp add: keys_grow_def)
  have "filter not_early (map (\<lambda>e. e\<lparr>del_Available := True\<rparr>) (filter P (ta_levels a))) =
      map (\<lambda>e. e\<lparr>del_Available := True\<rparr>) (filter P (ta_levels a))" for P
    using ne by (auto simp: filter_id_conv)
  then have "mset (announced c2) = mset (announced c) +
      mset (map (\<lambda>e. e\<lparr>del_Available := True\<rparr>) (filter (\<lambda>e. \<not> del_Available e \<and> has_key e c1) (ta_levels a)))"
    using assms(3) by (simp add: announced_def c2)
  then have "mset (announced c2) = mset (filter del_Available es)"
    using assms(1) unfolding es announced_available by (simp add: tls_inv_def)
  moreover have "\<forall>e\<in>set es. del_Available e = has_key e c2"
    using av ne grow by (auto simp: es hk kept_key_def)
  moreover have "\<forall>e\<in>set (c_EncryptionLevels c2). kept_key e \<and> has_key e c2"
    using assms(1,3) ne grow unfolding hk by (auto simp: c2 tls_inv_def kept_key_def)
  moreover have "level_keys es = level_keys tls_levels" using lk by (simp add: es level_keys_upd)
  ultimately show ?thesis by (simp add: tls_inv_def assms(5))
qed

lemma GetCryptoFrame_cases:
  assumes "GetCryptoFrame T l t c = Inr (f, t', c')"
  obtains "c' = c"
  | m where "c' = c\<lparr>c_CryptoStreams := m\<rparr>"
  | m where "ts_ZeroRTTSecret T t' \<noteq> []" "c' = submit_level \<lparr>del_EncryptionLevel = EncryptionLevel0RTT, del_Read = False, del_Available = True\<rparr>
      (c\<lparr>c_CryptoStreams := m, c_CryptoStates := (c_CryptoStates c)(EncryptionLevel0RTT \<mapsto>
        NewProtectedCryptoState (ts_Keys T t') [] (ts_ZeroRTTSecret T t'))\<rparr>)"
proof -
  from assms obtain ext where ext: "GetExtensionData (c_TLSTPHandler c) = Inr ext"
    by (auto simp: GetCryptoFrame_def)
  obtain ms nc err t1 where "ts_HandleMessage T [] (EncryptionLevelToEpoch l) (ts_SetQUICTransportParameters T ext t) =
      ((ms, nc, err), t1)"
    by (metis prod.exhaust)
  with assms ext that show thesis
    by (simp add: GetCryptoFrame_def Let_def put_crypto_frame_def split: if_splits prod.splits) auto
qed

lemma GetCryptoFrame_keep:
  assumes "GetCryptoFrame T l t c = Inr (f, t', c')"
  shows "keys_grow c c' \<and> announced c' = announced c \<and>
    (\<forall>e. not_early e \<longrightarrow> has_key e c' = has_key e c) \<and>
    (\<forall>e\<in>set (c_EncryptionLevels c'). e \<in> set (c_EncryptionLevels c) \<or> kept_key e \<and> has_key e c')"
  using assms
  by (cases rule: GetCryptoFrame_cases)
    (auto simp: submit_level_def announced_def keys_grow_def kept_key_def not_early_def has_key_def
      NewProtectedCryptoState_def InitWrite_def)

lemma tls_send_inv: "tls_inv (a, t, c) \<Longrightarrow> tls_send T l t c = Inr (t', c') \<Longrightarrow> tls_inv (a, t', c')"
proof (cases "c_TlsQueue c l")
  case Nil
  assume inv: "tls_inv (a, t, c)" and "tls_send T l t c = Inr (t', c')"
  with Nil obtain f c1 where f: "GetCryptoFrame T l t c = Inr (Some f, t', c1)"
    "c' = submit_frame \<lparr>qf_Frame = Crypto f, qf_EncryptionLevel = l\<rparr> c1"
    by (auto simp: tls_send_def split: option.splits)
  have "announced c' = announced c1" "c_EncryptionLevels c' = c_EncryptionLevels c1" "has_key e c' = has_key e c1" for e
    by (simp_all add: f(2) submit_frame_def announced_def has_key_def)
  with GetCryptoFrame_keep [OF f(1)] inv show ?thesis
    using tls_levels_not_early [of "ta_levels a"] by (auto simp: tls_inv_def keys_grow_def)
qed (auto simp: tls_send_def submit_frame_def tls_inv_def announced_def has_key_def)

text \<open>Handling a message: keys, the end of the handshake, the announcement.\<close>

lemma tls_incoming_cases:
  assumes "tls_incoming T p a t c = Inr (a', t', c')"
  obtains (idle) "c' = c" "ta_levels a' = ta_levels a" "ta_TLSStatus a' = ta_TLSStatus a"
  | (handled) ms nc a1 a2 c2 where "complete T t' nc p a1 (fold (queue_message (ta_DisableFrameSending a)) ms (install_handshake T t' c))
      = Inr (a2, c2)" "announce (ta_levels a2) c2 = (ta_levels a', c')" "ta_levels a1 = ta_levels a" "ta_TLSStatus a' = ta_TLSStatus a2"
      "\<forall>s\<in>set (ta_TLSStatus a1) - set (ta_TLSStatus a). \<not> tst_Completed s"
proof (cases "framer p = None \<or> length (fst (take_chunks (Packet_PNSpace p) a c)) = 0")
  case True
  then show thesis
    using assms by (intro idle) (auto simp: tls_incoming_def take_chunks_def Let_def split: option.splits)
next
  case False
  let ?d = "fst (take_chunks (Packet_PNSpace p) a c)" and ?a0 = "snd (take_chunks (Packet_PNSpace p) a c)"
  obtain q where q: "framer p = Some q" using False by auto
  obtain ms nc err t1 where hm: "ts_HandleMessage T ?d (PNSpaceToEpoch (Packet_PNSpace p)) t = ((ms, nc, err), t1)"
    by (metis prod.exhaust)
  let ?c1 = "fold (queue_message (ta_DisableFrameSending a)) ms (install_handshake T t1 c)"
  define a1 where "a1 = (case err of None \<Rightarrow> ?a0
      | Some e \<Rightarrow> ?a0\<lparr>ta_TLSStatus := ta_TLSStatus ?a0 @
          [\<lparr>tst_Completed = False, tst_Packet = p, tst_Error = Some (ErrorString e)\<rparr>]\<rparr>)"
  have a1: "ta_levels a1 = ta_levels a" "ta_DisableFrameSending a1 = ta_DisableFrameSending a"
    "\<forall>s\<in>set (ta_TLSStatus a1) - set (ta_TLSStatus a). \<not> tst_Completed s"
    by (auto simp: a1_def take_chunks_def Let_def split: option.splits)
  have "bind_res (complete T t1 nc p a1 ?c1) (\<lambda>(a, c). case announce (ta_levels a) c of (es, c) \<Rightarrow>
      let a = a\<lparr>ta_levels := es\<rparr>;
          a = (if length (ts_ResumptionTicket T t1) > 0
               then a\<lparr>ta_ResumptionTicket := ta_ResumptionTicket a @ [ts_ResumptionTicket T t1]\<rparr> else a)
      in Inr (a, t1, c)) = Inr (a', t', c')"
    using assms False hm a1(2)
    by (simp add: tls_incoming_def q case_prod_beta Let_def flip: a1_def)
  then obtain a2 c2 where "complete T t1 nc p a1 ?c1 = Inr (a2, c2)"
    "announce (ta_levels a2) c2 = (ta_levels a', c')" "ta_TLSStatus a' = ta_TLSStatus a2" "t1 = t'"
    by (auto simp: Let_def case_prod_beta prod_eq_iff split: if_splits)
  with a1 show thesis by (intro handled) auto
qed

lemma tls_incoming_inv:
  assumes "tls_inv (a, t, c)" "tls_incoming T p a t c = Inr (a', t', c')"
  shows "tls_inv (a', t', c')"
  using assms(2)
proof (cases rule: tls_incoming_cases)
  case idle
  with assms(1) show ?thesis by (simp add: tls_inv_def)
next
  case (handled ms nc a1 a2 c2)
  let ?c1 = "fold (queue_message (ta_DisableFrameSending a)) ms (install_handshake T t' c)"
  have "keys_grow c ?c1"
    by (rule keys_grow_trans [OF install_handshake_grow keys_grow_same]) (simp add: queue_messages_keep)
  moreover have "c_EncryptionLevels ?c1 = c_EncryptionLevels c"
    by (simp add: queue_messages_keep) (simp add: install_handshake_def Let_def)
  ultimately have "keys_grow c c2" "c_EncryptionLevels c2 = c_EncryptionLevels c" "ta_levels a2 = ta_levels a"
    using complete_keep [OF handled(1)] keys_grow_trans handled(3) by auto
  with announce_inv [OF assms(1)] handled(2) show ?thesis by metis
qed

text \<open>The end of the handshake is reported without an error.\<close>

definition status_ok :: "TLSAgent \<times> 't \<times> Connection \<Rightarrow> bool" where
  "status_ok s \<longleftrightarrow> (\<forall>st\<in>set (ta_TLSStatus (fst s)). tst_Completed st \<longrightarrow> tst_Error st = None)"

lemma complete_status:
  assumes "complete T t nc p a c = Inr (a', c')"
  shows "\<forall>st\<in>set (ta_TLSStatus a') - set (ta_TLSStatus a). tst_Completed st \<longrightarrow> tst_Error st = None"
proof (cases "\<not> nc \<and> c_CryptoStates c EncryptionLevel1RTT = None")
  case True
  obtain h err where "ReceiveExtensionData (ts_ReceivedQUICTransportParameters T t) (c_TLSTPHandler c) = Inr (err, h)"
    using assms True by (auto simp: complete_def Let_def)
  with assms True show ?thesis by (auto simp: complete_def Let_def split: option.splits)
qed (use assms in \<open>auto simp: complete_def split: if_splits\<close>)

lemma tls_incoming_status:
  assumes "status_ok (a, t, c)" "tls_incoming T p a t c = Inr (a', t', c')"
  shows "status_ok (a', t', c')"
  using assms(2)
proof (cases rule: tls_incoming_cases)
  case (handled ms nc a1 a2 c2)
  with assms(1) complete_status [OF handled(1)] show ?thesis by (auto simp: status_ok_def)
qed (use assms(1) in \<open>simp add: status_ok_def\<close>)

lemma tls_Run_inv: "tls_init (a, t, c) \<Longrightarrow> tls_inv (a, t, c)"
  by (auto simp: tls_init_def tls_inv_def tls_Run_def tls_levels_def has_key_def announced_def)

lemma tls_other_inv:
  "tls_inv (a, t, c) \<Longrightarrow> c_CryptoStates c' = c_CryptoStates c \<Longrightarrow> c_EncryptionLevels c' = c_EncryptionLevels c \<Longrightarrow>
   tls_inv (a, t, c')"
  by (simp add: tls_inv_def announced_def has_key_def)

interpretation tls: machine tls_init "tls_step T" tls_inv for T
  by unfold_locales (auto elim!: tls_step.cases intro: tls_Run_inv tls_send_inv tls_incoming_inv tls_other_inv)

interpretation tls_reports: machine tls_init "tls_step T" status_ok for T
proof
  show "status_ok s'" if "status_ok s" "tls_step T s e s'" for s e s'
    using that(2)
  proof cases
    case (incoming p a t c a' t' c')
    with that(1) show ?thesis by (simp add: tls_incoming_status)
  qed (use that(1) in \<open>simp_all add: status_ok_def\<close>)
qed (auto simp: tls_init_def status_ok_def tls_Run_def)

lemma announced_exactly:
  assumes "reachable tls_init (tls_step T) (a, t, c)"
  shows "set (announced c) = {e. \<exists>d\<in>set tls_levels. e = d\<lparr>del_Available := True\<rparr> \<and> has_key e c} \<and>
    distinct (announced c) \<and> (\<forall>e\<in>set (c_EncryptionLevels c). has_key e c)"
proof -
  have inv: "level_keys (ta_levels a) = level_keys tls_levels" "\<forall>e\<in>set (ta_levels a). del_Available e \<longleftrightarrow> has_key e c"
    "mset (announced c) = mset (filter del_Available (ta_levels a))" "\<forall>e\<in>set (c_EncryptionLevels c). kept_key e \<and> has_key e c"
    using tls.inv_reachable [OF assms] by (auto simp: tls_inv_def)
  have key: "(\<lambda>e. e\<lparr>del_Available := True\<rparr>) = (\<lambda>(l, r). \<lparr>del_EncryptionLevel = l, del_Read = r, del_Available = True\<rparr>) \<circ> 
      (\<lambda>e. (del_EncryptionLevel e, del_Read e))"
    by (auto simp: fun_eq_iff)
  have up: "map (\<lambda>e. e\<lparr>del_Available := True\<rparr>) (ta_levels a) = map (\<lambda>e. e\<lparr>del_Available := True\<rparr>) tls_levels"
    using inv(1) unfolding key level_keys_def by (metis list.map_comp)
  have s: "set (announced c) = {e\<in>set (ta_levels a). del_Available e}" using mset_eq_setD [OF inv(3)] by simp
  have "e \<in> set (announced c) \<longleftrightarrow> e \<in> (\<lambda>e. e\<lparr>del_Available := True\<rparr>) ` set (ta_levels a) \<and> has_key e c" for e
  proof
    assume "e \<in> set (announced c)"
    then have "e \<in> set (ta_levels a)" "del_Available e" using s by auto
    then show "e \<in> (\<lambda>e. e\<lparr>del_Available := True\<rparr>) ` set (ta_levels a) \<and> has_key e c"
      using inv(2) by (auto intro: image_eqI [of _ _ e])
  next
    assume "e \<in> (\<lambda>e. e\<lparr>del_Available := True\<rparr>) ` set (ta_levels a) \<and> has_key e c"
    then obtain d where d: "e = d\<lparr>del_Available := True\<rparr>" "d \<in> set (ta_levels a)" "has_key d c" by auto
    then have "del_Available d" using inv(2) by blast
    then have "e = d" using d(1) by simp
    with d s \<open>del_Available d\<close> show "e \<in> set (announced c)" by simp
  qed
  then have "set (announced c) = {e. \<exists>d\<in>set tls_levels. e = d\<lparr>del_Available := True\<rparr> \<and> has_key e c}"
    using arg_cong [OF up, of set] by auto
  moreover have "distinct (level_keys (ta_levels a))"
    unfolding inv(1) by (simp add: level_keys_def tls_levels_def)
  then have "distinct (filter del_Available (ta_levels a))"
    by (simp add: level_keys_def distinct_map)
  then have "distinct (announced c)" using mset_eq_imp_distinct_iff [OF inv(3)] by simp
  ultimately show ?thesis using inv(4) by blast
qed


text \<open>A stack with handshake keys, and the run that installs them when the first bytes of the server arrive.\<close>

definition key_stack :: "unit TlsStack" where
  "key_stack = plain_stack\<lparr>ts_HandleMessage := \<lambda>_ _ _. (([], True, None), ()), ts_HandshakeReadSecret := \<lambda>_. [1],
     ts_HandshakeWriteSecret := \<lambda>_. [2]\<rparr>"

definition server_hello :: "Connection \<Rightarrow> Connection" where
  "server_hello c = c\<lparr>c_CryptoStreams := (c_CryptoStreams c)(PNSpaceInitial \<mapsto>
     (NewStream)\<lparr>ReadChan := NewBroadcaster\<lparr>submitted := [[2, 0, 0]]\<rparr>\<rparr>)\<rparr>"

definition initial_packet :: Packet where
  "initial_packet = InitialP (new_FramePacket (Long \<lparr>lh_PacketType = Initial, lh_LowerBits = 0, lh_Version = MaximumVersion,
     lh_DestinationCID = [1, 2], lh_SourceCID = [6, 7], lh_TokenLength = zero_VarInt, lh_Token = [], lh_Length = zero_VarInt,
     lh_PacketNumber = 0, lh_TruncatedPN = \<lparr>tpn_Value = 0, tpn_Length = 1\<rparr>\<rparr>) [])"

text \<open>A fresh connection on which the first bytes of the server wait.\<close>

lemma run_to_hello:
  obtains a c where "reachable tls_init (tls_step T) (a, (), server_hello c)" "c_CryptoStates c EncryptionLevelHandshake = None"
    "c_CryptoStates c EncryptionLevel1RTT = None" "c_EncryptionLevels c = []" "ta_read a PNSpaceInitial = 0" "ta_levels a = tls_levels"
    "ta_DisableFrameSending a = False" "ta_TLSStatus a = []" "c_OriginalDestinationCID c = [3, 4, 5]"
    "c_TLSTPHandler c = NewTLSTransportParameterHandler [1, 2]"
proof -
  obtain a c where run: "tls_Run False first_connection = (a, c)" by (metis prod.exhaust)
  have fresh: "c_CryptoStates c EncryptionLevelHandshake = None" "c_CryptoStates c EncryptionLevel1RTT = None"
    "c_EncryptionLevels c = []" "ta_read a PNSpaceInitial = 0" "ta_levels a = tls_levels" "ta_DisableFrameSending a = False"
    "ta_TLSStatus a = []" "c_OriginalDestinationCID c = [3, 4, 5]" "c_TLSTPHandler c = NewTLSTransportParameterHandler [1, 2]"
    using run by (auto simp: tls_Run_def first_connection_def NewConnection_def TransitionTo_def Let_def zero_Connection_def
        received_chunks_def CryptoStreams_Get_def NewStream_def NewBroadcaster_def)
  have "reachable tls_init (tls_step T) (a, (), c)"
    by (rule reachable.start) (use run fresh in \<open>auto simp: tls_init_def intro!: exI [of _ False] exI [of _ first_connection]\<close>)
  moreover have "tls_step T (a, (), c) TlsOther (a, (), server_hello c)"
    by (rule tls_step.other) (simp_all add: server_hello_def)
  ultimately have "reachable tls_init (tls_step T) (a, (), server_hello c)" by (rule reachable.onward)
  with fresh that show thesis by blast
qed

lemma run_to_keys:
  obtains a c where "reachable tls_init (tls_step key_stack) (a, (), c)" "length (announced c) = 2"
    "has_key (tls_levels ! 1) c"
proof -
  obtain a0 c0 where r1: "reachable tls_init (tls_step key_stack) (a0, (), server_hello c0)" and fresh:
    "c_CryptoStates c0 EncryptionLevelHandshake = None" "c_CryptoStates c0 EncryptionLevel1RTT = None"
    "c_EncryptionLevels c0 = []" "ta_read a0 PNSpaceInitial = 0" "ta_levels a0 = tls_levels" "ta_DisableFrameSending a0 = False"
    using run_to_hello [of key_stack] by metis
  obtain a2 c2 where in1: "tls_incoming key_stack initial_packet a0 () (server_hello c0) = Inr (a2, (), c2)"
    and ann: "length (announced c2) = 2" "has_key (tls_levels ! 1) c2"
    using fresh
    by (simp add: tls_incoming_def initial_packet_def take_chunks_def received_chunks_def server_hello_def
        CryptoStreams_Get_def Let_def key_stack_def plain_stack_def install_handshake_def complete_def announce_spec tls_levels_def
        has_key_def new_CryptoState_def InitRead_def InitWrite_def announced_def not_early_def)
  have "reachable tls_init (tls_step key_stack) (a2, (), c2)"
    by (rule reachable.onward [OF r1]) (rule tls_step.incoming [OF in1])
  with ann that show thesis by blast
qed


end
