(* ===== verification/Handshakes.thy ===== *)
theory Handshakes
  imports TlsAgents
begin

text \<open>
  The agent that drives the handshake (\<^verbatim>\<open>agents/handshake_agent.go\<close>): one definition per branch of its select loop, and the loop as a
  machine. The statuses it broadcasts are a log in its record.

  Results: after a Retry the next Initial packet carries the token and goes to the identifier the server chose, under keys derived from
  it and with the next packet number; only one Retry is followed; and the connection identifiers among the transport parameters of
  the server are never checked, because the TLS agent reports no error together with the end of the handshake.
\<close>

section \<open>The agent\<close>

record HandshakeStatus =
  hst_Completed :: bool
  hst_Packet :: "Packet option"
  hst_Error :: "go_error option"

text \<open>
  The fields of the struct, then the variables of \<^verbatim>\<open>Run\<close>. \<open>ha_incPackets\<close> and \<open>ha_outPackets\<close> tell whether the agent is registered with
  the channels of packets (what waits in a channel can still be read after that), \<open>ha_running\<close> whether the loop goes on, and
  \<open>ha_restart\<close> whether the channel \<^verbatim>\<open>conn.ConnectionRestart\<close> is closed.
\<close>

record HandshakeAgent =
  ha_HandshakeStatus :: "HandshakeStatus list"
  ha_IgnoreRetry :: bool
  ha_DontDropKeys :: bool
  ha_receivedRetry :: bool
  ha_retrySource :: ConnectionID
  ha_DisableFrameSending :: bool
  ha_firstInitialReceived :: bool
  ha_tlsCompleted :: bool
  ha_tlsPacket :: "Packet option"
  ha_incPackets :: bool
  ha_outPackets :: bool
  ha_running :: bool
  ha_restart :: bool

definition hs_Run :: "bool \<Rightarrow> bool \<Rightarrow> bool \<Rightarrow> HandshakeAgent" where
  "hs_Run ignoreRetry dontDropKeys disableFrameSending =
     \<lparr>ha_HandshakeStatus = [], ha_IgnoreRetry = ignoreRetry, ha_DontDropKeys = dontDropKeys, ha_receivedRetry = False,
      ha_retrySource = [], ha_DisableFrameSending = disableFrameSending, ha_firstInitialReceived = False,
      ha_tlsCompleted = False, ha_tlsPacket = None, ha_incPackets = True, ha_outPackets = True, ha_running = True,
      ha_restart = False\<rparr>"

definition submit_status :: "bool \<Rightarrow> Packet option \<Rightarrow> go_error option \<Rightarrow> HandshakeAgent \<Rightarrow> HandshakeAgent" where
  "submit_status completed p err a =
     a\<lparr>ha_HandshakeStatus := ha_HandshakeStatus a @ [\<lparr>hst_Completed = completed, hst_Packet = p, hst_Error = err\<rparr>]\<rparr>"

text \<open>Closing the channel a second time panics.\<close>

definition close_restart :: "HandshakeAgent \<Rightarrow> HandshakeAgent res" where
  "close_restart a = (if ha_restart a then Inl (PanicString ''close of closed channel'') else Inr (a\<lparr>ha_restart := True\<rparr>))"

definition hs_send_initial :: "'t TlsStack \<Rightarrow> 't \<Rightarrow> Connection \<Rightarrow> ('t \<times> Connection) res" where
  "hs_send_initial T t c =
     bind_res (GetInitialPacket T t c) (\<lambda>(p, t, c).
     Inr (t, submit_send \<lparr>ps_Packet = map_option InitialP p, ps_EncryptionLevel = EncryptionLevelInitial\<rparr> c))"

text \<open>\<open>rnd\<close> and \<open>shared\<close> are the arguments of version negotiation.\<close>

definition hs_version_negotiation ::
    "'t TlsStack \<Rightarrow> bytes \<Rightarrow> bool \<Rightarrow> VersionNegotiationPacket \<Rightarrow> HandshakeAgent \<Rightarrow> 't \<Rightarrow> Connection \<Rightarrow>
     (HandshakeAgent \<times> 't \<times> Connection) res" where
  "hs_version_negotiation T rnd shared p a t c =
     (case ProcessVersionNegotation T rnd shared p c of
        Inl e \<Rightarrow>
          Inr ((submit_status False (Some (VersionNegotiationP p)) (Some (ErrorString e)) a)\<lparr>ha_running := False\<rparr>, t, c)
      | Inr (t, c, _, _) \<Rightarrow> bind_res (close_restart a) (\<lambda>a. Inr (a, t, c)))"

text \<open>\<open>quicVersion\<close> is the global variable \<^verbatim>\<open>QuicVersion\<close>.\<close>

definition hs_retry ::
    "'t TlsStack \<Rightarrow> u32 \<Rightarrow> RetryPacket \<Rightarrow> HandshakeAgent \<Rightarrow> 't \<Rightarrow> Connection \<Rightarrow> (HandshakeAgent \<times> 't \<times> Connection) res" where
  "hs_retry T quicVersion p a t c =
     (if \<not> ha_IgnoreRetry a \<and> \<not> ha_receivedRetry a then
        (let source = lh_SourceCID (rt_Header p);
             a = a\<lparr>ha_receivedRetry := True, ha_retrySource := source\<rparr>;
             c = c\<lparr>c_DestinationCID := source\<rparr>;
             tlsTP = c_TLSTPHandler c; PNs = c_PacketNumber c; largestPNsReceived = c_LargestPNsReceived c
         in case TransitionTo T quicVersion (c_ALPN c) c of (t, c) \<Rightarrow>
            let c = c\<lparr>c_TLSTPHandler := tlsTP, c_Token := rt_RetryToken p, c_PacketNumber := PNs,
                      c_LargestPNsReceived := largestPNsReceived\<rparr>
            in bind_res (close_restart a) (\<lambda>a. Inr (a, t, c)))
      else Inr (a, t, c))"

definition drop_level :: "EncryptionLevel \<Rightarrow> Connection \<Rightarrow> Connection" where
  "drop_level l c = submit_level \<lparr>del_EncryptionLevel = l, del_Read = False, del_Available = False\<rparr> c"

text \<open>The first Initial packet names the identifier of the server; its header is a long one, or the assertion panics.\<close>

definition switch_destination :: "Packet \<Rightarrow> HandshakeAgent \<Rightarrow> Connection \<Rightarrow> (HandshakeAgent \<times> Connection) res" where
  "switch_destination p a c =
     (case p of
        InitialP q \<Rightarrow>
          (if ha_firstInitialReceived a then Inr (a, c)
           else
             (case fp_Header q of
                Long h \<Rightarrow> Inr (a\<lparr>ha_firstInitialReceived := True\<rparr>, c\<lparr>c_DestinationCID := lh_SourceCID h\<rparr>)
              | Short _ \<Rightarrow> Inl (PanicString ''interface conversion'')))
      | _ \<Rightarrow> Inr (a, c))"

definition hs_framer :: "Packet \<Rightarrow> FramePacket \<Rightarrow> HandshakeAgent \<Rightarrow> Connection \<Rightarrow> (HandshakeAgent \<times> Connection) res" where
  "hs_framer p q a c =
     (if Contains ConnectionCloseType q \<or> Contains ApplicationCloseType q then
        Inr ((submit_status False (Some p)
                (Some (ErrorString ''the connection was closed before the handshake completed'')) a)\<lparr>ha_running := False\<rparr>, c)
      else
        bind_res (switch_destination p a c) (\<lambda>(a, c).
        if Contains HandshakeDoneType q then
          (let a = (submit_status True (ha_tlsPacket a) None a)\<lparr>ha_incPackets := False\<rparr>;
               c = (if \<not> ha_DontDropKeys a
                    then drop_level EncryptionLevelHandshake (drop_level EncryptionLevelInitial c) else c)
           in Inr (a, c))
        else Inr (a, c)))"

definition hs_incoming ::
    "'t TlsStack \<Rightarrow> u32 \<Rightarrow> bytes \<Rightarrow> bool \<Rightarrow> Packet \<Rightarrow> HandshakeAgent \<Rightarrow> 't \<Rightarrow> Connection \<Rightarrow>
     (HandshakeAgent \<times> 't \<times> Connection) res" where
  "hs_incoming T quicVersion rnd shared p a t c =
     (case p of
        VersionNegotiationP vn \<Rightarrow> hs_version_negotiation T rnd shared vn a t c
      | RetryP r \<Rightarrow> hs_retry T quicVersion r a t c
      | _ \<Rightarrow>
          (case framer p of
             Some q \<Rightarrow> bind_res (hs_framer p q a c) (\<lambda>(a, c). Inr (a, t, c))
           | None \<Rightarrow>
               Inr (submit_status False (Some p)
                      (Some (ErrorString ''received incorrect packet type during handshake'')) a, t, c)))"

text \<open>Outgoing packets: for versions before draft 25, the TLS Finished message ends the handshake.\<close>

fun finished_loop :: "Frame list \<Rightarrow> bool res" where
  "finished_loop [] = Inr False"
| "finished_loop (Crypto cf # fs) =
     (case cf_CryptoData cf of
        [] \<Rightarrow> Inl IndexOutOfRange
      | b # _ \<Rightarrow> if b = 0x14 then Inr True else finished_loop fs)"
| "finished_loop (f # fs) = finished_loop fs"

definition hs_outgoing :: "Packet \<Rightarrow> HandshakeAgent \<Rightarrow> Connection \<Rightarrow> HandshakeAgent res" where
  "hs_outgoing p a c =
     (if \<not> ha_tlsCompleted a \<or> c_Version c \<ge> 0xff000019 then Inr a
      else
        (case p of
           HandshakeP q \<Rightarrow>
             bind_res (finished_loop (GetAll CryptoType q)) (\<lambda>finished.
             if finished
             then Inr ((submit_status True (ha_tlsPacket a) None a)
                        \<lparr>ha_incPackets := False, ha_outPackets := False, ha_running := False\<rparr>)
             else Inr a)
         | _ \<Rightarrow> Inr a))"

text \<open>\<^verbatim>\<open>bytes.Equal\<close> takes a nil slice for an empty one.\<close>

definition equal_cid :: "ConnectionID option \<Rightarrow> ConnectionID \<Rightarrow> bool" where
  "equal_cid x y \<longleftrightarrow> (case x of None \<Rightarrow> y = [] | Some x \<Rightarrow> x = y)"

definition check_cids :: "QuicTransportParameters \<Rightarrow> HandshakeAgent \<Rightarrow> Connection \<Rightarrow> TLSStatus \<Rightarrow> TLSStatus" where
  "check_cids ps a c s =
     (if \<not> equal_cid (tp_OriginalDestinationConnectionId ps) (c_OriginalDestinationCID c)
      then s\<lparr>tst_Completed := False, tst_Error := Some (ErrorString ''invalid original_destination_connection_id'')\<rparr>
      else if ha_receivedRetry a then
        (if \<not> equal_cid (tp_RetrySourceConnectionId ps) (ha_retrySource a)
         then s\<lparr>tst_Completed := False, tst_Error := Some (ErrorString ''invalid retry_source_connection_id'')\<rparr> else s)
      else if tp_RetrySourceConnectionId ps \<noteq> None
      then s\<lparr>tst_Completed := False, tst_Error := Some (ErrorString ''invalid retry_source_connection_id'')\<rparr>
      else s)"

definition hs_tls :: "TLSStatus \<Rightarrow> HandshakeAgent \<Rightarrow> Connection \<Rightarrow> HandshakeAgent res" where
  "hs_tls s a c =
     bind_res
       (if tst_Error s \<noteq> None then
          bind_res
            (if tst_Completed s then
               (case h_ReceivedParameters (c_TLSTPHandler c) of
                  None \<Rightarrow> Inl NilPointer
                | Some ps \<Rightarrow> Inr (check_cids ps a c s))
             else Inr s)
            (\<lambda>s. Inr (s, submit_status (tst_Completed s) (Some (tst_Packet s)) (tst_Error s) a))
        else Inr (s, a))
       (\<lambda>(s, a). Inr (a\<lparr>ha_tlsCompleted := tst_Completed s, ha_tlsPacket := Some (tst_Packet s)\<rparr>))"

fun str_contains :: "string \<Rightarrow> string \<Rightarrow> bool" where
  "str_contains s [] \<longleftrightarrow> s = []"
| "str_contains s (x # xs) \<longleftrightarrow> take (length s) (x # xs) = s \<or> str_contains s xs"

definition hs_socket :: "string \<Rightarrow> HandshakeAgent \<Rightarrow> HandshakeAgent" where
  "hs_socket err a =
     (if str_contains ''connection refused'' err
      then (submit_status False None (Some (ErrorString err)) a)\<lparr>ha_running := False\<rparr> else a)"

definition hs_ping :: "HandshakeAgent \<Rightarrow> Connection \<Rightarrow> Connection" where
  "hs_ping a c =
     (if ha_firstInitialReceived a \<and> \<not> ha_DisableFrameSending a then submit_prepare EncryptionLevelBest c else c)"

text \<open>
  All agents were restarted: the channels are registered again and the first flight is sent or queued. The restart has made the
  channel \<^verbatim>\<open>ConnectionRestart\<close> anew. As in the TLS agent, queueing a nil crypto frame counts as the panic it leads to.
\<close>

definition hs_restarted ::
    "'t TlsStack \<Rightarrow> HandshakeAgent \<Rightarrow> 't \<Rightarrow> Connection \<Rightarrow> (HandshakeAgent \<times> 't \<times> Connection) res" where
  "hs_restarted T a t c =
     (let a = a\<lparr>ha_incPackets := True, ha_outPackets := True, ha_restart := False\<rparr> in
      if ha_DisableFrameSending a then
        bind_res (GetCryptoFrame T EncryptionLevelInitial t c) (\<lambda>(f, t, c).
        case f of
          None \<Rightarrow> Inl NilPointer
        | Some f \<Rightarrow>
            Inr (a, t, c\<lparr>c_TlsQueue := (c_TlsQueue c)(EncryptionLevelInitial :=
                   c_TlsQueue c EncryptionLevelInitial @
                   [\<lparr>qf_Frame = Crypto f, qf_EncryptionLevel = EncryptionLevelInitial\<rparr>])\<rparr>))
      else bind_res (hs_send_initial T t c) (\<lambda>(t, c). Inr (a, t, c)))"

text \<open>The loop. Between two steps the other agents may change the connection and the state of the TLS stack.\<close>

datatype hs_event = HsSendInitial | HsIncoming Packet | HsOutgoing Packet | HsTls TLSStatus | HsSocket string | HsPing
  | HsRestarted | HsOther

inductive hs_step ::
    "'t TlsStack \<Rightarrow> u32 \<Rightarrow> HandshakeAgent \<times> 't \<times> Connection \<Rightarrow> hs_event \<Rightarrow> HandshakeAgent \<times> 't \<times> Connection \<Rightarrow> bool"
  for T v where
  send_initial: "ha_running a \<Longrightarrow> hs_send_initial T t c = Inr (t', c') \<Longrightarrow> hs_step T v (a, t, c) HsSendInitial (a, t', c')"
| incoming: "ha_running a \<Longrightarrow> hs_incoming T v rnd shared p a t c = Inr (a', t', c') \<Longrightarrow>
    hs_step T v (a, t, c) (HsIncoming p) (a', t', c')"
| outgoing: "ha_running a \<Longrightarrow> hs_outgoing p a c = Inr a' \<Longrightarrow> hs_step T v (a, t, c) (HsOutgoing p) (a', t, c)"
| tls: "ha_running a \<Longrightarrow> hs_tls s a c = Inr a' \<Longrightarrow> hs_step T v (a, t, c) (HsTls s) (a', t, c)"
| socket: "ha_running a \<Longrightarrow> hs_step T v (a, t, c) (HsSocket e) (hs_socket e a, t, c)"
| ping: "ha_running a \<Longrightarrow> hs_step T v (a, t, c) HsPing (a, t, hs_ping a c)"
| restarted: "ha_running a \<Longrightarrow> ha_restart a \<Longrightarrow> hs_restarted T a t c = Inr (a', t', c') \<Longrightarrow>
    hs_step T v (a, t, c) HsRestarted (a', t', c')"
| other: "hs_step T v (a, t, c) HsOther (a, t', c')"

section \<open>Retry\<close>

lemma submit_status_keeps [simp]:
  "ha_receivedRetry (submit_status b p e a) = ha_receivedRetry a"
  by (simp add: submit_status_def)

lemma close_restart_keeps: "close_restart a = Inr a' \<Longrightarrow> ha_receivedRetry a' = ha_receivedRetry a"
  by (auto simp: close_restart_def split: if_splits)

lemma hs_framer_keeps: "hs_framer p q a c = Inr (a', c') \<Longrightarrow> ha_receivedRetry a' = ha_receivedRetry a"
  by (auto simp: hs_framer_def switch_destination_def Let_def split: if_splits Packet.splits Header.splits)

lemma hs_incoming_keeps:
  assumes "hs_incoming T v rnd sh p a t c = Inr (a', t', c')" "ha_receivedRetry a"
  shows "ha_receivedRetry a'"
proof (cases p)
  case (VersionNegotiationP vn)
  with assms show ?thesis
    by (auto simp: hs_incoming_def hs_version_negotiation_def split: sum.splits prod.splits dest: close_restart_keeps)
next
  case (RetryP r)
  with assms show ?thesis by (simp add: hs_incoming_def hs_retry_def)
qed (use assms in \<open>auto simp: hs_incoming_def dest: hs_framer_keeps\<close>)

lemma hs_step_keeps_retry:
  assumes "hs_step T v (a, t, c) e (a', t', c')" "ha_receivedRetry a"
  shows "ha_receivedRetry a'"
  using assms(1)
proof cases
  case incoming
  show ?thesis by (rule hs_incoming_keeps [OF incoming(3) assms(2)])
next
  case outgoing
  then show ?thesis using assms(2) by (auto simp: hs_outgoing_def split: if_splits Packet.splits)
next
  case tls
  then show ?thesis using assms(2) by (auto simp: hs_tls_def split: if_splits)
next
  case restarted
  then show ?thesis using assms(2) by (auto simp: hs_restarted_def Let_def split: if_splits option.splits)
qed (use assms(2) in \<open>auto simp: hs_socket_def\<close>)

text \<open>What a followed Retry does to the connection.\<close>

lemma hs_retry_followed:
  assumes "\<not> ha_IgnoreRetry a" "\<not> ha_receivedRetry a" "\<not> ha_restart a"
  shows "\<exists>c1. hs_retry T v p a t c =
      Inr (a\<lparr>ha_receivedRetry := True, ha_retrySource := lh_SourceCID (rt_Header p), ha_restart := True\<rparr>,
           ts_NewConnection T (c_ServerName c) (c_ALPN c) (c_ResumptionTicket c), c1) \<and>
    c_PacketNumber c1 = c_PacketNumber c \<and> c_LargestPNsReceived c1 = c_LargestPNsReceived c \<and>
    c_TLSTPHandler c1 = c_TLSTPHandler c \<and> c_Token c1 = rt_RetryToken p \<and>
    c_DestinationCID c1 = lh_SourceCID (rt_Header p) \<and> c_SourceCID c1 = c_SourceCID c \<and>
    c_OriginalDestinationCID c1 = c_OriginalDestinationCID c \<and> c_SendPacket c1 = c_SendPacket c \<and>
    c_LargestPNsAcknowledged c1 = (\<lambda>_. 0) \<and> c_CryptoStreams c1 = Map.empty \<and>
    c_CryptoStates c1 = [EncryptionLevelInitial \<mapsto> NewInitialPacketProtection
      (ts_Keys T (ts_NewConnection T (c_ServerName c) (c_ALPN c) (c_ResumptionTicket c))) (lh_SourceCID (rt_Header p))]"
  using assms by (simp add: hs_retry_def TransitionTo_def close_restart_def Let_def)

lemma write_keys_states:
  "c_CryptoStates c EncryptionLevelInitial = c_CryptoStates c' EncryptionLevelInitial \<Longrightarrow>
   write_keys EncryptionLevelInitial c w hp = write_keys EncryptionLevelInitial c' w hp"
  by (simp add: write_keys_def Connection_CryptoState_def)


definition example_retry :: RetryPacket where
  "example_retry = \<lparr>receiveContext = zero_PacketContext, sendContext = zero_PacketContext,
     rt_Header = \<lparr>lh_PacketType = Retry, lh_LowerBits = 0, lh_Version = MaximumVersion,
       lh_DestinationCID = [1, 2], lh_SourceCID = [8, 8], lh_TokenLength = zero_VarInt, lh_Token = [], lh_Length = zero_VarInt,
       lh_PacketNumber = 0, lh_TruncatedPN = \<lparr>tpn_Value = 0, tpn_Length = 1\<rparr>\<rparr>,
     rt_RetryToken = [9, 9, 9], rt_RetryIntegrityTag = []\<rparr>"

lemma first_connection_fields:
  "c_PacketNumber first_connection = (\<lambda>_. 0)" "c_SourceCID first_connection = [1, 2]"
  "c_OriginalDestinationCID first_connection = [3, 4, 5]" "c_SendPacket first_connection = []"
  by (simp_all add: first_connection_def NewConnection_def TransitionTo_def Let_def zero_Connection_def)

lemma plain_initial_keys:
  "write_keys EncryptionLevelInitial (c\<lparr>c_CryptoStates :=
     [EncryptionLevelInitial \<mapsto> NewInitialPacketProtection (ts_Keys plain_stack ()) cid]\<rparr>) plain_AEAD (\<lambda>iv x. x)"
  by (simp add: write_keys_def Connection_CryptoState_def NewInitialPacketProtection_def NewProtectedCryptoState_def InitWrite_def
      InitRead_def plain_stack_def plain_Tls_def aead_ok_def cipher_ok_def plain_AEAD_def quicVersionSalt_def)


interpretation hs_run: machine "\<lambda>s. s = s0" "hs_step T v" "\<lambda>s. ha_receivedRetry (fst s0) \<longrightarrow> ha_receivedRetry (fst s)"
  for s0 T v
proof
  show "ha_receivedRetry (fst s0) \<longrightarrow> ha_receivedRetry (fst s')"
    if "ha_receivedRetry (fst s0) \<longrightarrow> ha_receivedRetry (fst s)" "hs_step T v s e s'" for s e s'
    using that hs_step_keeps_retry by (cases s; cases s') fastforce
qed simp

text \<open>
  C22. Only one Retry is followed: after the agent has handled a Retry, whatever happens next in its loop and in the other agents, a further
  Retry packet leaves the agent, the TLS stack and the connection as they are.
\<close>

theorem retry_followed_once:
  assumes "hs_incoming T v rnd shared (RetryP p) a t c = Inr (a1, t1, c1)" "\<not> ha_IgnoreRetry a"
    and "reachable (\<lambda>s. s = (a1, t1, c1)) (hs_step T v) (a2, t2, c2)"
  shows "hs_incoming T v rnd' shared' (RetryP p') a2 t2 c2 = Inr (a2, t2, c2)"
proof -
  have "ha_receivedRetry a1"
    using assms(1,2) by (auto simp: hs_incoming_def hs_retry_def Let_def dest!: close_restart_keeps split: if_splits prod.splits)
  with hs_run.inv_reachable [OF assms(3)] show ?thesis by (simp add: hs_incoming_def hs_retry_def)
qed

lemma retry_followed_once_witness:
  "\<exists>a1 c1. hs_incoming plain_stack MaximumVersion [] False (RetryP example_retry) (hs_Run False False False) () first_connection =
      Inr (a1, (), c1) \<and>
    hs_incoming plain_stack MaximumVersion [] False (RetryP example_retry) a1 () c1 = Inr (a1, (), c1)"
proof -
  obtain a1 c1 where r: "hs_incoming plain_stack MaximumVersion [] False (RetryP example_retry) (hs_Run False False False) ()
      first_connection = Inr (a1, (), c1)"
    using hs_retry_followed [of "hs_Run False False False" plain_stack MaximumVersion example_retry "()" first_connection] by (auto simp: hs_incoming_def hs_Run_def)
  have "reachable (\<lambda>s. s = (a1, (), c1)) (hs_step plain_stack MaximumVersion) (a1, (), c1)" by (rule reachable.start) simp
  from retry_followed_once [OF r _ this] r show ?thesis by (auto simp: hs_Run_def)
qed

text \<open>
  The identifiers in the transport parameters of the server are not checked: whatever the parameters hold, a status of the TLS agent
  that reports the end of the handshake is accepted by the handshake agent, because in every run of the TLS agent such a status has no
  error, and the check is made only for a status with an error.
\<close>

lemma cids_not_checked:
  assumes "reachable tls_init (tls_step T) (ta, t, c)" "st \<in> set (ta_TLSStatus ta)" "tst_Completed st"
  shows "hs_tls st a c' = Inr (a\<lparr>ha_tlsCompleted := True, ha_tlsPacket := Some (tst_Packet st)\<rparr>)"
  using tls_reports.inv_reachable [OF assms(1)] assms(2,3) by (simp add: status_ok_def hs_tls_def)

text \<open>A stack whose handshake is complete after one message.\<close>

definition done_stack :: "unit TlsStack" where
  "done_stack = plain_stack\<lparr>ts_HandleMessage := \<lambda>_ _ _. (([], False, None), ()), ts_ProtectedReadSecret := \<lambda>_. [3],
     ts_ProtectedWriteSecret := \<lambda>_. [4]\<rparr>"

lemma cids_not_checked_witness:
  "\<exists>ta c st a'. reachable tls_init (tls_step done_stack) (ta, (), c) \<and> ta_TLSStatus ta = [st] \<and>
     hs_tls st (hs_Run False False False) c = Inr a' \<and> ha_tlsCompleted a' \<and> c_OriginalDestinationCID c = [3, 4, 5] \<and>
     (\<exists>ps. h_ReceivedParameters (c_TLSTPHandler c) = Some ps \<and> tp_OriginalDestinationConnectionId ps = None)"
proof -
  obtain a0 c0 where r1: "reachable tls_init (tls_step done_stack) (a0, (), server_hello c0)" and fresh:
    "c_CryptoStates c0 EncryptionLevelHandshake = None" "c_CryptoStates c0 EncryptionLevel1RTT = None"
    "c_EncryptionLevels c0 = []" "ta_read a0 PNSpaceInitial = 0" "ta_levels a0 = tls_levels" "ta_DisableFrameSending a0 = False"
    "ta_TLSStatus a0 = []" "c_OriginalDestinationCID c0 = [3, 4, 5]" "c_TLSTPHandler c0 = NewTLSTransportParameterHandler [1, 2]"
    using run_to_hello [of done_stack] by metis
  obtain a2 c2 where in1: "tls_incoming done_stack initial_packet a0 () (server_hello c0) = Inr (a2, (), c2)" and
    st: "ta_TLSStatus a2 = [\<lparr>tst_Completed = True, tst_Packet = initial_packet, tst_Error = None\<rparr>]"
    "c_OriginalDestinationCID c2 = [3, 4, 5]"
    "\<exists>ps. h_ReceivedParameters (c_TLSTPHandler c2) = Some ps \<and> tp_OriginalDestinationConnectionId ps = None"
    using fresh
    by (simp add: tls_incoming_def initial_packet_def take_chunks_def received_chunks_def server_hello_def
        CryptoStreams_Get_def Let_def done_stack_def plain_stack_def install_handshake_def complete_def announce_spec tls_levels_def
        has_key_def new_CryptoState_def NewTLSTransportParameterHandler_def ReceiveExtensionData_def receive_loop.simps
        zero_QuicTransportParameters_def NewReader_def rd_Len_def)
  have "reachable tls_init (tls_step done_stack) (a2, (), c2)"
    by (rule reachable.onward [OF r1]) (rule tls_step.incoming [OF in1])
  with cids_not_checked [OF this] st show ?thesis by fastforce
qed

end
