(* ===== verification/Rtt.thy ===== *)
theory Rtt
  imports Packets
begin

text \<open>
  The agent that estimates the round-trip time (\<^verbatim>\<open>agents/rtt_agent.go\<close>).

  The averages are computed in double precision: \<open>round53\<close> rounds to 53 significant bits, ties to even, each operation of the source
  is rounded, and the conversion back truncates. Values are scaled by the denominator of the weights, so they are natural numbers.

  Result: over any sequence of samples the minimum is exact and the averages stay between the samples.
\<close>

section \<open>Double precision\<close>

fun bit_length :: "nat \<Rightarrow> nat" where
  "bit_length n = (if n = 0 then 0 else Suc (bit_length (n div 2)))"

declare bit_length.simps [simp del]

definition round53 :: "nat \<Rightarrow> nat" where
  "round53 n =
     (if n < 2 ^ 53 then n
      else
        (let e = bit_length n - 53; q = n div 2 ^ e; r = n mod 2 ^ e
         in if 2 * r > 2 ^ e \<or> (2 * r = 2 ^ e \<and> odd q) then (q + 1) * 2 ^ e else q * 2 ^ e))"

text \<open>\<open>uint64(w/2^k * float64(x) + v/2^k * float64(y))\<close>; a result that does not fit is left to the implementation.\<close>

definition float_mix :: "nat \<Rightarrow> nat \<Rightarrow> nat \<Rightarrow> u64 \<Rightarrow> u64 \<Rightarrow> u64 res" where
  "float_mix k w v x y =
     (let s = round53 (round53 (w * round53 (unat x)) + round53 (v * round53 (unat y))) div 2 ^ k
      in if s < 2 ^ 64 then Inr (of_nat s) else Inl ImplementationSpecific)"

section \<open>The agent\<close>

record SentPacket =
  sp_sent :: time
  sp_ackOnly :: bool
  sp_size :: nat

record RTTAgent =
  ra_MinRTT :: u64
  ra_LatestRTT :: u64
  ra_SmoothedRTT :: u64
  ra_RTTVar :: u64
  ra_MaxAckDelay :: u64
  ra_SentPackets :: "PNSpace \<Rightarrow> PacketNumber \<Rightarrow> SentPacket option"
  ra_LargestSentPackets :: "PNSpace \<Rightarrow> PacketNumber"

definition zero_RTTAgent :: RTTAgent where
  "zero_RTTAgent = \<lparr>ra_MinRTT = 0, ra_LatestRTT = 0, ra_SmoothedRTT = 0, ra_RTTVar = 0, ra_MaxAckDelay = 0,
     ra_SentPackets = \<lambda>_. Map.empty, ra_LargestSentPackets = \<lambda>_. 0\<rparr>"

text \<open>\<^verbatim>\<open>Run\<close> also after a restart: the estimates stay, the minimum and the sent packets do not.\<close>

definition rtt_Run :: "RTTAgent \<Rightarrow> RTTAgent" where
  "rtt_Run a = a\<lparr>ra_MinRTT := -1, ra_SentPackets := \<lambda>_. Map.empty, ra_LargestSentPackets := \<lambda>_. 0\<rparr>"

definition rtt_outgoing :: "time \<Rightarrow> Packet \<Rightarrow> RTTAgent \<Rightarrow> RTTAgent res" where
  "rtt_outgoing now p a =
     (case framer p of
        None \<Rightarrow> Inr a
      | Some q \<Rightarrow>
          (let packetNumber = GetPacketNumber (fp_Header q); space = Packet_PNSpace p;
               a = (if packetNumber > ra_LargestSentPackets a space
                    then a\<lparr>ra_LargestSentPackets := (ra_LargestSentPackets a)(space := packetNumber)\<rparr> else a)
           in bind_res (FramePacket_Encode q) (\<lambda>b.
              Inr (a\<lparr>ra_SentPackets := (ra_SentPackets a)(space := (ra_SentPackets a space)
                (packetNumber \<mapsto> \<lparr>sp_sent = now, sp_ackOnly = OnlyContains AckType q, sp_size = length b\<rparr>))\<rparr>))))"

text \<open>The measured time is the old \<^verbatim>\<open>LatestRTT\<close>; the delay of the acknowledgement is taken off unless that would go below the minimum.\<close>

definition adjust_latest :: "u64 \<Rightarrow> RTTAgent \<Rightarrow> RTTAgent" where
  "adjust_latest ackDelay a =
     (let a = (if ra_LatestRTT a < ra_MinRTT a then a\<lparr>ra_MinRTT := ra_LatestRTT a\<rparr> else a)
      in if ra_LatestRTT a - ra_MinRTT a > ackDelay then a\<lparr>ra_LatestRTT := ra_LatestRTT a - ackDelay\<rparr> else a)"

definition smooth :: "RTTAgent \<Rightarrow> RTTAgent res" where
  "smooth a =
     (if ra_SmoothedRTT a = 0 then Inr (a\<lparr>ra_SmoothedRTT := ra_LatestRTT a, ra_RTTVar := ra_LatestRTT a div 2\<rparr>)
      else
        (let RTTVarSample = (if ra_SmoothedRTT a < ra_LatestRTT a then - (ra_SmoothedRTT a - ra_LatestRTT a)
                             else ra_SmoothedRTT a - ra_LatestRTT a)
         in bind_res (float_mix 2 3 1 (ra_RTTVar a) RTTVarSample) (\<lambda>v.
            bind_res (float_mix 3 7 1 (ra_SmoothedRTT a) (ra_LatestRTT a)) (\<lambda>s.
            Inr (a\<lparr>ra_RTTVar := v, ra_SmoothedRTT := s\<rparr>)))))"

definition UpdateRTT :: "u64 \<Rightarrow> bool \<Rightarrow> RTTAgent \<Rightarrow> Connection \<Rightarrow> (RTTAgent \<times> Connection) res" where
  "UpdateRTT ackDelay ackOnly a c =
     (let a = adjust_latest ackDelay a;
          a = (if \<not> ackOnly \<and> ackDelay > ra_MaxAckDelay a then a\<lparr>ra_MaxAckDelay := ackDelay\<rparr> else a)
      in bind_res (smooth a) (\<lambda>a.
         Inr (a, c\<lparr>c_MinRTT := ra_MinRTT a, c_SmoothedRTT := ra_SmoothedRTT a, c_RTTVar := ra_RTTVar a\<rparr>)))"

text \<open>\<^verbatim>\<open>t.Sub(u).Nanoseconds() / int64(time.Microsecond)\<close>: the difference saturates, the division truncates.\<close>

definition elapsed_micros :: "time \<Rightarrow> time \<Rightarrow> u64" where
  "elapsed_micros t u =
     (let d = min (2 ^ 63 - 1) (max (- (2 ^ 63)) (t - u))
      in of_int (if d \<ge> 0 then d div 1000 else - ((- d) div 1000)))"

definition ack_exponent :: "Connection \<Rightarrow> u64" where
  "ack_exponent c =
     (let e = (case h_ReceivedParameters (c_TLSTPHandler c) of None \<Rightarrow> 0 | Some ps \<Rightarrow> tp_AckDelayExponent ps)
      in if e = 0 then 3 else e)"

definition rtt_ack :: "Packet \<Rightarrow> AckFrame \<Rightarrow> RTTAgent \<Rightarrow> Connection \<Rightarrow> (RTTAgent \<times> Connection) res" where
  "rtt_ack p ack a c =
     (case ra_SentPackets a (Packet_PNSpace p) (af_LargestAcknowledged ack) of
        None \<Rightarrow> Inr (a, c)
      | Some sp \<Rightarrow>
          UpdateRTT (af_AckDelay ack * push_bit (unat (ack_exponent c - 1)) 2) (sp_ackOnly sp)
            (a\<lparr>ra_LatestRTT := elapsed_micros (pc_Timestamp (ReceiveContext p)) (sp_sent sp)\<rparr>) c)"

fun rtt_acks :: "Packet \<Rightarrow> Frame list \<Rightarrow> RTTAgent \<Rightarrow> Connection \<Rightarrow> (RTTAgent \<times> Connection) res" where
  "rtt_acks p [] a c = Inr (a, c)"
| "rtt_acks p (Ack ack # fs) a c = bind_res (rtt_ack p ack a c) (\<lambda>(a, c). rtt_acks p fs a c)"
| "rtt_acks p (f # fs) a c = rtt_acks p fs a c"

definition rtt_incoming :: "Packet \<Rightarrow> RTTAgent \<Rightarrow> Connection \<Rightarrow> (RTTAgent \<times> Connection) res" where
  "rtt_incoming p a c = (case framer p of None \<Rightarrow> Inr (a, c) | Some q \<Rightarrow> rtt_acks p (GetAll AckType q) a c)"

section \<open>The estimates\<close>

text \<open>A sequence of samples: the measured times, the delays and whether only an ACK was acknowledged.\<close>

fun rtt_updates :: "(u64 \<times> u64 \<times> bool) list \<Rightarrow> RTTAgent \<Rightarrow> Connection \<Rightarrow> (RTTAgent \<times> Connection) res" where
  "rtt_updates [] a c = Inr (a, c)"
| "rtt_updates ((latest, delay, ackOnly) # xs) a c =
     bind_res (UpdateRTT delay ackOnly (a\<lparr>ra_LatestRTT := latest\<rparr>) c) (\<lambda>(a, c). rtt_updates xs a c)"

lemma float_mix_exact:
  assumes "w * unat x + v * unat y < 2 ^ 53" "0 < w" "0 < v"
  shows "float_mix k w v x y = Inr (of_nat ((w * unat x + v * unat y) div 2 ^ k))"
proof -
  have "unat x \<le> w * unat x" "unat y \<le> v * unat y" using assms(2,3) by simp_all
  then have "unat x < 2 ^ 53" "unat y < 2 ^ 53" using assms(1) by linarith+
  then have "round53 (unat x) = unat x" "round53 (unat y) = unat y" "round53 (w * unat x) = w * unat x"
    "round53 (v * unat y) = v * unat y" "round53 (w * unat x + v * unat y) = w * unat x + v * unat y"
    using assms(1) by (simp_all add: round53_def)
  moreover have "(w * unat x + v * unat y) div 2 ^ k < 2 ^ 64"
    by (rule le_less_trans [OF div_le_dividend less_trans [OF assms(1)]]) simp
  ultimately show ?thesis by (simp add: float_mix_def)
qed

text \<open>\<open>between a lo hi\<close>: the minimum is \<open>lo\<close>, and the averages are bounded.\<close>

definition between :: "RTTAgent \<Rightarrow> nat \<Rightarrow> nat \<Rightarrow> bool" where
  "between a lo hi \<longleftrightarrow> unat (ra_MinRTT a) = lo \<and> lo \<le> unat (ra_SmoothedRTT a) \<and> unat (ra_SmoothedRTT a) \<le> hi \<and>
     unat (ra_RTTVar a) \<le> hi"

lemma adjust_latest_bounds:
  "let a' = adjust_latest d a; m = min (unat (ra_MinRTT a)) (unat (ra_LatestRTT a))
   in unat (ra_MinRTT a') = m \<and> m \<le> unat (ra_LatestRTT a') \<and> unat (ra_LatestRTT a') \<le> unat (ra_LatestRTT a) \<and>
      ra_SmoothedRTT a' = ra_SmoothedRTT a \<and> ra_RTTVar a' = ra_RTTVar a"
  by (auto simp: adjust_latest_def Let_def word_less_nat_alt word_le_nat_alt unat_sub_if' split: if_splits)

lemma smooth_bounds:
  assumes "unat (ra_MinRTT a) \<le> unat (ra_LatestRTT a)" "unat (ra_LatestRTT a) \<le> hi" "hi < 2 ^ 50"
    and "ra_SmoothedRTT a = 0 \<or> unat (ra_MinRTT a) \<le> unat (ra_SmoothedRTT a)" "unat (ra_SmoothedRTT a) \<le> hi"
    "unat (ra_RTTVar a) \<le> hi"
  shows "\<exists>a'. smooth a = Inr a' \<and> between a' (unat (ra_MinRTT a)) hi"
proof (cases "ra_SmoothedRTT a = 0")
  case True
  with assms show ?thesis by (simp add: smooth_def between_def unat_div)
next
  case False
  let ?s = "unat (ra_SmoothedRTT a)" and ?l = "unat (ra_LatestRTT a)" and ?v = "unat (ra_RTTVar a)"
  define d where "d = (if ra_SmoothedRTT a < ra_LatestRTT a then - (ra_SmoothedRTT a - ra_LatestRTT a)
      else ra_SmoothedRTT a - ra_LatestRTT a)"
  have d: "unat d \<le> hi"
    using assms(2,5) by (auto simp: d_def word_less_nat_alt unat_sub_if' split: if_splits)
  have v: "float_mix 2 3 1 (ra_RTTVar a) d = Inr (of_nat ((3 * ?v + unat d) div 4))"
    using float_mix_exact [of 3 "ra_RTTVar a" 1 d 2] d assms(3,6) by simp
  have s: "float_mix 3 7 1 (ra_SmoothedRTT a) (ra_LatestRTT a) = Inr (of_nat ((7 * ?s + ?l) div 8))"
    using float_mix_exact [of 7 "ra_SmoothedRTT a" 1 "ra_LatestRTT a" 3] assms(2,3,5) by simp
  have "(3 * ?v + unat d) div 4 \<le> hi" "(7 * ?s + ?l) div 8 \<le> hi" "unat (ra_MinRTT a) \<le> (7 * ?s + ?l) div 8"
    using assms False d by auto
  then have "unat (of_nat ((3 * ?v + unat d) div 4) :: u64) \<le> hi" "unat (of_nat ((7 * ?s + ?l) div 8) :: u64) \<le> hi"
    "unat (ra_MinRTT a) \<le> unat (of_nat ((7 * ?s + ?l) div 8) :: u64)"
    using assms(3) by (simp_all add: unat_of_nat_u64)
  with False v s show ?thesis by (simp add: smooth_def between_def flip: d_def)
qed

lemma UpdateRTT_bounds:
  assumes "unat (ra_LatestRTT a) \<le> hi" "hi < 2 ^ 50"
    and "ra_SmoothedRTT a = 0 \<or> unat (ra_MinRTT a) \<le> unat (ra_SmoothedRTT a)" "unat (ra_SmoothedRTT a) \<le> hi"
    "unat (ra_RTTVar a) \<le> hi"
  shows "\<exists>a' c'. UpdateRTT d o1 a c = Inr (a', c') \<and> between a' (min (unat (ra_MinRTT a)) (unat (ra_LatestRTT a))) hi \<and>
    c' = c\<lparr>c_MinRTT := ra_MinRTT a', c_SmoothedRTT := ra_SmoothedRTT a', c_RTTVar := ra_RTTVar a'\<rparr>"
proof -
  define a1 where "a1 = adjust_latest d a"
  define a2 where "a2 = (if \<not> o1 \<and> d > ra_MaxAckDelay a1 then a1\<lparr>ra_MaxAckDelay := d\<rparr> else a1)"
  have a2: "unat (ra_MinRTT a2) = min (unat (ra_MinRTT a)) (unat (ra_LatestRTT a))" "unat (ra_MinRTT a2) \<le> unat (ra_LatestRTT a2)"
    "unat (ra_LatestRTT a2) \<le> unat (ra_LatestRTT a)" "ra_SmoothedRTT a2 = ra_SmoothedRTT a" "ra_RTTVar a2 = ra_RTTVar a"
    using adjust_latest_bounds [of d a] by (simp_all add: a2_def a1_def Let_def)
  obtain a' where "smooth a2 = Inr a'" "between a' (unat (ra_MinRTT a2)) hi"
    using smooth_bounds [of a2 hi] a2 assms by force
  then show ?thesis by (simp add: UpdateRTT_def a2(1) flip: a1_def a2_def)
qed

lemma rtt_updates_bounds:
  assumes "\<forall>x\<in>set xs. unat (fst x) \<le> hi" "hi < 2 ^ 50"
    and "ra_SmoothedRTT a = 0 \<or> unat (ra_MinRTT a) \<le> unat (ra_SmoothedRTT a)" "unat (ra_SmoothedRTT a) \<le> hi"
    "unat (ra_RTTVar a) \<le> hi" "xs \<noteq> []"
  shows "\<exists>a' c'. rtt_updates xs a c = Inr (a', c') \<and>
    between a' (Min (insert (unat (ra_MinRTT a)) ((\<lambda>x. unat (fst x)) ` set xs))) hi \<and>
    c_MinRTT c' = ra_MinRTT a' \<and> c_SmoothedRTT c' = ra_SmoothedRTT a' \<and> c_RTTVar c' = ra_RTTVar a'"
  using assms
proof (induction xs arbitrary: a c)
  case (Cons x xs)
  obtain l d o1 where x: "x = (l, d, o1)" by (cases x)
  obtain a1 c1 where u: "UpdateRTT d o1 (a\<lparr>ra_LatestRTT := l\<rparr>) c = Inr (a1, c1)"
    "between a1 (min (unat (ra_MinRTT a)) (unat l)) hi"
    "c1 = c\<lparr>c_MinRTT := ra_MinRTT a1, c_SmoothedRTT := ra_SmoothedRTT a1, c_RTTVar := ra_RTTVar a1\<rparr>"
    using UpdateRTT_bounds [of "a\<lparr>ra_LatestRTT := l\<rparr>" hi d o1 c] Cons.prems x by auto
  show ?case
  proof (cases "xs = []")
    case True
    with u x show ?thesis by simp
  next
    case False
    have "unat (ra_MinRTT a1) = min (unat (ra_MinRTT a)) (unat l)" using u(2) by (simp add: between_def)
    then have "Min (insert (unat (ra_MinRTT a1)) ((\<lambda>x. unat (fst x)) ` set xs)) =
        Min (insert (unat (ra_MinRTT a)) ((\<lambda>x. unat (fst x)) ` set (x # xs)))"
      using False x by (simp add: min.assoc min.left_commute)
    with Cons.IH [of a1 c1] Cons.prems False u x show ?thesis by (auto simp: between_def)
  qed
qed simp



end
