(* ===== verification/Closing.thy ===== *)
theory Closing
  imports ConnOps
begin

text \<open>
  The agent that closes the connection (\<^verbatim>\<open>agents/closing_agent.go\<close>): the idle timer, the close frame it queues, and the channel
  \<^verbatim>\<open>conn.ConnectionClosed\<close>, here a flag beside the connection. \<open>cl_deadline\<close> is the time the timer goes off, \<open>None\<close> when it has.

  Result: the channel is closed at most once (closing it twice panics) and at most one close frame is queued, whatever the order of
  packets, timeouts, restarts and calls of \<^verbatim>\<open>Close\<close>.
\<close>

section \<open>The agent\<close>

record ClosingAgent =
  cl_closing :: bool
  cl_IdleDuration :: int
  cl_deadline :: "time option"
  cl_WaitForFirstPacket :: bool
  cl_receivedFirstPacket :: bool
  cl_running :: bool

definition new_ClosingAgent :: ClosingAgent where
  "new_ClosingAgent = \<lparr>cl_closing = False, cl_IdleDuration = 0, cl_deadline = None, cl_WaitForFirstPacket = False,
     cl_receivedFirstPacket = False, cl_running = False\<rparr>"

text \<open>\<^verbatim>\<open>time.Duration(IdleTimeout) * time.Millisecond\<close> wraps like a signed 64-bit product.\<close>

definition idle_duration :: "Connection \<Rightarrow> int" where
  "idle_duration c = sint (tp_IdleTimeout (h_Params (c_TLSTPHandler c)) * 1000000)"

definition closing_Run :: "time \<Rightarrow> ClosingAgent \<Rightarrow> Connection \<Rightarrow> ClosingAgent" where
  "closing_Run now a c =
     a\<lparr>cl_IdleDuration := idle_duration c, cl_deadline := Some (now + idle_duration c), cl_running := True\<rparr>"

definition close_ConnectionClosed :: "bool \<Rightarrow> bool res" where
  "close_ConnectionClosed closed = (if closed then Inl (PanicString ''close of closed channel'') else Inr True)"

definition reset_idle :: "time \<Rightarrow> ClosingAgent \<Rightarrow> ClosingAgent" where
  "reset_idle now a = a\<lparr>cl_deadline := Some (now + cl_IdleDuration a)\<rparr>"

definition closing_incoming :: "time \<Rightarrow> ClosingAgent \<Rightarrow> ClosingAgent" where
  "closing_incoming now a = reset_idle now (a\<lparr>cl_receivedFirstPacket := True\<rparr>)"

definition has_close :: "Packet \<Rightarrow> bool" where
  "has_close p \<longleftrightarrow>
     (case framer p of None \<Rightarrow> False | Some q \<Rightarrow> Contains ConnectionCloseType q \<or> Contains ApplicationCloseType q)"

definition closing_outgoing :: "time \<Rightarrow> Packet \<Rightarrow> ClosingAgent \<Rightarrow> bool \<Rightarrow> (ClosingAgent \<times> bool) res" where
  "closing_outgoing now p a closed =
     (if cl_closing a \<and> has_close p then
        bind_res (close_ConnectionClosed closed) (\<lambda>closed. Inr (a\<lparr>cl_running := False\<rparr>, closed))
      else Inr (if ShouldBeAcknowledged p then reset_idle now a else a, closed))"

definition closing_timeout :: "ClosingAgent \<Rightarrow> bool \<Rightarrow> (ClosingAgent \<times> bool) res" where
  "closing_timeout a closed =
     (let a = a\<lparr>cl_deadline := None\<rparr> in
      if \<not> cl_WaitForFirstPacket a \<or> cl_receivedFirstPacket a then
        bind_res (close_ConnectionClosed closed) (\<lambda>closed. Inr (a\<lparr>cl_closing := True, cl_running := False\<rparr>, closed))
      else Inr (a, closed))"

definition closing_close :: "bool \<Rightarrow> ClosingAgent \<Rightarrow> bool \<Rightarrow> (ClosingAgent \<times> bool) res" where
  "closing_close shouldRestart a closed =
     (if \<not> shouldRestart then
        bind_res (close_ConnectionClosed closed) (\<lambda>closed. Inr (a\<lparr>cl_running := False\<rparr>, closed))
      else Inr (a\<lparr>cl_running := False\<rparr>, closed))"

definition closing_Close ::
    "bool \<Rightarrow> u64 \<Rightarrow> bytes \<Rightarrow> ClosingAgent \<Rightarrow> Connection \<Rightarrow> ClosingAgent \<times> Connection" where
  "closing_Close quicLayer errorCode reasonPhrase a c =
     (if \<not> cl_closing a then (a\<lparr>cl_closing := True\<rparr>, CloseConnection quicLayer errorCode reasonPhrase c) else (a, c))"

section \<open>The agent as a machine\<close>

text \<open>
  Steps with their outcome: a panic is an outcome too. An agent is run again only after a restart, which leaves the channel open. The
  other agents queue no close frames.
\<close>

definition is_close :: "QueuedFrame \<Rightarrow> bool" where
  "is_close qf \<longleftrightarrow> FrameType (qf_Frame qf) \<in> {ConnectionCloseType, ApplicationCloseType}"

definition close_frames :: "Connection \<Rightarrow> QueuedFrame list" where
  "close_frames c = filter is_close (c_FrameQueue c)"

datatype closing_event = ClIncoming time | ClOutgoing time Packet | ClTimeout time | ClStop bool | ClClose bool u64 bytes
  | ClRun time | ClOther

type_synonym closing_state = "ClosingAgent \<times> Connection \<times> bool"

fun closing_do :: "closing_event \<Rightarrow> closing_state \<Rightarrow> closing_state res" where
  "closing_do (ClIncoming now) (a, c, closed) = Inr (closing_incoming now a, c, closed)"
| "closing_do (ClOutgoing now p) (a, c, closed) = bind_res (closing_outgoing now p a closed) (\<lambda>(a, closed). Inr (a, c, closed))"
| "closing_do (ClTimeout now) (a, c, closed) = bind_res (closing_timeout a closed) (\<lambda>(a, closed). Inr (a, c, closed))"
| "closing_do (ClStop restart) (a, c, closed) = bind_res (closing_close restart a closed) (\<lambda>(a, closed). Inr (a, c, closed))"
| "closing_do (ClClose q e r) (a, c, closed) = (case closing_Close q e r a c of (a, c) \<Rightarrow> Inr (a, c, closed))"
| "closing_do (ClRun now) (a, c, closed) = Inr (closing_Run now a c, c, closed)"
| "closing_do ClOther s = Inr s"

fun closing_enabled :: "closing_event \<Rightarrow> closing_state \<Rightarrow> bool" where
  "closing_enabled (ClTimeout now) (a, c, closed) \<longleftrightarrow> cl_running a \<and> (\<exists>d. cl_deadline a = Some d \<and> d \<le> now)"
| "closing_enabled (ClRun now) (a, c, closed) \<longleftrightarrow> \<not> cl_running a \<and> \<not> closed"
| "closing_enabled (ClClose q e r) s \<longleftrightarrow> True"
| "closing_enabled ClOther s \<longleftrightarrow> True"
| "closing_enabled _ (a, c, closed) \<longleftrightarrow> cl_running a"

inductive closing_step :: "closing_state \<Rightarrow> closing_event \<Rightarrow> closing_state \<Rightarrow> bool" where
  own: "closing_enabled e s \<Longrightarrow> e \<noteq> ClOther \<Longrightarrow> closing_do e s = Inr s' \<Longrightarrow> closing_step s e s'"
| other: "close_frames c' = close_frames c \<Longrightarrow> closing_step (a, c, closed) ClOther (a, c', closed)"

definition closing_init :: "closing_state \<Rightarrow> bool" where
  "closing_init = (\<lambda>(a, c, closed). a = new_ClosingAgent \<and> close_frames c = [] \<and> \<not> closed)"

definition closing_inv :: "closing_state \<Rightarrow> bool" where
  "closing_inv = (\<lambda>(a, c, closed). (cl_running a \<longrightarrow> \<not> closed) \<and> length (close_frames c) \<le> (if cl_closing a then 1 else 0))"

lemma CloseConnection_frames: "length (close_frames (CloseConnection q e r c)) = Suc (length (close_frames c))"
  by (simp add: close_frames_def CloseConnection_def submit_frame_def is_close_def)

lemma closing_do_inv: "closing_inv s \<Longrightarrow> closing_enabled e s \<Longrightarrow> closing_do e s = Inr s' \<Longrightarrow> closing_inv s'"
  by (cases "(e, s)" rule: closing_do.cases)
    (auto simp: closing_inv_def closing_incoming_def reset_idle_def closing_outgoing_def closing_timeout_def closing_close_def
      closing_Close_def closing_Run_def close_ConnectionClosed_def CloseConnection_frames Let_def split: if_splits)

interpretation closing: machine closing_init closing_step closing_inv
proof
  show "closing_inv s'" if "closing_inv s" "closing_step s e s'" for s e s'
    using that(2)
  proof cases
    case own
    show ?thesis by (rule closing_do_inv [OF that(1) own(1,3)])
  qed (use that(1) in \<open>auto simp: closing_inv_def\<close>)
qed (auto simp: closing_init_def closing_inv_def new_ClosingAgent_def)



end
