(* ===== verification/Lifecycle.thy ===== *)
theory Lifecycle
  imports Closing
begin

text \<open>
  The life of agents (\<^verbatim>\<open>agents/base_agent.go\<close>): starting, restarting, stopping and waiting for them, and the set of agents of a connection.

  A channel is \<open>None\<close> before it is made and \<open>Some b\<close> after, with \<open>b\<close> for closed. \<open>ba_running\<close> says that the loop of the agent is alive and takes
  what comes on its channel \<^verbatim>\<open>close\<close>; the loop is taken as the only receiver there. Operations that wait for another goroutine have three outcomes: they
  return, panic, or block for ever. \<open>ends\<close> says which loops come to an end by themselves while somebody waits for them. Agents are objects with
  an address, since a list and a map refer to the same ones.

  Results: what a restart of all agents does, and that it blocks exactly when a loop has ended by itself; that attached agents can be
  restarted and stopped; that closing a connection waits for agents nobody has told to stop.
\<close>

section \<open>Outcomes\<close>

datatype 'a outcome = Done 'a | Panics panic | Blocks

fun bind_out :: "'a outcome \<Rightarrow> ('a \<Rightarrow> 'b outcome) \<Rightarrow> 'b outcome" where
  "bind_out (Done x) f = f x"
| "bind_out (Panics p) f = Panics p"
| "bind_out Blocks f = Blocks"

lemma bind_out_Done_iff [simp]: "bind_out m f = Done y \<longleftrightarrow> (\<exists>x. m = Done x \<and> f x = Done y)"
  by (cases m) auto

section \<open>One agent\<close>

datatype AgentType = QLogAgent | SocketAgent | ParsingAgent | BufferAgent | TLSAgent | AckAgent | SendingAgent | RecoveryAgent
  | RTTAgent | FrameQueueAgent | FlowControlAgent | StreamAgent | ClosingAgent | HandshakeAgent | HTTP3Agent | HTTP09Agent

text \<open>The name each \<^verbatim>\<open>Run\<close> passes to \<^verbatim>\<open>Init\<close>.\<close>

fun agent_name :: "AgentType \<Rightarrow> string" where
  "agent_name QLogAgent = ''QLogAgent''"
| "agent_name SocketAgent = ''SocketAgent''"
| "agent_name ParsingAgent = ''ParsingAgent''"
| "agent_name BufferAgent = ''BufferAgent''"
| "agent_name TLSAgent = ''TLSAgent''"
| "agent_name AckAgent = ''AckAgent''"
| "agent_name SendingAgent = ''SendingAgent''"
| "agent_name RecoveryAgent = ''RecoveryAgent''"
| "agent_name RTTAgent = ''RTTAgent''"
| "agent_name FrameQueueAgent = ''FrameQueueAgent''"
| "agent_name FlowControlAgent = ''FlowControlAgent''"
| "agent_name StreamAgent = ''StreamAgent''"
| "agent_name ClosingAgent = ''ClosingAgent''"
| "agent_name HandshakeAgent = ''HandshakeAgent''"
| "agent_name HTTP3Agent = ''HTTP3Agent''"
| "agent_name HTTP09Agent = ''HTTP09Agent''"

record BaseAgent =
  ba_type :: AgentType
  ba_name :: string
  ba_close :: "bool option"
  ba_closed :: "bool option"
  ba_running :: bool

definition new_agent :: "AgentType \<Rightarrow> BaseAgent" where
  "new_agent t = \<lparr>ba_type = t, ba_name = [], ba_close = None, ba_closed = None, ba_running = False\<rparr>"

definition Init :: "string \<Rightarrow> BaseAgent \<Rightarrow> BaseAgent" where
  "Init name a = a\<lparr>ba_name := name, ba_close := Some False, ba_closed := Some False\<rparr>"

definition agent_Run :: "BaseAgent \<Rightarrow> BaseAgent" where
  "agent_Run a = (Init (agent_name (ba_type a)) a)\<lparr>ba_running := True\<rparr>"

definition loop_ends :: "BaseAgent \<Rightarrow> BaseAgent" where
  "loop_ends a = a\<lparr>ba_running := False, ba_closed := Some True\<rparr>"

definition agent_Stop :: "BaseAgent \<Rightarrow> BaseAgent outcome" where
  "agent_Stop a =
     (case ba_close a of
        None \<Rightarrow> Panics (PanicString ''close of nil channel'')
      | Some True \<Rightarrow> Done a
      | Some False \<Rightarrow> Done (a\<lparr>ba_close := Some True\<rparr>))"

definition agent_Restart :: "BaseAgent \<Rightarrow> BaseAgent outcome" where
  "agent_Restart a =
     (case ba_close a of
        None \<Rightarrow> Blocks
      | Some True \<Rightarrow> Done a
      | Some False \<Rightarrow> if ba_running a then Done (loop_ends a) else Blocks)"

definition agent_Join :: "bool \<Rightarrow> BaseAgent \<Rightarrow> BaseAgent outcome" where
  "agent_Join ends a =
     (case ba_closed a of
        None \<Rightarrow> Blocks
      | Some True \<Rightarrow> Done a
      | Some False \<Rightarrow> if ba_running a \<and> (ba_close a = Some True \<or> ends) then Done (loop_ends a) else Blocks)"

section \<open>The agents of a connection\<close>

type_synonym agent_ref = nat

record ConnectionAgents =
  ca_heap :: "agent_ref \<Rightarrow> BaseAgent"
  ca_next :: agent_ref
  ca_agents :: "string \<Rightarrow> agent_ref option"
  ca_ConnectionRestart :: bool
  ca_ConnectionRestarted :: bool

definition put_agent :: "agent_ref \<Rightarrow> BaseAgent \<Rightarrow> ConnectionAgents \<Rightarrow> ConnectionAgents" where
  "put_agent r a s = s\<lparr>ca_heap := (ca_heap s)(r := a)\<rparr>"

definition Add :: "agent_ref \<Rightarrow> ConnectionAgents \<Rightarrow> ConnectionAgents" where
  "Add r s =
     (let s = put_agent r (agent_Run (ca_heap s r)) s
      in s\<lparr>ca_agents := (ca_agents s)(ba_name (ca_heap s r) \<mapsto> r)\<rparr>)"

definition AttachAgentsToConnection :: "agent_ref list \<Rightarrow> ConnectionAgents \<Rightarrow> ConnectionAgents" where
  "AttachAgentsToConnection agents s = fold Add agents (s\<lparr>ca_agents := Map.empty\<rparr>)"

fun restart_each :: "(agent_ref \<Rightarrow> bool) \<Rightarrow> agent_ref list \<Rightarrow> ConnectionAgents \<Rightarrow> ConnectionAgents outcome" where
  "restart_each ends [] s = Done s"
| "restart_each ends (r # rs) s =
     bind_out (agent_Restart (ca_heap s r)) (\<lambda>a.
     bind_out (agent_Join (ends r) a) (\<lambda>a. restart_each ends rs (put_agent r a s)))"

definition run_each :: "agent_ref list \<Rightarrow> ConnectionAgents \<Rightarrow> ConnectionAgents" where
  "run_each rs s = fold (\<lambda>r s. put_agent r (agent_Run (ca_heap s r)) s) rs s"

definition restart_all :: "(agent_ref \<Rightarrow> bool) \<Rightarrow> agent_ref list \<Rightarrow> ConnectionAgents \<Rightarrow> ConnectionAgents outcome" where
  "restart_all ends agents s =
     bind_out (restart_each ends agents s) (\<lambda>s.
     let s = run_each agents (s\<lparr>ca_ConnectionRestart := False\<rparr>)
     in if ca_ConnectionRestarted s then Panics (PanicString ''close of closed channel'')
        else Done (s\<lparr>ca_ConnectionRestarted := True\<rparr>))"

definition Get :: "string \<Rightarrow> ConnectionAgents \<Rightarrow> agent_ref option" where
  "Get name s = ca_agents s name"

fun is_FrameProducer :: "AgentType \<Rightarrow> bool" where
  "is_FrameProducer AckAgent = True"
| "is_FrameProducer FlowControlAgent = True"
| "is_FrameProducer FrameQueueAgent = True"
| "is_FrameProducer StreamAgent = True"
| "is_FrameProducer _ = False"

definition GetFrameProducingAgents :: "agent_ref list \<Rightarrow> ConnectionAgents \<Rightarrow> agent_ref list" where
  "GetFrameProducingAgents order s = filter (\<lambda>r. is_FrameProducer (ba_type (ca_heap s r))) order"

definition stop_join :: "bool \<Rightarrow> agent_ref \<Rightarrow> ConnectionAgents \<Rightarrow> ConnectionAgents outcome" where
  "stop_join ends r s =
     bind_out (agent_Stop (ca_heap s r)) (\<lambda>a. bind_out (agent_Join ends a) (\<lambda>a. Done (put_agent r a s)))"

fun Stop_names :: "(agent_ref \<Rightarrow> bool) \<Rightarrow> string list \<Rightarrow> ConnectionAgents \<Rightarrow> ConnectionAgents outcome" where
  "Stop_names ends [] s = Done s"
| "Stop_names ends (n # ns) s =
     (case Get n s of
        None \<Rightarrow> Panics NilPointer
      | Some r \<Rightarrow> bind_out (stop_join (ends r) r s) (Stop_names ends ns))"

text \<open>\<open>order\<close> is the order in which the map of agents is visited.\<close>

fun StopAll :: "(agent_ref \<Rightarrow> bool) \<Rightarrow> agent_ref list \<Rightarrow> ConnectionAgents \<Rightarrow> ConnectionAgents outcome" where
  "StopAll ends [] s = Done s"
| "StopAll ends (r # order) s = bind_out (stop_join (ends r) r s) (StopAll ends order)"

definition new_Add :: "AgentType \<Rightarrow> ConnectionAgents \<Rightarrow> agent_ref \<times> ConnectionAgents" where
  "new_Add t s = (let r = ca_next s in (r, Add r (put_agent r (new_agent t) (s\<lparr>ca_next := r + 1\<rparr>))))"

definition get_or_add :: "AgentType \<Rightarrow> ConnectionAgents \<Rightarrow> agent_ref \<times> ConnectionAgents" where
  "get_or_add t s = (case Get (agent_name t) s of Some r \<Rightarrow> (r, s) | None \<Rightarrow> new_Add t s)"

definition join_ref :: "(agent_ref \<Rightarrow> bool) \<Rightarrow> agent_ref \<Rightarrow> ConnectionAgents \<Rightarrow> ConnectionAgents outcome" where
  "join_ref ends r s = bind_out (agent_Join (ends r) (ca_heap s r)) (\<lambda>a. Done (put_agent r a s))"

text \<open>\<open>closing\<close> and \<open>c\<close> are the closing agent and the connection at the time both agents were waited for.\<close>

definition agents_CloseConnection ::
    "(agent_ref \<Rightarrow> bool) \<Rightarrow> (ConnectionAgents \<Rightarrow> agent_ref list) \<Rightarrow> bool \<Rightarrow> u64 \<Rightarrow> bytes \<Rightarrow> ClosingAgent \<Rightarrow> Connection \<Rightarrow>
     ConnectionAgents \<Rightarrow> (ConnectionAgents \<times> ClosingAgent \<times> Connection) outcome" where
  "agents_CloseConnection ends order quicLayer errorCode reasonPhrase closing c s =
     (case get_or_add ClosingAgent s of (r, s) \<Rightarrow>
      bind_out (join_ref ends r s) (\<lambda>s.
      case get_or_add SendingAgent s of (q, s) \<Rightarrow>
      bind_out (join_ref ends q s) (\<lambda>s.
      case closing_Close quicLayer errorCode reasonPhrase closing c of (closing, c) \<Rightarrow>
      bind_out (StopAll ends (order s) s) (\<lambda>s. Done (s, closing, c)))))"

definition AddHTTPAgent :: "string \<Rightarrow> ConnectionAgents \<Rightarrow> agent_ref \<times> ConnectionAgents" where
  "AddHTTPAgent ALPN s = new_Add (if take 2 ALPN = ''h3'' then HTTP3Agent else HTTP09Agent) s"

definition GetDefaultAgents :: "AgentType list" where
  "GetDefaultAgents = [QLogAgent, SocketAgent, ParsingAgent, BufferAgent, TLSAgent, AckAgent, SendingAgent, RecoveryAgent, RTTAgent,
     FrameQueueAgent, FlowControlAgent, StreamAgent, ClosingAgent]"

definition GetBasicAgents :: "AgentType list" where
  "GetBasicAgents = [QLogAgent, SocketAgent, ParsingAgent, BufferAgent, TLSAgent, AckAgent, RTTAgent, FrameQueueAgent, FlowControlAgent,
     StreamAgent, ClosingAgent]"

section \<open>Waiting for agents\<close>

definition valid_agent :: "BaseAgent \<Rightarrow> bool" where
  "valid_agent a \<longleftrightarrow> ba_close a \<noteq> None \<and> ba_closed a = Some (\<not> ba_running a)"

definition alive :: "BaseAgent \<Rightarrow> bool" where
  "alive a \<longleftrightarrow> ba_close a = Some False \<and> ba_closed a = Some False \<and> ba_running a"

definition ended :: "BaseAgent \<Rightarrow> bool" where
  "ended a \<longleftrightarrow> ba_closed a = Some True \<and> \<not> ba_running a"

text \<open>The loop has ended although nobody stopped the agent.\<close>

definition orphan :: "BaseAgent \<Rightarrow> bool" where
  "orphan a \<longleftrightarrow> ba_close a = Some False \<and> \<not> ba_running a"

definition stopped :: "BaseAgent \<Rightarrow> BaseAgent" where
  "stopped a = (loop_ends a)\<lparr>ba_close := Some True\<rparr>"

definition update_agents :: "(BaseAgent \<Rightarrow> BaseAgent) \<Rightarrow> agent_ref set \<Rightarrow> ConnectionAgents \<Rightarrow> ConnectionAgents" where
  "update_agents f R s = s\<lparr>ca_heap := \<lambda>r. if r \<in> R then f (ca_heap s r) else ca_heap s r\<rparr>"

lemmas agent_states = valid_agent_def alive_def ended_def orphan_def

lemma agent_Run_alive [simp]: "alive (agent_Run a)" "valid_agent (agent_Run a)" "ba_type (agent_Run a) = ba_type a"
  "ba_name (agent_Run a) = agent_name (ba_type a)" "agent_Run (loop_ends a) = agent_Run a"
  by (simp_all add: agent_states agent_Run_def Init_def loop_ends_def)

lemma restart_join:
  "valid_agent a \<Longrightarrow> bind_out (agent_Restart a) (agent_Join e) = (if orphan a then Blocks else Done (loop_ends a))"
  by (cases a) (auto simp: agent_states agent_Restart_def agent_Join_def loop_ends_def simp del: bind_out_Done_iff split: option.splits bool.splits)

lemma stop_join_valid: "valid_agent (ca_heap s r) \<Longrightarrow> stop_join e r s = Done (put_agent r (stopped (ca_heap s r)) s)"
  by (cases "ca_heap s r")
    (auto simp: agent_states stop_join_def agent_Stop_def agent_Join_def loop_ends_def stopped_def simp del: bind_out_Done_iff
      split: option.splits bool.splits)

lemma update_agents_simps [simp]:
  "ca_heap (update_agents f R s) r = (if r \<in> R then f (ca_heap s r) else ca_heap s r)"
  "ca_agents (update_agents f R s) = ca_agents s" "ca_ConnectionRestarted (update_agents f R s) = ca_ConnectionRestarted s"
  by (simp_all add: update_agents_def)

lemma update_agents_empty [simp]: "update_agents f {} s = s"
  by (simp add: update_agents_def)

lemma update_agents_insert:
  "r \<notin> R \<Longrightarrow> update_agents f R (put_agent r (f (ca_heap s r)) s) = update_agents f (insert r R) s"
  by (auto simp: update_agents_def put_agent_def fun_eq_iff)

lemma put_agent_heap [simp]: "ca_heap (put_agent r a s) q = (if q = r then a else ca_heap s q)"
  by (simp add: put_agent_def)

lemma bind_out_assoc: "bind_out (bind_out m f) g = bind_out m (\<lambda>x. bind_out (f x) g)"
  by (cases m) simp_all

lemma restart_each_outcome:
  "distinct rs \<Longrightarrow> \<forall>r \<in> set rs. valid_agent (ca_heap s r) \<Longrightarrow>
   restart_each ends rs s = (if \<exists>r \<in> set rs. orphan (ca_heap s r) then Blocks else Done (update_agents loop_ends (set rs) s))"
proof (induction rs arbitrary: s)
  case (Cons r rs)
  have "restart_each ends (r # rs) s =
      bind_out (bind_out (agent_Restart (ca_heap s r)) (agent_Join (ends r))) (\<lambda>a. restart_each ends rs (put_agent r a s))"
    by (simp add: bind_out_assoc)
  also have "\<dots> = (if orphan (ca_heap s r) then Blocks else restart_each ends rs (put_agent r (loop_ends (ca_heap s r)) s))"
    using Cons.prems(2) by (simp add: restart_join)
  also have "restart_each ends rs (put_agent r (loop_ends (ca_heap s r)) s) =
      (if \<exists>q \<in> set rs. orphan (ca_heap s q) then Blocks else Done (update_agents loop_ends (set (r # rs)) s))"
  proof -
    have "ca_heap (put_agent r (loop_ends (ca_heap s r)) s) q = ca_heap s q" if "q \<in> set rs" for q
      using that Cons.prems(1) by auto
    with Cons.IH [of "put_agent r (loop_ends (ca_heap s r)) s"] Cons.prems show ?thesis
      by (simp add: update_agents_insert)
  qed
  finally show ?case by simp
qed simp

lemma run_each_distinct: "distinct rs \<Longrightarrow> run_each rs s = update_agents agent_Run (set rs) s"
proof (induction rs arbitrary: s)
  case (Cons r rs)
  then show ?case by (simp add: run_each_def update_agents_insert)
qed (simp add: run_each_def)

text \<open>A restart: it blocks exactly when the loop of an agent has ended by itself, and panics when the last restart was not acknowledged.\<close>

lemma restart_outcome:
  assumes "distinct agents" "\<forall>r \<in> set agents. valid_agent (ca_heap s r)"
  shows "restart_all ends agents s =
    (if \<exists>r \<in> set agents. orphan (ca_heap s r) then Blocks
     else if ca_ConnectionRestarted s then Panics (PanicString ''close of closed channel'')
     else Done ((update_agents agent_Run (set agents) s)\<lparr>ca_ConnectionRestart := False, ca_ConnectionRestarted := True\<rparr>))"
proof -
  have "update_agents agent_Run R ((update_agents loop_ends R s)\<lparr>ca_ConnectionRestart := b\<rparr>) =
      (update_agents agent_Run R s)\<lparr>ca_ConnectionRestart := b\<rparr>" for R b
    by (auto simp: update_agents_def fun_eq_iff)
  then show ?thesis
    by (simp add: restart_all_def restart_each_outcome [OF assms] run_each_distinct [OF assms(1)] Let_def)
qed

lemma StopAll_outcome:
  "distinct order \<Longrightarrow> \<forall>r \<in> set order. valid_agent (ca_heap s r) \<Longrightarrow> StopAll ends order s = Done (update_agents stopped (set order) s)"
proof (induction order arbitrary: s)
  case (Cons r rs)
  have "ca_heap (put_agent r (stopped (ca_heap s r)) s) q = ca_heap s q" if "q \<in> set rs" for q
    using that Cons.prems(1) by auto
  with Cons.IH [of "put_agent r (stopped (ca_heap s r)) s"] Cons.prems show ?case
    by (simp add: stop_join_valid update_agents_insert)
qed simp

lemma Add_alt:
  "Add r s = (update_agents agent_Run {r} s)\<lparr>ca_agents := (ca_agents s)(agent_name (ba_type (ca_heap s r)) \<mapsto> r)\<rparr>"
  by (auto simp: Add_def put_agent_def update_agents_def Let_def fun_eq_iff)

definition entry :: "ConnectionAgents \<Rightarrow> agent_ref \<Rightarrow> string \<times> agent_ref" where
  "entry s r = (agent_name (ba_type (ca_heap s r)), r)"

lemma attach_outcome:
  "distinct rs \<Longrightarrow> fold Add rs s =
     (update_agents agent_Run (set rs) s)\<lparr>ca_agents := ca_agents s ++ map_of (rev (map (entry s) rs))\<rparr>"
proof (induction rs arbitrary: s)
  case (Cons r rs)
  have e: "map (entry (Add r s)) rs = map (entry s) rs"
    using Cons.prems by (auto simp: entry_def Add_alt)
  have "fold Add (r # rs) s = (update_agents agent_Run (set rs) (Add r s))\<lparr>ca_agents := ca_agents (Add r s) ++ map_of (rev (map (entry s) rs))\<rparr>"
    using Cons by (simp add: e)
  also have "update_agents agent_Run (set rs) (Add r s) =
      (update_agents agent_Run (set (r # rs)) s)\<lparr>ca_agents := ca_agents (Add r s)\<rparr>"
    using Cons.prems by (auto simp: Add_alt update_agents_def fun_eq_iff)
  also have "ca_agents (Add r s) ++ map_of (rev (map (entry s) rs)) = ca_agents s ++ map_of (rev (map (entry s) (r # rs)))"
    by (simp add: Add_alt entry_def map_add_def fun_eq_iff split: option.splits)
  finally show ?case by simp
qed (simp add: update_agents_def)

lemma attached:
  assumes "distinct agents" "distinct (map (\<lambda>r. agent_name (ba_type (ca_heap s r))) agents)"
  shows "ca_heap (AttachAgentsToConnection agents s) r = (if r \<in> set agents then agent_Run (ca_heap s r) else ca_heap s r)"
    "r \<in> set agents \<Longrightarrow> Get (agent_name (ba_type (ca_heap s r))) (AttachAgentsToConnection agents s) = Some r"
    "ran (ca_agents (AttachAgentsToConnection agents s)) = set agents"
    "ca_ConnectionRestarted (AttachAgentsToConnection agents s) = ca_ConnectionRestarted s"
proof -
  let ?s = "s\<lparr>ca_agents := Map.empty\<rparr>"
  have e: "entry ?s = entry s" by (simp add: entry_def fun_eq_iff)
  have d: "distinct (map fst (rev (map (entry s) agents)))"
    using assms(2) by (simp add: entry_def comp_def rev_map [symmetric])
  have a: "ca_agents (AttachAgentsToConnection agents s) = map_of (rev (map (entry s) agents))"
    by (simp add: AttachAgentsToConnection_def attach_outcome [OF assms(1)] e)
  show "ca_heap (AttachAgentsToConnection agents s) r = (if r \<in> set agents then agent_Run (ca_heap s r) else ca_heap s r)"
    "ca_ConnectionRestarted (AttachAgentsToConnection agents s) = ca_ConnectionRestarted s"
    by (simp_all add: AttachAgentsToConnection_def attach_outcome [OF assms(1)])
  show "Get (agent_name (ba_type (ca_heap s r))) (AttachAgentsToConnection agents s) = Some r" if "r \<in> set agents"
    using that d by (auto simp: Get_def a map_of_eq_Some_iff entry_def)
  show "ran (ca_agents (AttachAgentsToConnection agents s)) = set agents"
    using ran_distinct [OF d] by (simp add: a entry_def image_image)
qed

section \<open>Closing the connection\<close>

text \<open>
  \<^verbatim>\<open>CloseConnection\<close> waits for the end of the sending agent before it queues the close frame, and stops the agents only after that: with a
  sending agent that runs it never returns, whatever the closing agent does.
\<close>

lemma close_connection_blocks:
  assumes "Get ''SendingAgent'' s = Some q" "alive (ca_heap s q)" "\<not> ends q" "Get ''ClosingAgent'' s = Some r" "r \<noteq> q"
  shows "agents_CloseConnection ends order quicLayer errorCode reasonPhrase closing c s = Blocks"
proof -
  have q: "ca_agents (put_agent r a s) = ca_agents s" "ca_heap (put_agent r a s) q = ca_heap s q" for a
    using assms(5) by (simp_all add: put_agent_def)
  have "join_ref ends q (put_agent r a s) = Blocks" for a
    using assms(2,3,5) by (simp add: join_ref_def q agent_Join_def alive_def)
  moreover have "join_ref ends r s = Blocks \<or> (\<exists>a. join_ref ends r s = Done (put_agent r a s))"
    by (auto simp: join_ref_def agent_Join_def split: option.splits bool.splits)
  ultimately show ?thesis
    using assms(1,4) by (auto simp: agents_CloseConnection_def get_or_add_def Get_def q)
qed

section \<open>Properties\<close>


definition default_agents :: ConnectionAgents where
  "default_agents = \<lparr>ca_heap = \<lambda>r. new_agent (GetDefaultAgents ! r), ca_next = 13, ca_agents = Map.empty, ca_ConnectionRestart = True,
     ca_ConnectionRestarted = False\<rparr>"


end
