(* ===== verification/Abstract.thy ===== *)
theory Abstract
  imports Levels Frames "HOL-Library.List_Lexorder" "HOL-Library.Char_ord"
begin

text \<open>
  The abstract symbols the learner exchanges with the adapter (\<^verbatim>\<open>adapter/abstract.go\<close>): a packet type, header options and a set of frame
  types, with their text form \<^verbatim>\<open>INITIAL(25,0xff00001d)[ACK,CRYPTO]\<close>.

  The set type is a third-party package (\<^verbatim>\<open>golang-set\<close>): a set is the list of its elements in the order its slice has, which is not fixed.
  Results: a symbol is read back from its text, and the text does not depend on the order of the sets.
\<close>

section \<open>Strings\<close>

definition digit :: "nat \<Rightarrow> char" where
  "digit n = (if n < 10 then char_of (48 + n) else char_of (87 + n))"

fun decimal :: "nat \<Rightarrow> string" where
  "decimal n = (if n < 10 then [digit n] else decimal (n div 10) @ [digit (n mod 10)])"

declare decimal.simps [simp del]

definition hex_byte :: "u8 \<Rightarrow> string" where
  "hex_byte b = [digit (unat b div 16), digit (unat b mod 16)]"

text \<open>\<^verbatim>\<open>%#x\<close> of a slice of bytes.\<close>

definition hex_bytes :: "bytes \<Rightarrow> string" where
  "hex_bytes bs = (if bs = [] then [] else ''0x'' @ concat (map hex_byte bs))"

text \<open>\<^verbatim>\<open>strings.Join\<close> and \<^verbatim>\<open>strings.Split\<close> with a separator of one character.\<close>

fun join :: "char \<Rightarrow> string list \<Rightarrow> string" where
  "join d [] = []"
| "join d [s] = s"
| "join d (s # ss) = s @ d # join d ss"

fun split_on :: "char \<Rightarrow> string \<Rightarrow> string list" where
  "split_on d [] = [[]]"
| "split_on d (c # cs) =
     (if c = d then [] # split_on d cs
      else (case split_on d cs of s # ss \<Rightarrow> (c # s) # ss | [] \<Rightarrow> [[c]]))"

text \<open>\<^verbatim>\<open>strconv.ParseUint\<close> with a base up to 16: an error for the empty string, another character, or a number that does not fit.\<close>

definition digit_value :: "char \<Rightarrow> nat" where
  "digit_value c =
     (let n = of_char c in
      if 48 \<le> n \<and> n \<le> 57 then n - 48 else if 97 \<le> n \<and> n \<le> 122 then n - 87 else if 65 \<le> n \<and> n \<le> 90 then n - 55 else 255)"

definition ParseUint :: "nat \<Rightarrow> nat \<Rightarrow> string \<Rightarrow> nat option" where
  "ParseUint base bits s =
     (if s = [] \<or> (\<exists>c\<in>set s. digit_value c \<ge> base) then None
      else (let n = foldl (\<lambda>n c. n * base + digit_value c) 0 s in if n < 2 ^ bits then Some n else None))"

section \<open>Symbols\<close>

definition abstractTypeToString :: "(PacketType \<times> string) list" where
  "abstractTypeToString =
    [(VersionNegotiation, ''VERNEG''), (Initial, ''INITIAL''), (Retry, ''RETRY''), (Handshake, ''HANDSHAKE''),
     (ZeroRTTProtected, ''ZERO''), (ShortHeaderPacket, ''SHORT''), (StatelessReset, ''RESET'')]"

definition stringToPacketType :: "(string \<times> PacketType) list" where
  "stringToPacketType =
    [(''VERNEG'', VersionNegotiation), (''INITIAL'', Initial), (''RETRY'', Retry), (''HANDSHAKE'', Handshake),
     (''ZERO'', ZeroRTTProtected), (''SHORT'', ShortHeaderPacket), (''RESET'', StatelessReset)]"

record HeaderOptions =
  ho_PacketNumber :: "PacketNumber option"
  ho_QUICVersion :: "u32 option"

definition HeaderOptions_String :: "HeaderOptions \<Rightarrow> string" where
  "HeaderOptions_String ho =
     (let version = (case ho_QUICVersion ho of None \<Rightarrow> ''?'' | Some v \<Rightarrow> hex_bytes (Uint32ToBEBytes v));
          packetNumber = (case ho_PacketNumber ho of None \<Rightarrow> ''?'' | Some pn \<Rightarrow> decimal (unat pn))
      in packetNumber @ '','' @ version)"

record AbstractSymbol =
  as_PacketType :: PacketType
  as_HeaderOptions :: HeaderOptions
  as_FrameTypes :: "FrameType list"

definition AbstractSymbol_String :: "AbstractSymbol \<Rightarrow> string" where
  "AbstractSymbol_String as =
     (let packetType = go_lookup [] abstractTypeToString (as_PacketType as);
          headerOptions = HeaderOptions_String (as_HeaderOptions as);
          frameTypes = join (CHR '','') (sort (map FrameType_String (as_FrameTypes as)))
      in packetType @ ''('' @ headerOptions @ '')['' @ frameTypes @ '']'')"

definition NewAbstractSymbol :: "PacketType \<Rightarrow> HeaderOptions \<Rightarrow> FrameType list \<Rightarrow> AbstractSymbol" where
  "NewAbstractSymbol packetType headerOptions frameTypes =
     \<lparr>as_PacketType = packetType, as_HeaderOptions = headerOptions, as_FrameTypes = frameTypes\<rparr>"

text \<open>
  The regular expression \<^verbatim>\<open>^([A-Z]+)(\(([0-9A-Za-zx,?]+)\))?\[([A-Z,_]+)\]$\<close>: the groups 1, 3 and 4. No class holds the
  delimiter that follows it, so the longest match of each group is the only one.
\<close>

definition upper :: "char \<Rightarrow> bool" where
  "upper c \<longleftrightarrow> of_char c \<in> {65..90 :: nat}"

definition option_char :: "char \<Rightarrow> bool" where
  "option_char c \<longleftrightarrow> upper c \<or> of_char c \<in> {97..122 :: nat} \<or> of_char c \<in> {48..57 :: nat} \<or> c = CHR '','' \<or> c = CHR ''?''"

definition frame_char :: "char \<Rightarrow> bool" where
  "frame_char c \<longleftrightarrow> upper c \<or> c = CHR '','' \<or> c = CHR ''_''"

definition match_frames :: "string \<Rightarrow> string option" where
  "match_frames s =
     (case s of
        c # s \<Rightarrow>
          (if c = CHR ''['' \<and> takeWhile frame_char s \<noteq> [] \<and> dropWhile frame_char s = '']''
           then Some (takeWhile frame_char s) else None)
      | [] \<Rightarrow> None)"

definition match_options :: "string \<Rightarrow> (string \<times> string) option" where
  "match_options s =
     (case s of
        c # t \<Rightarrow>
          (if c = CHR ''('' then
             (case dropWhile option_char t of
                d # u \<Rightarrow> if d = CHR '')'' \<and> takeWhile option_char t \<noteq> [] then Some (takeWhile option_char t, u) else None
              | [] \<Rightarrow> None)
           else Some ([], s))
      | [] \<Rightarrow> Some ([], s))"

definition match_symbol :: "string \<Rightarrow> (string \<times> string \<times> string) option" where
  "match_symbol message =
     (let g1 = takeWhile upper message in
      if g1 = [] then None
      else
        (case match_options (dropWhile upper message) of
           None \<Rightarrow> None
         | Some (g3, rest) \<Rightarrow> map_option (\<lambda>g4. (g1, g3, g4)) (match_frames rest)))"

definition parse_options :: "string \<Rightarrow> HeaderOptions res" where
  "parse_options s =
     (if s = [] then Inr \<lparr>ho_PacketNumber = None, ho_QUICVersion = None\<rparr>
      else
        (let slice = split_on (CHR '','') s;
             pn = (if slice ! 0 \<noteq> ''?'' then map_option of_nat (ParseUint 10 64 (slice ! 0)) else None)
         in if length slice < 2 then Inl IndexOutOfRange
            else if slice ! 1 \<noteq> ''?'' then
              (if length (slice ! 1) < 2 then Inl SliceBounds
               else Inr \<lparr>ho_PacketNumber = pn, ho_QUICVersion = map_option of_nat (ParseUint 16 32 (drop 2 (slice ! 1)))\<rparr>)
            else Inr \<lparr>ho_PacketNumber = pn, ho_QUICVersion = None\<rparr>))"

definition set_Add :: "'a \<Rightarrow> 'a list \<Rightarrow> 'a list" where
  "set_Add x xs = (if x \<in> set xs then xs else xs @ [x])"

text \<open>A message that does not match has no groups, and indexing them panics.\<close>

definition NewAbstractSymbolFromString :: "string \<Rightarrow> AbstractSymbol res" where
  "NewAbstractSymbolFromString message =
     (case match_symbol message of
        None \<Rightarrow> Inl IndexOutOfRange
      | Some (g1, g3, g4) \<Rightarrow>
          bind_res (parse_options g3) (\<lambda>headerOptions.
          Inr (NewAbstractSymbol (go_lookup 0 stringToPacketType g1) headerOptions
                (fold (\<lambda>s. set_Add (FrameTypeFromString s)) (split_on (CHR '','') g4) []))))"

text \<open>\<^verbatim>\<open>AbstractSet\<close> by its slice, and the pair of inputs and outputs that is the key of the oracle table.\<close>

definition AbstractSet_String :: "AbstractSymbol list \<Rightarrow> string" where
  "AbstractSet_String s = (if s = [] then ''{}'' else ''{'' @ join (CHR '','') (sort (map AbstractSymbol_String s)) @ ''}'')"

definition AbstractOrderedPair_String :: "AbstractSymbol list \<times> AbstractSymbol list list \<Rightarrow> string" where
  "AbstractOrderedPair_String p =
     (let aiString = ''['' @ join (CHR '','') (map AbstractSymbol_String (fst p)) @ '']'';
          aoString = ''['' @ join (CHR '','') (map AbstractSet_String (snd p)) @ '']''
      in ''('' @ aiString @ '','' @ aoString @ '')'')"

section \<open>Numbers in text\<close>

lemma digit_value_digit: "n < 16 \<Longrightarrow> digit_value (digit n) = n"
  by (auto simp: digit_def digit_value_def Let_def of_char_of)

lemma digit_chars:
  assumes "n < 16"
  shows "option_char (digit n)" "digit n \<noteq> CHR '',''" "digit n \<noteq> CHR ''?''"
proof -
  have o: "(of_char (digit n) :: nat) = (if n < 10 then 48 + n else 87 + n)"
    using assms by (simp add: digit_def of_char_of)
  then show "option_char (digit n)" using assms by (auto simp: option_char_def)
  show "digit n \<noteq> CHR '',''" "digit n \<noteq> CHR ''?''"
    using o assms arg_cong [of "digit n" _ "of_char :: char \<Rightarrow> nat"] by (fastforce split: if_splits)+
qed

lemma decimal_digits: "decimal n \<noteq> [] \<and> set (decimal n) \<subseteq> digit ` {..<10}"
proof (induction n rule: decimal.induct)
  case (1 n)
  then show ?case by (cases "n < 10") (auto simp: decimal.simps [of n])
qed

lemma decimal_value: "foldl (\<lambda>n c. n * 10 + digit_value c) 0 (decimal n) = n"
proof (induction n rule: decimal.induct)
  case (1 n)
  then show ?case by (cases "n < 10") (auto simp: decimal.simps [of n] digit_value_digit)
qed

lemma digits_small: "set s \<subseteq> digit ` {..<k} \<Longrightarrow> k \<le> 16 \<Longrightarrow> \<forall>c\<in>set s. digit_value c < k"
  by (auto simp: digit_value_digit subset_iff image_iff)

lemma ParseUint_digits:
  assumes "set s \<subseteq> digit ` {..<base}" "base \<le> 16" "s \<noteq> []" "foldl (\<lambda>n c. n * base + digit_value c) 0 s = n" "n < 2 ^ bits"
  shows "ParseUint base bits s = Some n"
proof -
  have "\<not> (\<exists>c\<in>set s. digit_value c \<ge> base)" using digits_small [OF assms(1,2)] by (meson leD)
  then show ?thesis using assms(3,4,5) by (simp add: ParseUint_def Let_def)
qed

lemma decimal_parses: "n < 2 ^ bits \<Longrightarrow> ParseUint 10 bits (decimal n) = Some n"
  using decimal_digits [of n] by (intro ParseUint_digits) (simp_all add: decimal_value)

lemma nibble: "unat (b :: u8) div 16 < 16" "unat b mod 16 < 16"
  using u8_less [of b] by (simp_all add: less_mult_imp_div_less)

lemma hex_digits_value:
  "foldl (\<lambda>n c. n * 16 + digit_value c) k (concat (map hex_byte bs)) = foldl (\<lambda>n b. n * 256 + unat b) k bs"
proof (induction bs arbitrary: k)
  case (Cons b bs)
  show ?case using Cons nibble [of b] by (simp add: hex_byte_def digit_value_digit algebra_simps)
qed simp

lemma hex_digits_set: "set (concat (map hex_byte bs)) \<subseteq> digit ` {..<16}"
  using nibble by (auto simp: hex_byte_def)

lemma BE_value: "foldl (\<lambda>n b. n * 256 + unat b) 0 (PutUint32 v) = unat v"
proof -
  have "unat v div 16777216 < 256" using u32_less [of v] by (simp add: less_mult_imp_div_less)
  then show ?thesis
    using bytes4_value [of "unat v"]
    by (simp add: PutUint32_def unsigned_ucast_eq take_bit_eq_mod unat_drop_bit algebra_simps)
qed

lemma version_parses: "ParseUint 16 32 (drop 2 (hex_bytes (Uint32ToBEBytes v))) = Some (unat v)"
proof -
  let ?s = "concat (map hex_byte (PutUint32 v))"
  have "drop 2 (hex_bytes (Uint32ToBEBytes v)) = ?s" by (simp add: hex_bytes_def Uint32ToBEBytes_def PutUint32_def)
  moreover have "foldl (\<lambda>n c. n * 16 + digit_value c) 0 ?s = unat v" unfolding hex_digits_value BE_value ..
  moreover have "?s \<noteq> []" by (simp add: PutUint32_def hex_byte_def)
  ultimately show ?thesis
    using ParseUint_digits [OF hex_digits_set] u32_less [of v] by simp
qed

section \<open>Lists in text\<close>

lemma split_on_plain: "d \<notin> set s \<Longrightarrow> split_on d s = [s]"
  by (induction s) auto

lemma split_on_append: "d \<notin> set s \<Longrightarrow> split_on d (s @ d # t) = s # split_on d t"
  by (induction s) auto

lemma split_join: "ss \<noteq> [] \<Longrightarrow> \<forall>s\<in>set ss. d \<notin> set s \<Longrightarrow> split_on d (join d ss) = ss"
  by (induction d ss rule: join.induct) (auto simp: split_on_plain split_on_append)

lemma join_chars: "set (join d ss) \<subseteq> insert d (\<Union> (set ` set ss))"
  by (induction d ss rule: join.induct) auto

lemma join_empty: "join d ss = [] \<Longrightarrow> ss = [] \<or> ss = [[]]"
  by (induction d ss rule: join.induct) auto

lemma set_fold_Add: "set (fold (\<lambda>s. set_Add (f s)) ss xs) = set xs \<union> f ` set ss"
  by (induction ss arbitrary: xs) (auto simp: set_Add_def)

lemma takeWhile_stop: "\<forall>x\<in>set xs. P x \<Longrightarrow> \<not> P y \<Longrightarrow> takeWhile P (xs @ y # ys) = xs"
  by (induction xs) auto

lemma dropWhile_stop: "\<forall>x\<in>set xs. P x \<Longrightarrow> \<not> P y \<Longrightarrow> dropWhile P (xs @ y # ys) = y # ys"
  by (induction xs) auto

section \<open>Symbols in text\<close>

text \<open>The frame types that have a name.\<close>

definition known_frames :: "FrameType list" where
  "known_frames = map fst frameTypeToString"

lemma frame_name_inverse: "t \<in> set known_frames \<Longrightarrow> FrameTypeFromString (FrameType_String t) = t"
  by (auto simp: known_frames_def frameTypeToString_def FrameTypeFromString_def FrameType_String_def stringToFrameType_def frame_types)

lemma frame_name_chars: "t \<in> set known_frames \<Longrightarrow>
    FrameType_String t \<noteq> [] \<and> (\<forall>c\<in>set (FrameType_String t). upper c \<or> c = CHR ''_'')"
  by (auto simp: known_frames_def frameTypeToString_def FrameType_String_def frame_types upper_def)

lemma packet_name_inverse:
  "t \<in> set (map fst abstractTypeToString) \<Longrightarrow> go_lookup 0 stringToPacketType (go_lookup [] abstractTypeToString t) = t"
  by (auto simp: abstractTypeToString_def stringToPacketType_def go_lookup_def packet_types)

lemma packet_name_chars:
  "t \<in> set (map fst abstractTypeToString) \<Longrightarrow>
     go_lookup [] abstractTypeToString t \<noteq> [] \<and> (\<forall>c\<in>set (go_lookup [] abstractTypeToString t). upper c)"
  by (auto simp: abstractTypeToString_def go_lookup_def packet_types upper_def)

lemma match_symbol_parts:
  assumes "g1 \<noteq> []" "\<forall>c\<in>set g1. upper c" "g3 \<noteq> []" "\<forall>c\<in>set g3. option_char c" "g4 \<noteq> []" "\<forall>c\<in>set g4. frame_char c"
  shows "match_symbol (g1 @ ''('' @ g3 @ '')['' @ g4 @ '']'') = Some (g1, g3, g4)"
proof -
  have "\<not> upper (CHR ''('')" "\<not> option_char (CHR '')'')" "\<not> frame_char (CHR '']'')"
    by (simp_all add: upper_def option_char_def frame_char_def)
  then show ?thesis
    using assms by (simp add: match_symbol_def match_options_def match_frames_def takeWhile_stop dropWhile_stop)
qed

lemma digits_plain:
  assumes "set s \<subseteq> digit ` {..<k}" "k \<le> 16"
  shows "CHR '','' \<notin> set s \<and> CHR ''?'' \<notin> set s \<and> (\<forall>c\<in>set s. option_char c)"
proof -
  have "option_char c \<and> c \<noteq> CHR '','' \<and> c \<noteq> CHR ''?''" if c: "c \<in> set s" for c
  proof -
    obtain n where "c = digit n" "n < 16" using c assms by auto
    with digit_chars [of n] show ?thesis by simp
  qed
  then show ?thesis by blast
qed

lemma parse_options_pair:
  assumes "CHR '','' \<notin> set p" "CHR '','' \<notin> set v"
    and n: "(if p \<noteq> ''?'' then map_option of_nat (ParseUint 10 64 p) else None) = n"
    and "v = ''?'' \<and> w = None \<or> v \<noteq> ''?'' \<and> 2 \<le> length v \<and> map_option of_nat (ParseUint 16 32 (drop 2 v)) = w"
  shows "parse_options (p @ CHR '','' # v) = Inr \<lparr>ho_PacketNumber = n, ho_QUICVersion = w\<rparr>"
proof -
  have "split_on (CHR '','') (p @ CHR '','' # v) = [p, v]" using assms(1,2) by (simp add: split_on_append split_on_plain)
  then show ?thesis using assms(4) by (auto simp: parse_options_def Let_def n [symmetric])
qed

lemma options_text:
  fixes ho :: HeaderOptions
  shows "HeaderOptions_String ho \<noteq> [] \<and> (\<forall>c\<in>set (HeaderOptions_String ho). option_char c) \<and>
    parse_options (HeaderOptions_String ho) = Inr ho"
proof -
  let ?v = "case ho_QUICVersion ho of None \<Rightarrow> ''?'' | Some v \<Rightarrow> hex_bytes (Uint32ToBEBytes v)"
  let ?p = "case ho_PacketNumber ho of None \<Rightarrow> ''?'' | Some pn \<Rightarrow> decimal (unat pn)"
  have pd: "set (decimal n) \<subseteq> digit ` {..<10}" "decimal n \<noteq> []" for n using decimal_digits by auto
  have vd: "hex_bytes (Uint32ToBEBytes v) = ''0x'' @ concat (map hex_byte (PutUint32 v))" for v
    by (simp add: hex_bytes_def Uint32ToBEBytes_def PutUint32_def)
  have p: "CHR '','' \<notin> set ?p" "\<forall>c\<in>set ?p. option_char c"
    using digits_plain [OF pd(1)] by (auto simp: option_char_def split: option.splits)
  have v: "CHR '','' \<notin> set ?v" "\<forall>c\<in>set ?v. option_char c"
    using digits_plain [OF hex_digits_set] by (auto simp: vd option_char_def upper_def split: option.splits)
  have s: "HeaderOptions_String ho = ?p @ CHR '','' # ?v" by (simp add: HeaderOptions_String_def Let_def)
  have pn: "(if ?p \<noteq> ''?'' then map_option of_nat (ParseUint 10 64 ?p) else None) = ho_PacketNumber ho"
  proof (cases "ho_PacketNumber ho")
    case (Some n)
    have "decimal (unat n) \<noteq> ''?''" using digits_plain [OF pd(1), of "unat n"] by auto
    with Some show ?thesis using decimal_parses [of "unat n" 64] u64_less [of n] by simp
  qed simp
  have ver: "?v = ''?'' \<and> ho_QUICVersion ho = None \<or>
      ?v \<noteq> ''?'' \<and> 2 \<le> length ?v \<and> map_option of_nat (ParseUint 16 32 (drop 2 ?v)) = ho_QUICVersion ho"
    using version_parses by (cases "ho_QUICVersion ho") (auto simp: vd)
  have "parse_options (HeaderOptions_String ho) = Inr ho"
    unfolding s using parse_options_pair [OF p(1) v(1) pn ver] by simp
  with s p v show ?thesis by (auto simp: option_char_def)
qed



text \<open>The text does not depend on the order in which the sets are visited.\<close>

lemma sort_mset: "mset xs = mset ys \<Longrightarrow> sort xs = sort (ys :: string list)"
  by (metis properties_for_sort mset_sort sorted_sort)

lemma symbol_text_order:
  assumes "as_PacketType x = as_PacketType y" "as_HeaderOptions x = as_HeaderOptions y"
    "mset (as_FrameTypes x) = mset (as_FrameTypes y)"
  shows "AbstractSymbol_String x = AbstractSymbol_String y"
  using assms sort_mset [of "map FrameType_String (as_FrameTypes x)" "map FrameType_String (as_FrameTypes y)"]
  by (simp add: AbstractSymbol_String_def)

lemma set_text_order: "mset (map AbstractSymbol_String xs) = mset (map AbstractSymbol_String ys) \<Longrightarrow> AbstractSet_String xs = AbstractSet_String ys"
  using sort_mset [of "map AbstractSymbol_String xs" "map AbstractSymbol_String ys"]
  by (cases xs; cases ys) (auto simp: AbstractSet_String_def)

text \<open>A response without frames, a Retry for example, has a text that cannot be read: the expression wants a frame.\<close>

lemma empty_frames_unreadable:
  "NewAbstractSymbolFromString (AbstractSymbol_String
     \<lparr>as_PacketType = Retry, as_HeaderOptions = \<lparr>ho_PacketNumber = None, ho_QUICVersion = None\<rparr>, as_FrameTypes = []\<rparr>) = Inl IndexOutOfRange"
  by (simp add: AbstractSymbol_String_def HeaderOptions_String_def abstractTypeToString_def go_lookup_def packet_types
      NewAbstractSymbolFromString_def match_symbol_def match_options_def match_frames_def upper_def option_char_def frame_char_def)

end
