(* ===== verification/Adapter.thy ===== *)
theory Adapter
  imports ConnOps Abstract
begin

text \<open>
  The adapter between the learner and the connection (\<^verbatim>\<open>adapter/adapter.go\<close>, \<^verbatim>\<open>adapter/concrete.go\<close>,
  \<^verbatim>\<open>adapter/abstract_concrete_map.go\<close>): what it does with an abstract symbol of the learner, with a packet of the
  server, and the queries with their replies and the oracle table.

  What the adapter sends to the channels of the agents is a list of commands. Agents and loop run beside a query: the events of a query
  are arguments of the model. The version in a response is not copied but a pointer, to the packet or to the connection, and is read when
  the response is printed.

  Results: what a request makes of its frame types, that the responses are the abstraction of the packets received, and that the
  oracle table has the packets of every query.
\<close>

section \<open>The adapter\<close>

datatype version_ref = NoVersion | ConnectionVersion | PacketVersion u32

record Response =
  re_PacketType :: PacketType
  re_PacketNumber :: "PacketNumber option"
  re_QUICVersion :: version_ref
  re_FrameTypes :: "FrameType list"

fun read_version :: "Connection \<Rightarrow> version_ref \<Rightarrow> u32 option" where
  "read_version c NoVersion = None"
| "read_version c ConnectionVersion = Some (c_Version c)"
| "read_version c (PacketVersion v) = Some v"

definition response_symbol :: "Connection \<Rightarrow> Response \<Rightarrow> AbstractSymbol" where
  "response_symbol c r = NewAbstractSymbol (re_PacketType r)
     \<lparr>ho_PacketNumber = re_PacketNumber r, ho_QUICVersion = read_version c (re_QUICVersion r)\<rparr> (re_FrameTypes r)"

text \<open>\<open>ad_outgoingResponse\<close> and \<open>ad_incomingPacketSet\<close> in the order of arrival; every response has a frame set of its own, so none is a duplicate.\<close>

record Adapter =
  ad_connection :: Connection
  ad_http3 :: bool
  ad_httpPath :: string
  ad_outgoingPacket :: "Packet option"
  ad_incomingPacketSet :: "Packet list"
  ad_incomingRequest :: AbstractSymbol
  ad_outgoingResponse :: "Response list"
  ad_oracleTable :: "string \<Rightarrow> (Packet option list \<times> Packet list list) option"

datatype command = AckSend PNSpace | TlsSendFrom EncryptionLevel | HTTPRequest bool string | StreamSend FrameRequest
  | FlowControlSend FrameRequest

section \<open>Requests\<close>

definition queue_frame :: "Frame \<Rightarrow> EncryptionLevel \<Rightarrow> Connection \<Rightarrow> Connection" where
  "queue_frame f encLevel c = submit_frame \<lparr>qf_Frame = f, qf_EncryptionLevel = encLevel\<rparr> c"

definition stream_requests :: "Adapter \<Rightarrow> command list" where
  "stream_requests a =
     (if c_StreamQueue (ad_connection a) \<lparr>fr_FrameType = StreamType, fr_EncryptionLevel = EncryptionLevel1RTT\<rparr> = []
      then [HTTPRequest (ad_http3 a) (ad_httpPath a)] else [])"

text \<open>One frame type of a request. The case of \<^verbatim>\<open>MaxDataType\<close> is empty: Go does not fall through.\<close>

definition request_frame :: "PNSpace \<Rightarrow> EncryptionLevel \<Rightarrow> FrameType \<Rightarrow> Adapter \<Rightarrow> (Adapter \<times> command list) res" where
  "request_frame pnSpace encLevel t a =
     (if t = AckType then Inr (a, [AckSend pnSpace])
      else if t = PingType then Inr (a\<lparr>ad_connection := queue_frame PingFrame encLevel (ad_connection a)\<rparr>, [])
      else if t = CryptoType then Inr (a, [TlsSendFrom encLevel])
      else if t = PaddingFrameType then Inr (a\<lparr>ad_connection := queue_frame PaddingFrame encLevel (ad_connection a)\<rparr>, [])
      else if t = StreamType then
        Inr (a, stream_requests a @ [StreamSend \<lparr>fr_FrameType = StreamType, fr_EncryptionLevel = encLevel\<rparr>])
      else if t = MaxDataType then Inr (a, [])
      else if t = MaxStreamDataType then Inr (a, [FlowControlSend \<lparr>fr_FrameType = t, fr_EncryptionLevel = encLevel\<rparr>])
      else if t = HandshakeDoneType then Inr (a\<lparr>ad_connection := queue_frame HandshakeDone encLevel (ad_connection a)\<rparr>, [])
      else Inl (PanicString (''Error: Frame Type not implemented!'')))"

fun request_frames :: "PNSpace \<Rightarrow> EncryptionLevel \<Rightarrow> FrameType list \<Rightarrow> Adapter \<Rightarrow> (Adapter \<times> command list) res" where
  "request_frames pnSpace encLevel [] a = Inr (a, [])"
| "request_frames pnSpace encLevel (t # ts) a =
     bind_res (request_frame pnSpace encLevel t a) (\<lambda>(a, cs).
     bind_res (request_frames pnSpace encLevel ts a) (\<lambda>(a, ds). Inr (a, cs @ ds)))"

definition set_options :: "PNSpace \<Rightarrow> HeaderOptions \<Rightarrow> Connection \<Rightarrow> Connection" where
  "set_options pnSpace ho c =
     (let c = (case ho_QUICVersion ho of None \<Rightarrow> c | Some v \<Rightarrow> c\<lparr>c_Version := v\<rparr>)
      in case ho_PacketNumber ho of None \<Rightarrow> c | Some pn \<Rightarrow> c\<lparr>c_PacketNumber := (c_PacketNumber c)(pnSpace := pn)\<rparr>)"

definition adapter_request :: "AbstractSymbol \<Rightarrow> Adapter \<Rightarrow> (Adapter \<times> command list) res" where
  "adapter_request as a =
     (let pnSpace = PacketTypeToPNSpace (as_PacketType as);
          encLevel = PacketTypeToEncryptionLevel (as_PacketType as);
          a = a\<lparr>ad_connection := set_options pnSpace (as_HeaderOptions as) (ad_connection a)\<rparr>
      in bind_res (request_frames pnSpace encLevel (as_FrameTypes as) a) (\<lambda>(a, cs).
         Inr (a\<lparr>ad_connection := submit_prepare encLevel (ad_connection a)\<rparr>, cs)))"

section \<open>Responses\<close>

definition visible_frames :: "Packet \<Rightarrow> FrameType list" where
  "visible_frames p =
     (case framer p of
        None \<Rightarrow> []
      | Some q \<Rightarrow> fold (\<lambda>f ts. if FrameType f \<noteq> PaddingFrameType then set_Add (FrameType f) ts else ts) (fp_Frames q) [])"

text \<open>\<open>None\<close> for a packet with frames of which none is visible.\<close>

fun classify :: "Packet \<Rightarrow> (PacketType \<times> version_ref) option" where
  "classify (VersionNegotiationP p) = Some (VersionNegotiation, PacketVersion (vn_Version p))"
| "classify (RetryP p) = Some (Retry, NoVersion)"
| "classify (StatelessResetP p) = Some (StatelessReset, NoVersion)"
| "classify p =
     (case framer p of
        None \<Rightarrow> None
      | Some q \<Rightarrow> if visible_frames p = [] then None else Some (GetPacketType (fp_Header q), ConnectionVersion))"

definition adapter_response :: "Packet \<Rightarrow> Adapter \<Rightarrow> Adapter" where
  "adapter_response p a =
     (case classify p of
        None \<Rightarrow> a
      | Some (packetType, version) \<Rightarrow>
          (let request = as_HeaderOptions (ad_incomingRequest a);
               packetNumber = (if ho_PacketNumber request = None then None else map_option GetPacketNumber (GetHeader p));
               version = (if ho_QUICVersion request = None then NoVersion else version)
           in a\<lparr>ad_incomingPacketSet := ad_incomingPacketSet a @ [p],
                ad_outgoingResponse := ad_outgoingResponse a @
                  [\<lparr>re_PacketType = packetType, re_PacketNumber = packetNumber, re_QUICVersion = version,
                    re_FrameTypes = visible_frames p\<rparr>]\<rparr>))"

definition adapter_sent :: "Packet \<Rightarrow> Adapter \<Rightarrow> Adapter" where
  "adapter_sent p a = a\<lparr>ad_outgoingPacket := Some p\<rparr>"

section \<open>Queries\<close>

text \<open>
  What happens in the loop while a query waits: the submitted symbol is handled, a packet arrives or was sent, or the agents change the
  connection.
\<close>

datatype adapter_event = Handle | Received Packet | Sent Packet | Agents "Connection \<Rightarrow> Connection"

fun adapter_event_do :: "adapter_event \<Rightarrow> Adapter \<Rightarrow> (Adapter \<times> command list) res" where
  "adapter_event_do Handle a = adapter_request (ad_incomingRequest a) a"
| "adapter_event_do (Received p) a = Inr (adapter_response p a, [])"
| "adapter_event_do (Sent p) a = Inr (adapter_sent p a, [])"
| "adapter_event_do (Agents f) a = Inr (a\<lparr>ad_connection := f (ad_connection a)\<rparr>, [])"

fun adapter_events :: "adapter_event list \<Rightarrow> Adapter \<Rightarrow> (Adapter \<times> command list) res" where
  "adapter_events [] a = Inr (a, [])"
| "adapter_events (e # es) a =
     bind_res (adapter_event_do e a) (\<lambda>(a, cs). bind_res (adapter_events es a) (\<lambda>(a, ds). Inr (a, cs @ ds)))"

definition is_handle :: "adapter_event \<Rightarrow> bool" where
  "is_handle e \<longleftrightarrow> (case e of Handle \<Rightarrow> True | _ \<Rightarrow> False)"

text \<open>
  One message of a query with the events until the outputs are taken and those until the next message. The symbol is only submitted when
  there is a crypto state for its level. The output sets are shared with the adapter, so they also hold what arrives late; the packet
  sent is not.
\<close>

definition query_message ::
    "string \<times> adapter_event list \<times> adapter_event list \<Rightarrow> Adapter \<Rightarrow>
     (Adapter \<times> (AbstractSymbol \<times> Response list \<times> Packet option \<times> Packet list)) res" where
  "query_message m a =
     (case m of (message, wait, late) \<Rightarrow>
      bind_res (NewAbstractSymbolFromString message) (\<lambda>request.
      let a = a\<lparr>ad_outgoingResponse := [], ad_incomingPacketSet := [], ad_outgoingPacket := None, ad_incomingRequest := request\<rparr>;
          submitted = (Connection_CryptoState (PacketTypeToEncryptionLevel (as_PacketType request)) (ad_connection a) \<noteq> None)
      in bind_res (adapter_events (if submitted then wait else filter (\<lambda>e. \<not> is_handle e) wait) a) (\<lambda>(a, _).
         let sent = ad_outgoingPacket a in
         bind_res (adapter_events (filter (\<lambda>e. \<not> is_handle e) late) a) (\<lambda>(a, _).
         Inr (a, (request, ad_outgoingResponse a, sent, ad_incomingPacketSet a))))))"

fun query_messages ::
    "(string \<times> adapter_event list \<times> adapter_event list) list \<Rightarrow> Adapter \<Rightarrow>
     (Adapter \<times> (AbstractSymbol \<times> Response list \<times> Packet option \<times> Packet list) list) res" where
  "query_messages [] a = Inr (a, [])"
| "query_messages (m # ms) a =
     bind_res (query_message m a) (\<lambda>(a, r). bind_res (query_messages ms a) (\<lambda>(a, rs). Inr (a, r # rs)))"

definition AddIOs ::
    "AbstractSymbol list \<Rightarrow> AbstractSymbol list list \<Rightarrow> Packet option list \<Rightarrow> Packet list list \<Rightarrow>
     (string \<Rightarrow> (Packet option list \<times> Packet list list) option) \<Rightarrow> (string \<Rightarrow> (Packet option list \<times> Packet list list) option)" where
  "AddIOs abstractInputs abstractOutputs concreteInputs concreteOutputs acm =
     acm(AbstractOrderedPair_String (abstractInputs, abstractOutputs) \<mapsto> (concreteInputs, concreteOutputs))"

definition handleNewAbstractQuery ::
    "(string \<times> adapter_event list \<times> adapter_event list) list \<Rightarrow> Adapter \<Rightarrow> (Adapter \<times> string) res" where
  "handleNewAbstractQuery query a =
     bind_res (query_messages query a) (\<lambda>(a, rs).
     let outputs = map (\<lambda>(_, r, _, _). map (response_symbol (ad_connection a)) r) rs;
         a = a\<lparr>ad_oracleTable := AddIOs (map fst rs) outputs (map (\<lambda>(_, _, s, _). s) rs) (map (\<lambda>(_, _, _, p). p) rs)
                (ad_oracleTable a)\<rparr>
     in Inr (a, join (CHR '' '') (map AbstractSet_String outputs) @ [CHR 0x0A]))"

text \<open>A line of the learner: a command or a query.\<close>

datatype learner_input = Start | Reset | Stop | Query "string list"

definition trim_suffix :: "char \<Rightarrow> string \<Rightarrow> string" where
  "trim_suffix c s = (if s \<noteq> [] \<and> last s = c then butlast s else s)"

definition handleNewServerInput :: "string \<Rightarrow> learner_input" where
  "handleNewServerInput message =
     (let query = split_on (CHR '' '') (trim_suffix (CHR 0x0D) (trim_suffix (CHR 0x0A) message)) in
      if query = [''START''] then Start else if query = [''RESET''] then Reset else if query = [''STOP''] then Stop
      else Query query)"

text \<open>The symbols of a query, joined by blanks and with a line end, are taken apart again.\<close>

lemma query_line:
  assumes "ms \<noteq> []" "\<forall>m\<in>set ms. CHR '' '' \<notin> set m \<and> CHR 0x0D \<notin> set m" "ms \<noteq> [''START'']" "ms \<noteq> [''RESET'']" "ms \<noteq> [''STOP'']"
  shows "handleNewServerInput (join (CHR '' '') ms @ [CHR 0x0A]) = Query ms"
proof -
  have "set (join (CHR '' '') ms) \<subseteq> insert (CHR '' '') (\<Union> (set ` set ms))" by (rule join_chars)
  then have "CHR 0x0D \<notin> set (join (CHR '' '') ms)" using assms(2) by auto
  then have "trim_suffix (CHR 0x0D) (join (CHR '' '') ms) = join (CHR '' '') ms"
    using last_in_set by (fastforce simp: trim_suffix_def)
  moreover have "split_on (CHR '' '') (join (CHR '' '') ms) = ms" using assms(1,2) by (intro split_join) auto
  ultimately show ?thesis using assms(3-5) by (simp add: handleNewServerInput_def trim_suffix_def Let_def)
qed

section \<open>What a request does\<close>

definition supported :: "FrameType list" where
  "supported = [AckType, PingType, CryptoType, PaddingFrameType, StreamType, MaxDataType, MaxStreamDataType, HandshakeDoneType]"

text \<open>The frames the adapter queues itself, and the commands it gives to the agents, by frame type.\<close>

definition queued_for :: "EncryptionLevel \<Rightarrow> FrameType \<Rightarrow> QueuedFrame list" where
  "queued_for l t = map (\<lambda>f. \<lparr>qf_Frame = f, qf_EncryptionLevel = l\<rparr>)
     (if t = PingType then [PingFrame] else if t = PaddingFrameType then [PaddingFrame]
      else if t = HandshakeDoneType then [HandshakeDone] else [])"

definition commands_for :: "Adapter \<Rightarrow> PNSpace \<Rightarrow> EncryptionLevel \<Rightarrow> FrameType \<Rightarrow> command list" where
  "commands_for a pnSpace l t =
     (if t = AckType then [AckSend pnSpace] else if t = CryptoType then [TlsSendFrom l]
      else if t = StreamType then stream_requests a @ [StreamSend \<lparr>fr_FrameType = StreamType, fr_EncryptionLevel = l\<rparr>]
      else if t = MaxStreamDataType then [FlowControlSend \<lparr>fr_FrameType = MaxStreamDataType, fr_EncryptionLevel = l\<rparr>] else [])"

lemma request_frame_cases:
  "request_frame pnSpace l t a =
     (if t \<in> set supported
      then Inr (a\<lparr>ad_connection := (ad_connection a)\<lparr>c_FrameQueue := c_FrameQueue (ad_connection a) @ queued_for l t\<rparr>\<rparr>,
                commands_for a pnSpace l t)
      else Inl (PanicString ''Error: Frame Type not implemented!''))"
proof -
  have d: "distinct supported" by (simp add: supported_def frame_types)
  have same: "a\<lparr>ad_connection := (ad_connection a)\<lparr>c_FrameQueue := c_FrameQueue (ad_connection a)\<rparr>\<rparr> = a" by simp
  show ?thesis
  proof (cases "t \<in> set supported")
    case True
    then consider "t = AckType" | "t = PingType" | "t = CryptoType" | "t = PaddingFrameType" | "t = StreamType" | "t = MaxDataType"
      | "t = MaxStreamDataType" | "t = HandshakeDoneType"
      by (auto simp: supported_def)
    then show ?thesis
      using d by cases (auto simp: request_frame_def queued_for_def commands_for_def supported_def queue_frame_def submit_frame_def same)
  qed (auto simp: request_frame_def supported_def)
qed

lemma commands_for_frames [simp]:
  "commands_for (a\<lparr>ad_connection := (ad_connection a)\<lparr>c_FrameQueue := q\<rparr>\<rparr>) = commands_for a"
  by (simp add: fun_eq_iff commands_for_def stream_requests_def)

lemma request_frames_result:
  "request_frames pnSpace l ts a =
     (if set ts \<subseteq> set supported
      then Inr (a\<lparr>ad_connection := (ad_connection a)\<lparr>c_FrameQueue := c_FrameQueue (ad_connection a) @ concat (map (queued_for l) ts)\<rparr>\<rparr>,
                concat (map (commands_for a pnSpace l) ts))
      else Inl (PanicString ''Error: Frame Type not implemented!''))"
  by (induction ts arbitrary: a) (auto simp: request_frame_cases)

text \<open>
  C20. A request of the learner: with frame types the adapter supports, the version and packet number of the symbol are set, each type queues
  exactly its frames or gives its agent exactly its commands, in the order the set is visited, and one packet of the level is prepared
  at the end; any other frame type panics.
\<close>

theorem request_dispatch:
  "let space = PacketTypeToPNSpace (as_PacketType as); level = PacketTypeToEncryptionLevel (as_PacketType as);
       c = ad_connection a; ho = as_HeaderOptions as
   in case adapter_request as a of
        Inl e \<Rightarrow> \<not> set (as_FrameTypes as) \<subseteq> set supported
      | Inr (a', cmds) \<Rightarrow> set (as_FrameTypes as) \<subseteq> set supported \<and>
          cmds = concat (map (commands_for a space level) (as_FrameTypes as)) \<and>
          ad_connection a' = c
            \<lparr>c_Version := (case ho_QUICVersion ho of None \<Rightarrow> c_Version c | Some v \<Rightarrow> v),
             c_PacketNumber := (case ho_PacketNumber ho of None \<Rightarrow> c_PacketNumber c
                                | Some pn \<Rightarrow> (c_PacketNumber c)(space := pn)),
             c_FrameQueue := c_FrameQueue c @ concat (map (queued_for level) (as_FrameTypes as)),
             c_PreparePacket := c_PreparePacket c @ [level]\<rparr>"
proof -
  have "commands_for (a\<lparr>ad_connection := set_options s h (ad_connection a)\<rparr>) = commands_for a" for s h
    by (simp add: fun_eq_iff commands_for_def stream_requests_def set_options_def Let_def split: option.splits)
  then show ?thesis
    by (auto simp: adapter_request_def request_frames_result Let_def submit_prepare_def set_options_def split: option.splits)
qed

section \<open>What a query returns\<close>

text \<open>The abstraction of a packet, given the options of the request.\<close>

definition visible :: "Packet \<Rightarrow> bool" where
  "visible p \<longleftrightarrow> classify p \<noteq> None"

definition abstract_packet :: "HeaderOptions \<Rightarrow> Packet \<Rightarrow> Response" where
  "abstract_packet ho p =
     \<lparr>re_PacketType = fst (the (classify p)),
      re_PacketNumber = (if ho_PacketNumber ho = None then None else map_option GetPacketNumber (GetHeader p)),
      re_QUICVersion = (if ho_QUICVersion ho = None then NoVersion else snd (the (classify p))),
      re_FrameTypes = visible_frames p\<rparr>"

lemma visible_fold:
  "set (fold (\<lambda>f ts. if FrameType f \<noteq> PaddingFrameType then set_Add (FrameType f) ts else ts) fs ts) =
     set ts \<union> (FrameType ` set fs - {PaddingFrameType})"
  by (induction fs arbitrary: ts) (auto simp: set_Add_def)

lemma visible_frames_set:
  "framer p = Some q \<Longrightarrow> set (visible_frames p) = FrameType ` set (fp_Frames q) - {PaddingFrameType}"
  by (simp add: visible_frames_def visible_fold)

lemma visible_iff:
  "visible p \<longleftrightarrow> (case framer p of None \<Rightarrow> True | Some q \<Rightarrow> \<exists>f\<in>set (fp_Frames q). FrameType f \<noteq> PaddingFrameType)"
proof -
  have "visible_frames p = [] \<longleftrightarrow> \<not> (\<exists>f\<in>set (fp_Frames q). FrameType f \<noteq> PaddingFrameType)" if "framer p = Some q" for q
    using visible_frames_set [OF that] by (metis (no_types, lifting) Diff_iff emptyE empty_iff empty_set image_iff set_empty
        singletonD singletonI ex_in_conv)
  then show ?thesis by (cases p) (auto simp: visible_def)
qed

fun received :: "adapter_event list \<Rightarrow> Packet list" where
  "received [] = []"
| "received (Received p # es) = p # received es"
| "received (_ # es) = received es"

lemma received_append [simp]: "received (xs @ ys) = received xs @ received ys"
  by (induction xs rule: received.induct) auto

lemma received_filter [simp]: "received (filter (\<lambda>e. \<not> is_handle e) es) = received es"
  by (induction es rule: received.induct) (auto simp: is_handle_def)

text \<open>\<open>grown a ps a'\<close>: the visible ones of the packets \<open>ps\<close> were recorded.\<close>

definition grown :: "Adapter \<Rightarrow> Packet list \<Rightarrow> Adapter \<Rightarrow> bool" where
  "grown a ps a' \<longleftrightarrow> ad_incomingRequest a' = ad_incomingRequest a \<and> ad_oracleTable a' = ad_oracleTable a \<and>
     ad_incomingPacketSet a' = ad_incomingPacketSet a @ filter visible ps \<and>
     ad_outgoingResponse a' = ad_outgoingResponse a @
       map (abstract_packet (as_HeaderOptions (ad_incomingRequest a))) (filter visible ps)"

lemma grown_refl [simp]: "grown a [] a"
  by (simp add: grown_def)

lemma grown_trans: "grown a ps b \<Longrightarrow> grown b qs c \<Longrightarrow> grown a (ps @ qs) c"
  by (simp add: grown_def)

lemma adapter_event_grown: "adapter_event_do e a = Inr (a', cs) \<Longrightarrow> grown a (received [e]) a'"
proof (cases e)
  case Handle
  then show "adapter_event_do e a = Inr (a', cs) \<Longrightarrow> grown a (received [e]) a'"
    by (auto simp: adapter_request_def request_frames_result Let_def grown_def split: if_splits)
next
  case (Received p)
  then show "adapter_event_do e a = Inr (a', cs) \<Longrightarrow> grown a (received [e]) a'"
    by (auto simp: adapter_response_def grown_def visible_def abstract_packet_def Let_def split: option.splits)
qed (auto simp: grown_def adapter_sent_def)

lemma adapter_events_grown: "adapter_events es a = Inr (a', cs) \<Longrightarrow> grown a (received es) a'"
proof (induction es arbitrary: a cs)
  case (Cons e es)
  then obtain a1 c1 c2 where "adapter_event_do e a = Inr (a1, c1)" "adapter_events es a1 = Inr (a', c2)" by auto
  from grown_trans [OF adapter_event_grown [OF this(1)] Cons.IH [OF this(2)]] show ?case
    using received_append [of "[e]" es] by simp
qed simp

definition message_result ::
    "string \<times> adapter_event list \<times> adapter_event list \<Rightarrow> AbstractSymbol \<times> Response list \<times> Packet option \<times> Packet list \<Rightarrow> bool" where
  "message_result m r \<longleftrightarrow>
     (case (m, r) of ((message, wait, late), (request, responses, sent, packets)) \<Rightarrow>
        NewAbstractSymbolFromString message = Inr request \<and> packets = filter visible (received (wait @ late)) \<and>
        responses = map (abstract_packet (as_HeaderOptions request)) packets)"

lemma query_message_result:
  assumes "query_message m a = Inr (a', r)"
  shows "message_result m r \<and> ad_oracleTable a' = ad_oracleTable a"
proof -
  obtain message wait late where m: "m = (message, wait, late)" by (cases m)
  obtain request where q: "NewAbstractSymbolFromString message = Inr request"
    using assms by (auto simp: m query_message_def)
  let ?a = "a\<lparr>ad_outgoingResponse := [], ad_incomingPacketSet := [], ad_outgoingPacket := None, ad_incomingRequest := request\<rparr>"
  obtain w a1 c1 c2 where w: "adapter_events w ?a = Inr (a1, c1)" "received w = received wait"
    "adapter_events (filter (\<lambda>e. \<not> is_handle e) late) a1 = Inr (a', c2)"
    "r = (request, ad_outgoingResponse a', ad_outgoingPacket a1, ad_incomingPacketSet a')"
    using assms q by (auto simp: m query_message_def Let_def)
  from grown_trans [OF adapter_events_grown [OF w(1)] adapter_events_grown [OF w(3)]] show ?thesis
    using w(2,4) q by (simp add: m message_result_def grown_def)
qed

lemma query_messages_result:
  "query_messages ms a = Inr (a', rs) \<Longrightarrow> list_all2 message_result ms rs \<and> ad_oracleTable a' = ad_oracleTable a"
  by (induction ms arbitrary: a rs) (auto dest!: query_message_result)

text \<open>
  C18. A query of the learner: the reply has, for each message and in order, the set of the abstractions of exactly those packets that arrived
  after the message and before the next one and that show a frame other than PADDING or have none by nature; and the oracle table maps
  the inputs and outputs of the query to the packet sent and the packets received for each message.
\<close>

theorem query_reply:
  assumes "handleNewAbstractQuery query a = Inr (a', reply)"
  shows "\<exists>rs outputs. list_all2 message_result query rs \<and>
    outputs = map (\<lambda>(_, responses, _, _). map (response_symbol (ad_connection a')) responses) rs \<and>
    reply = join (CHR '' '') (map AbstractSet_String outputs) @ [CHR 0x0A] \<and>
    ad_oracleTable a' = (ad_oracleTable a)
      (AbstractOrderedPair_String (map fst rs, outputs) \<mapsto> (map (\<lambda>(_, _, sent, _). sent) rs, map (\<lambda>(_, _, _, packets). packets) rs))"
proof -
  obtain a1 rs where q: "query_messages query a = Inr (a1, rs)" using assms by (auto simp: handleNewAbstractQuery_def)
  show ?thesis
    using assms q query_messages_result [OF q] by (auto simp: handleNewAbstractQuery_def AddIOs_def Let_def)
qed

text \<open>A PING to a server that answers with a packet of PADDING and one with an ACK.\<close>

definition example_adapter :: Adapter where
  "example_adapter = \<lparr>ad_connection = first_connection, ad_http3 = False, ad_httpPath = [], ad_outgoingPacket = None,
     ad_incomingPacketSet = [], ad_incomingRequest = NewAbstractSymbol 0 \<lparr>ho_PacketNumber = None, ho_QUICVersion = None\<rparr> [],
     ad_outgoingResponse = [], ad_oracleTable = Map.empty\<rparr>"

definition answer :: "Frame list \<Rightarrow> Packet" where
  "answer fs = ProtectedP (new_FramePacket (Short \<lparr>sh_SpinBit = False, sh_KeyPhase = False, sh_DestinationCID = [],
     sh_TruncatedPN = \<lparr>tpn_Value = 0, tpn_Length = 1\<rparr>, sh_PacketNumber = 0\<rparr>) fs)"

definition example_query :: "(string \<times> adapter_event list \<times> adapter_event list) list" where
  "example_query = [(''INITIAL(?,?)[PING]'', [Handle, Received (answer [PaddingFrame])], [Received (answer [PingFrame, PaddingFrame])])]"

lemma example_parses:
  "NewAbstractSymbolFromString ''INITIAL(?,?)[PING]'' =
     Inr (NewAbstractSymbol Initial \<lparr>ho_PacketNumber = None, ho_QUICVersion = None\<rparr> [PingType])"
  by (simp add: NewAbstractSymbolFromString_def match_symbol_def match_options_def match_frames_def upper_def option_char_def
      frame_char_def parse_options_def stringToPacketType_def go_lookup_def FrameTypeFromString_def stringToFrameType_def
      set_Add_def)

lemma query_reply_witness:
  "\<exists>a' reply rs. handleNewAbstractQuery example_query example_adapter = Inr (a', reply) \<and> list_all2 message_result example_query rs \<and>
     (\<exists>request responses sent. rs = [(request, responses, sent, [answer [PingFrame, PaddingFrame]])])"
proof -
  have level: "PacketTypeToEncryptionLevel Initial = EncryptionLevelInitial"
    by (simp add: PacketTypeToEncryptionLevel_def go_lookup_def packet_types)
  obtain cs where keys: "Connection_CryptoState EncryptionLevelInitial first_connection = Some cs"
    using first_connection_keys by (auto simp: write_keys_def)
  obtain a' reply where q: "handleNewAbstractQuery example_query example_adapter = Inr (a', reply)"
    using level keys
    by (simp add: handleNewAbstractQuery_def example_query_def example_adapter_def query_message_def example_parses
        NewAbstractSymbol_def Let_def adapter_request_def request_frames_result supported_def is_handle_def)
  from query_reply [OF q] obtain rs where rs: "list_all2 message_result example_query rs" by blast
  then obtain request responses sent packets where r: "rs = [(request, responses, sent, packets)]"
    by (cases rs) (auto simp: example_query_def list_all2_Cons1)
  have "\<not> visible (answer [PaddingFrame])" "visible (answer [PingFrame, PaddingFrame])"
    by (simp_all add: visible_iff answer_def new_FramePacket_def frame_types)
  then have "packets = [answer [PingFrame, PaddingFrame]]"
    using rs r by (simp add: example_query_def message_result_def)
  with q rs r show ?thesis by blast
qed

text \<open>
  The version of a response is read when the reply is printed: a later message of the same query that sets the version of the connection
  changes the outputs of the earlier ones.
\<close>

lemma version_read_late:
  "re_QUICVersion r = ConnectionVersion \<Longrightarrow>
   ho_QUICVersion (as_HeaderOptions (response_symbol (set_options space \<lparr>ho_PacketNumber = n, ho_QUICVersion = Some v\<rparr> c) r)) = Some v"
  by (cases n) (simp_all add: response_symbol_def NewAbstractSymbol_def set_options_def)

end
