(* ===== verification/Spec2Isabelle.thy ===== *)
theory Spec2Isabelle
  imports Parse TransportParams FrameCodec Sender Recovery HttpAgents Buffering Handshakes Rtt Lifecycle Adapter
begin

text \<open>
  A model of QUIC-Tracker's client library and of the adapter that lets a learner drive it.

  \<^bold>\<open>The program.\<close> The package at the root (\<^verbatim>\<open>src/*.go\<close>) has the data of QUIC: variable-length integers, packet numbers, frames, headers,
  packets, transport parameters, streams with their reassembly, packet protection, and the state of a connection. The behaviour of a client is split
  into agents (\<^verbatim>\<open>src/agents\<close>), goroutines that each run a select loop over the broadcast channels of the connection. A datagram comes
  in through the socket agent, is decrypted and parsed by the parsing agent (or kept by the buffer agent until there is a key), and its packet is
  broadcast to the others: the TLS agent feeds the crypto streams to the TLS stack and installs keys, the handshake agent follows Retry and
  version negotiation, the ACK agent, the recovery agent and the RTT agent keep track of packets. In the other direction the frame queue, ACK, flow
  control and stream agents produce frames, which the sending agent puts into packets. The adapter (\<^verbatim>\<open>src/adapter\<close>) turns abstract symbols of a
  learner into commands for the agents and packets into symbols.

  \<^bold>\<open>Representation.\<close> Structs are records, interfaces with several implementations are datatypes, fixed-width integers are words, slices are
  lists, maps are functions with the zero value at missing keys (or option-valued functions where the code asks for presence). A function that may
  panic has a result in \<open>panic + 'a\<close>; Go errors are values of type \<open>go_error\<close>. A broadcast channel is the log of what was
  submitted to it. An agent is a record of its fields and the variables of its loop; each branch of the select loop is a function on agent and
  connection, and the loop is a step relation, where the theorem is about runs. \<open>reachable\<close> and the locale \<open>machine\<close> (theory \<open>Prelude\<close>) carry
  the invariants.

  \<^bold>\<open>Theories and sources.\<close>

  \<^item> \<open>Prelude\<close>: panics, byte readers and buffers of the standard library, words, runs.
  \<^item> \<open>VarInt\<close> (\<^verbatim>\<open>lib/varint.go\<close>, \<^verbatim>\<open>common.go\<close>) and \<open>Numbers\<close> (\<^verbatim>\<open>common.go\<close>): integers and packet numbers survive the wire; what truncation and
    joining of packet numbers restore, and what they do not.
  \<^item> \<open>ByteIntervals\<close>, \<open>IntervalRing\<close>, \<open>Streams\<close> (\<^verbatim>\<open>streams.go\<close>, \<^verbatim>\<open>utils.go\<close>): the gap list as a list and as the pointer ring it is, with the refinement
    between the two; reassembly of a stream from frames in any order.
  \<^item> \<open>Frames\<close>, \<open>FrameCodec\<close> (\<^verbatim>\<open>frames.go\<close>): every frame, its length, writer and reader; the round trip.
  \<^item> \<open>TransportParams\<close> (\<^verbatim>\<open>transport_parameters.go\<close>): what one side announces the other receives.
  \<^item> \<open>Levels\<close> (\<^verbatim>\<open>crypto.go\<close>, \<^verbatim>\<open>headers.go\<close>), \<open>ConnData\<close> (the records of \<^verbatim>\<open>headers.go\<close>, \<^verbatim>\<open>packets.go\<close>, \<^verbatim>\<open>common.go\<close>, \<^verbatim>\<open>connection.go\<close>), \<open>Headers\<close>
    (\<^verbatim>\<open>headers.go\<close>), \<open>Packets\<close> (\<^verbatim>\<open>packets.go\<close>): headers and packets are read back as written; padding.
  \<^item> \<open>Protect\<close>, \<open>ConnOps\<close> (\<^verbatim>\<open>connection.go\<close>) and \<open>Parse\<close> (\<^verbatim>\<open>agents/parse_agent.go\<close>): encryption ends, what is encrypted is opened to the same packet, the first
    flight has the minimum size, version negotiation.
  \<^item> \<open>Acks\<close>, \<open>FlowControl\<close>, \<open>FrameQueue\<close>, \<open>SendStreams\<close>, \<open>Recovery\<close>, \<open>Sender\<close>, \<open>Buffering\<close>, \<open>TlsAgents\<close>, \<open>Handshakes\<close>, \<open>Rtt\<close>, \<open>Closing\<close>: one agent of
    \<^verbatim>\<open>src/agents\<close> each. ACK frames mean the set of packets received; credit stays within the limits; the frame queue is a priority queue; stream data
    arrives; only what was sent is retransmitted; packets fit the MTU when the producers keep their contract; no payload is lost while keys are
    missing; levels are announced with their keys; a Retry is followed once and keeps the packet numbers; round-trip estimates; closing.
  \<^item> \<open>Lifecycle\<close> (\<^verbatim>\<open>agents/base_agent.go\<close>): the agents of a connection; they can be restarted and stopped, and when this blocks.
  \<^item> \<open>Http3\<close> (\<^verbatim>\<open>http3/http3.go\<close>, the decoder of \<^verbatim>\<open>agents/http3_agent.go\<close>): frames on a stream are decoded however the stream is cut.
  \<^item> \<open>HttpAgents\<close> (\<^verbatim>\<open>agents/http3_agent.go\<close>, \<^verbatim>\<open>agents/http09_agent.go\<close>): requests and responses; a response has the data of its stream.
  \<^item> \<open>Abstract\<close> (\<^verbatim>\<open>adapter/abstract.go\<close>), \<open>Adapter\<close> (\<^verbatim>\<open>adapter/adapter.go\<close>, \<^verbatim>\<open>adapter/abstract_concrete_map.go\<close>): symbols are read back from their text; requests, replies and the
    oracle table.

  This theory has the property that joins the TLS agent and the buffer agent.

  \<^bold>\<open>Interfaces.\<close> The locale \<open>prio_queue\<close> is what the frame queue agent relies on, provided by the heap; \<open>frame_producer\<close> is the contract of the
  agents that fill packets, provided by the frame queue, ACK and flow control agents (the stream agent breaks it, as a lemma of \<open>Sender\<close> shows); \<open>machine\<close> is an
  invariant of a step relation, provided by every agent with a theorem on its runs.

  \<^bold>\<open>Parameters.\<close> Code outside the repository is an argument of the definitions: the AEAD and header cipher, the TLS stack (\<^verbatim>\<open>pigotls\<close>), the comparison of the
  package \<^verbatim>\<open>cmp\<close>, random bytes, the clock, and the order in which Go visits a map or a set. What is assumed of them is in the hypotheses (tags of 16 bytes,
  masks of at least 5 bytes, decryption inverts encryption), and the witnesses have instances.

  \<^bold>\<open>Loops and fuel.\<close> Loops are recursive functions with termination proofs. Two have fuel: the retry of encryption after padding, where two rounds are
  always enough (\<open>encrypt_returns\<close>), and the loop of the frame queue, where one round more than the queue has frames is enough (\<open>frame_queue_request\<close>). Loops of the
  pointer ring return \<open>None\<close> when they do not end, and \<open>gap_ring_refines\<close> shows that they end.

  \<^bold>\<open>Not modelled.\<close> Scheduling of goroutines and the capacity of channels: an agent's branch is one step, and the logs have no bound; \<open>Lifecycle\<close> has the channels that
  end agents, with the loop as their only receiver. Sockets, files, processes,
  the TCP server and traces, since they only do input and output. JSON, qlog and logging, which nothing depends on. The QPACK agent, a wrapper of a
  third-party encoder;
  what the HTTP/3 agent sends to it is a log, what it sends back an event. Making and resetting connections and adapters, as far as
  it opens sockets and wires agents. The test scenarios and command line programs.
\<close>

section \<open>Keys release payloads\<close>

text \<open>The buffer agent reads a sequence of announcements.\<close>

fun buffer_levels :: "DirectionalEncryptionLevel list \<Rightarrow> BufferAgent \<Rightarrow> IncomingPayload list \<times> BufferAgent" where
  "buffer_levels [] b = ([], b)"
| "buffer_levels (d # ds) b =
     (case buffer_level d b of (ps, b) \<Rightarrow> case buffer_levels ds b of (qs, b) \<Rightarrow> (ps @ qs, b))"

definition released :: "EncryptionLevel \<Rightarrow> BufferAgent \<Rightarrow> bool" where
  "released l b \<longleftrightarrow> unprocessedPayloads b l = [] \<and> encryptionLevelsAvailable b l"

lemma buffer_level_released:
  assumes "buffer_level d b = (ps, b')"
  shows "released l b \<Longrightarrow> released l b'"
    and "del_Available d \<Longrightarrow> del_Read d \<Longrightarrow> released (del_EncryptionLevel d) b'"
    and "set (unprocessedPayloads b l) \<subseteq> set (unprocessedPayloads b' l) \<or> mark_buffered ` set (unprocessedPayloads b l) \<subseteq> set ps"
  using assms by (auto simp: buffer_level_def released_def Let_def split: if_splits)

lemma buffer_levels_released:
  "buffer_levels ds b = (ps, b') \<Longrightarrow> released l b \<Longrightarrow> released l b'"
  by (induction ds arbitrary: b ps) (auto split: prod.splits dest: buffer_level_released(1))

lemma buffer_levels_announced:
  assumes "buffer_levels ds b = (ps, b')" "d \<in> set ds" "del_Available d" "del_Read d"
  shows "released (del_EncryptionLevel d) b'"
  using assms
proof (induction ds arbitrary: b ps)
  case (Cons x ds)
  obtain qs b1 rs where s: "buffer_level x b = (qs, b1)" "buffer_levels ds b1 = (rs, b')"
    using Cons.prems(1) by (auto split: prod.splits)
  show ?case
  proof (cases "d = x")
    case True
    then show ?thesis using buffer_levels_released [OF s(2)] buffer_level_released(2) [OF s(1)] Cons.prems(3,4) by simp
  qed (use Cons s in auto)
qed simp

lemma buffer_levels_payloads:
  assumes "buffer_levels ds b = (ps, b')" "unprocessedPayloads b' l = []"
  shows "mark_buffered ` set (unprocessedPayloads b l) \<subseteq> set ps"
  using assms
proof (induction ds arbitrary: b ps)
  case (Cons x ds)
  obtain qs b1 rs where s: "buffer_level x b = (qs, b1)" "buffer_levels ds b1 = (rs, b')" "ps = qs @ rs"
    using Cons.prems(1) by (auto split: prod.splits)
  have "mark_buffered ` set (unprocessedPayloads b1 l) \<subseteq> set rs" by (rule Cons.IH [OF s(2) Cons.prems(2)])
  with buffer_level_released(3) [OF s(1), of l] s(3) show ?case by auto
qed simp

text \<open>
  C14. The TLS agent and the buffer agent together: in every run of the TLS agent, when the connection has a key to read at a level, a buffer agent that has read the
  announcements so far holds no payload of that level any more, passes further ones on at once, and has handed on every payload it held,
  marked as buffered.
\<close>

theorem keys_release_payloads:
  assumes "reachable tls_init (tls_step T) (a, t, c)" "d \<in> set tls_levels" "del_Read d" "has_key d c"
    "buffer_levels (c_EncryptionLevels c) b = (ps, b')"
  shows "released (del_EncryptionLevel d) b' \<and>
    mark_buffered ` set (unprocessedPayloads b (del_EncryptionLevel d)) \<subseteq> set ps"
proof -
  have "d\<lparr>del_Available := True\<rparr> \<in> set (announced c)" using announced_exactly [OF assms(1)] assms(2,4) by auto
  then have "d\<lparr>del_Available := True\<rparr> \<in> set (c_EncryptionLevels c)" by (simp add: announced_def)
  from buffer_levels_announced [OF assms(5) this] assms(3) have "released (del_EncryptionLevel d) b'" by simp
  with buffer_levels_payloads [OF assms(5)] show ?thesis by (simp add: released_def)
qed

lemma keys_release_payloads_witness:
  "\<exists>a c ps b'. reachable tls_init (tls_step key_stack) (a, (), c) \<and>
     buffer_levels (c_EncryptionLevels c) (buffer_Run\<lparr>unprocessedPayloads := \<lambda>_. [\<lparr>ip_PacketContext = zero_PacketContext, ip_Payload = [1]\<rparr>]\<rparr>) =
       (ps, b') \<and> released EncryptionLevelHandshake b' \<and> ps \<noteq> []"
proof -
  obtain a c where r: "reachable tls_init (tls_step key_stack) (a, (), c)" "has_key (tls_levels ! 1) c" using run_to_keys .
  let ?b = "buffer_Run\<lparr>unprocessedPayloads := \<lambda>_. [\<lparr>ip_PacketContext = zero_PacketContext, ip_Payload = [1]\<rparr>]\<rparr>"
  obtain ps b' where b: "buffer_levels (c_EncryptionLevels c) ?b = (ps, b')" by (metis prod.exhaust)
  have d: "tls_levels ! 1 \<in> set tls_levels" "del_Read (tls_levels ! 1)" "del_EncryptionLevel (tls_levels ! 1) = EncryptionLevelHandshake"
    by (simp_all add: tls_levels_def)
  from keys_release_payloads [OF r(1) d(1,2) r(2) b] d(3) have "released EncryptionLevelHandshake b'" "ps \<noteq> []" by auto
  with r(1) b show ?thesis by blast
qed

end
